(* ===== verification/LD_Prelude.thy ===== *)
theory LD_Prelude
  imports Main "HOL-Library.Monad_Syntax" "HOL-Library.Word"
begin

text \<open>
  What every component of the model shares: the return codes of \<open>src/src/common.h\<close>, the
  documented numeric constants of the LDAP protocol that the code compares against, C pointers to
  single objects, and small lemmas about options and chains of \<open>prev\<close> pointers.

  Functions that can run into undefined behaviour of C (a NULL dereference, a use after free, an
  index outside an array) return an \<open>option\<close>: \<open>None\<close> stands for the undefined run, and the
  \<open>do\<close> notation of \<open>Monad_Syntax\<close> propagates it.
\<close>

section \<open>Collections of facts\<close>

named_theorems queue_rep \<open>representation facts of the request queue\<close>
named_theorems conn_frame \<open>fields of the connection an operation leaves alone\<close>
named_theorems run_defs \<open>definitions unfolded to evaluate a concrete run\<close>

section \<open>Return codes\<close>

datatype OperationReturnCode =
    RETURN_CODE_SUCCESS
  | RETURN_CODE_FAILURE
  | RETURN_CODE_MISSING_ATTRIBUTE
  | RETURN_CODE_OPERATION_IN_PROGRESS
  | RETURN_CODE_REPEAT_LAST_OPERATION

section \<open>Constants of the LDAP protocol and of libldap\<close>

text \<open>
  The values that RFC 4511 and the libldap manual document for the names the code uses: result
  codes, tags of response messages, results of \<open>ldap_result\<close> and modification opcodes.
\<close>

abbreviation (input) LDAP_SUCCESS :: int where "LDAP_SUCCESS \<equiv> 0"
abbreviation (input) LDAP_SASL_BIND_IN_PROGRESS :: int where "LDAP_SASL_BIND_IN_PROGRESS \<equiv> 14"
abbreviation (input) LDAP_ALREADY_EXISTS :: int where "LDAP_ALREADY_EXISTS \<equiv> 68"
abbreviation (input) LDAP_LOCAL_ERROR :: int where "LDAP_LOCAL_ERROR \<equiv> -2"
abbreviation (input) LDAP_PARAM_ERROR :: int where "LDAP_PARAM_ERROR \<equiv> -9"
abbreviation (input) LDAP_X_CONNECTING :: int where "LDAP_X_CONNECTING \<equiv> -18"
abbreviation (input) LDAP_OPT_SUCCESS :: int where "LDAP_OPT_SUCCESS \<equiv> 0"

abbreviation (input) LDAP_RES_ANY :: int where "LDAP_RES_ANY \<equiv> -1"
abbreviation (input) LDAP_RES_UNSOLICITED :: int where "LDAP_RES_UNSOLICITED \<equiv> 0"
abbreviation (input) LDAP_RES_BIND :: int where "LDAP_RES_BIND \<equiv> 97"
abbreviation (input) LDAP_RES_SEARCH_ENTRY :: int where "LDAP_RES_SEARCH_ENTRY \<equiv> 100"
abbreviation (input) LDAP_RES_SEARCH_RESULT :: int where "LDAP_RES_SEARCH_RESULT \<equiv> 101"
abbreviation (input) LDAP_RES_MODIFY :: int where "LDAP_RES_MODIFY \<equiv> 103"
abbreviation (input) LDAP_RES_ADD :: int where "LDAP_RES_ADD \<equiv> 105"
abbreviation (input) LDAP_RES_DELETE :: int where "LDAP_RES_DELETE \<equiv> 107"
abbreviation (input) LDAP_RES_RENAME :: int where "LDAP_RES_RENAME \<equiv> 109"
abbreviation (input) LDAP_RES_SEARCH_REFERENCE :: int where "LDAP_RES_SEARCH_REFERENCE \<equiv> 115"
abbreviation (input) LDAP_RES_EXTENDED :: int where "LDAP_RES_EXTENDED \<equiv> 120"

abbreviation (input) LDAP_MOD_ADD :: int where "LDAP_MOD_ADD \<equiv> 0"
abbreviation (input) LDAP_MOD_DELETE :: int where "LDAP_MOD_DELETE \<equiv> 1"
abbreviation (input) LDAP_MOD_REPLACE :: int where "LDAP_MOD_REPLACE \<equiv> 2"

abbreviation (input) INT_MAX :: int where "INT_MAX \<equiv> 2147483647"

section \<open>C pointers to one object\<close>

text \<open>
  A pointer field that owns one object: NULL, a live object, or the address of an object that has
  been freed. Reading through the last two is undefined behaviour.
\<close>

datatype 'a cptr = Null | Valid 'a | Dangling

fun deref :: "'a cptr \<Rightarrow> 'a option" where
  "deref Null = None"
| "deref (Valid x) = Some x"
| "deref Dangling = None"

lemma deref_Some_iff [simp]: "deref p = Some x \<longleftrightarrow> p = Valid x"
  by (cases p) auto

section \<open>Options\<close>

lemma bind_SomeE:
  assumes "Option.bind m f = Some y"
  obtains x where "m = Some x" and "f x = Some y"
  using assms by (cases m) auto

lemma if_Some_None [simp]: "((if b then Some x else None) = Some y) \<longleftrightarrow> b \<and> x = y"
  by simp

text \<open>The first value that is present.\<close>

primrec first_some :: "'a option list \<Rightarrow> 'a option" where
  "first_some [] = None"
| "first_some (x # xs) = (case x of None \<Rightarrow> first_some xs | Some y \<Rightarrow> Some y)"

lemma first_some_append [simp]:
  "first_some (xs @ ys) = (case first_some xs of None \<Rightarrow> first_some ys | Some y \<Rightarrow> Some y)"
  by (induction xs) (auto split: option.splits)

section \<open>Chains of \<open>prev\<close> pointers\<close>

text \<open>
  The nodes of an intrusive queue are linked from the head to the tail by their \<open>prev\<close> pointers.
  \<open>chain pr h xs\<close>: following \<open>pr\<close> from \<open>h\<close> visits exactly \<open>xs\<close> and then NULL. \<open>walk\<close>
  computes the nodes from a length.
\<close>

primrec chain :: "('a \<Rightarrow> 'a option) \<Rightarrow> 'a option \<Rightarrow> 'a list \<Rightarrow> bool" where
  "chain pr h [] \<longleftrightarrow> h = None"
| "chain pr h (x # xs) \<longleftrightarrow> h = Some x \<and> chain pr (pr x) xs"

fun walk :: "nat \<Rightarrow> ('a \<Rightarrow> 'a option) \<Rightarrow> 'a option \<Rightarrow> 'a list" where
  "walk 0 pr h = []"
| "walk (Suc n) pr None = []"
| "walk (Suc n) pr (Some a) = a # walk n pr (pr a)"

lemma walk_chain: "chain pr h xs \<Longrightarrow> walk (length xs) pr h = xs"
  by (induction xs arbitrary: h) auto

lemma chain_None [simp]: "chain pr None xs \<longleftrightarrow> xs = []"
  by (cases xs) auto

lemma chain_Some: "chain pr (Some a) xs \<longleftrightarrow> (\<exists>ys. xs = a # ys \<and> chain pr (pr a) ys)"
  by (cases xs) auto

lemma chain_upd [simp]: "x \<notin> set xs \<Longrightarrow> chain (pr(x := v)) h xs = chain pr h xs"
  by (induction xs arbitrary: h) auto

lemma chain_cong:
  "(\<And>x. x \<in> set xs \<Longrightarrow> pr x = pr' x) \<Longrightarrow> chain pr h xs = chain pr' h xs"
  by (induction xs arbitrary: h) auto

text \<open>Linking a second chain behind the last node of a first one appends the lists.\<close>

lemma chain_link:
  assumes "chain pr h xs" and "distinct xs" and "xs \<noteq> []"
    and "chain pr g ys" and "set xs \<inter> set ys = {}"
  shows "chain (pr(last xs := g)) h (xs @ ys)"
  using assms
proof (induction xs arbitrary: h)
  case Nil
  then show ?case by simp
next
  case (Cons x xs)
  show ?case
  proof (cases "xs = []")
    case True
    with Cons.prems show ?thesis by (simp add: fun_upd_def [symmetric])
  next
    case False
    with Cons.prems have "x \<noteq> last xs" by auto
    with Cons False show ?thesis by auto
  qed
qed

end
