(* ===== verification/Ragel_Machines.thy ===== *)
theory Ragel_Machines
  imports LD_Prelude "HOL-Library.Char_ord"
begin

text \<open>
  The recognisers of \<open>src/src/syntaxes/*.rl\<close>. A Ragel machine is a regular expression over bytes,
  compiled to a deterministic automaton; \<open>write exec\<close> runs it over the buffer and leaves the state
  in \<open>cs\<close>, and every \<open>is_...\<close> function returns \<open>cs != ..._error\<close>. The automaton is modelled as
  the set of partial derivatives of the expression: a state is the list of what may still follow,
  the error state is the empty list, and a final state is one with a nullable member. The lemmas
  show what this run decides: not membership in the language, but whether the input can be
  extended to a member.
\<close>

section \<open>Machine expressions\<close>

datatype rl =
    REps
  | RCls "(nat \<times> nat) list"
  | RSeq rl rl
  | RAlt rl rl
  | RStar rl

definition in_cls :: "(nat \<times> nat) list \<Rightarrow> char \<Rightarrow> bool" where
  "in_cls rs c \<longleftrightarrow> list_ex (\<lambda>(lo, hi). lo \<le> of_char c \<and> of_char c \<le> hi) rs"

abbreviation rng :: "nat \<Rightarrow> nat \<Rightarrow> rl" where "rng lo hi \<equiv> RCls [(lo, hi)]"

abbreviation byte :: "nat \<Rightarrow> rl" where "byte n \<equiv> RCls [(n, n)]"

text \<open>A literal in double quotes, and one with the suffix \<open>i\<close> (letter case ignored).\<close>

fun lit :: "string \<Rightarrow> rl" where
  "lit [] = REps"
| "lit (c # s) = RSeq (byte (of_char c)) (lit s)"

definition letter_classes :: "nat \<Rightarrow> (nat \<times> nat) list" where
  "letter_classes n =
     (if 65 \<le> n \<and> n \<le> 90 then [(n, n), (n + 32, n + 32)]
      else if 97 \<le> n \<and> n \<le> 122 then [(n - 32, n - 32), (n, n)]
      else [(n, n)])"

fun lit_i :: "string \<Rightarrow> rl" where
  "lit_i [] = REps"
| "lit_i (c # s) = RSeq (RCls (letter_classes (of_char c))) (lit_i s)"

fun seqs :: "rl list \<Rightarrow> rl" where
  "seqs [] = REps"
| "seqs [r] = r"
| "seqs (r # rs) = RSeq r (seqs rs)"

fun alts :: "rl list \<Rightarrow> rl" where
  "alts [] = REps"
| "alts [r] = r"
| "alts (r # rs) = RAlt r (alts rs)"

abbreviation rplus :: "rl \<Rightarrow> rl" where "rplus r \<equiv> RSeq r (RStar r)"

abbreviation ropt :: "rl \<Rightarrow> rl" where "ropt r \<equiv> RAlt r REps"

section \<open>Language\<close>

inductive_set star_lang :: "string set \<Rightarrow> string set" for A where
  star_Nil: "[] \<in> star_lang A"
| star_app: "u \<in> A \<Longrightarrow> v \<in> star_lang A \<Longrightarrow> u @ v \<in> star_lang A"

primrec rl_lang :: "rl \<Rightarrow> string set" where
  "rl_lang REps = {[]}"
| "rl_lang (RCls rs) = {[c] |c. in_cls rs c}"
| "rl_lang (RSeq r s) = {u @ v |u v. u \<in> rl_lang r \<and> v \<in> rl_lang s}"
| "rl_lang (RAlt r s) = rl_lang r \<union> rl_lang s"
| "rl_lang (RStar r) = star_lang (rl_lang r)"

section \<open>The automaton\<close>

primrec nullable :: "rl \<Rightarrow> bool" where
  "nullable REps = True"
| "nullable (RCls rs) = False"
| "nullable (RSeq r s) = (nullable r \<and> nullable s)"
| "nullable (RAlt r s) = (nullable r \<or> nullable s)"
| "nullable (RStar r) = True"

fun rseq :: "rl \<Rightarrow> rl \<Rightarrow> rl" where
  "rseq REps s = s"
| "rseq r s = RSeq r s"

primrec pder :: "char \<Rightarrow> rl \<Rightarrow> rl list" where
  "pder c REps = []"
| "pder c (RCls rs) = (if in_cls rs c then [REps] else [])"
| "pder c (RSeq r s) =
     map (\<lambda>r'. rseq r' s) (pder c r) @ (if nullable r then pder c s else [])"
| "pder c (RAlt r s) = pder c r @ pder c s"
| "pder c (RStar r) = map (\<lambda>r'. rseq r' (RStar r)) (pder c r)"

definition rl_step :: "char \<Rightarrow> rl list \<Rightarrow> rl list" where
  "rl_step c cs = remdups (concat (map (pder c) cs))"

fun rl_run :: "rl list \<Rightarrow> string \<Rightarrow> rl list" where
  "rl_run cs [] = cs"
| "rl_run cs (c # s) = rl_run (rl_step c cs) s"

text \<open>
  \<open>ragel_exec m s\<close> is what the generated function returns for the machine \<open>m\<close>: the state after
  the whole buffer is not the error state. \<open>ragel_final m s\<close> is the test for a final state, which
  the functions do not make.
\<close>

definition ragel_exec :: "rl \<Rightarrow> string \<Rightarrow> bool" where
  "ragel_exec m s \<longleftrightarrow> rl_run [m] s \<noteq> []"

definition ragel_final :: "rl \<Rightarrow> string \<Rightarrow> bool" where
  "ragel_final m s \<longleftrightarrow> list_ex nullable (rl_run [m] s)"

section \<open>The run computes derivatives\<close>

lemma nullable_lang: "nullable r \<longleftrightarrow> [] \<in> rl_lang r"
  by (induction r) (auto intro: star_lang.intros)

lemma lang_rseq [simp]: "rl_lang (rseq r s) = rl_lang (RSeq r s)"
  by (cases r) auto

lemma star_lang_Cons:
  "c # w \<in> star_lang A \<longleftrightarrow> (\<exists>u v. w = u @ v \<and> c # u \<in> A \<and> v \<in> star_lang A)"
proof
  assume "c # w \<in> star_lang A"
  then show "\<exists>u v. w = u @ v \<and> c # u \<in> A \<and> v \<in> star_lang A"
    by (induction "c # w" arbitrary: w) (auto simp: append_eq_Cons_conv)
next
  assume "\<exists>u v. w = u @ v \<and> c # u \<in> A \<and> v \<in> star_lang A"
  then show "c # w \<in> star_lang A"
    using star_app [of "c # u" A for u] by fastforce
qed

lemma lang_RSeq_Cons:
  "c # w \<in> rl_lang (RSeq r s) \<longleftrightarrow>
    (\<exists>u v. w = u @ v \<and> c # u \<in> rl_lang r \<and> v \<in> rl_lang s) \<or> ([] \<in> rl_lang r \<and> c # w \<in> rl_lang s)"
  by (auto simp: Cons_eq_append_conv)

lemma ex_rseq_lang:
  "(\<exists>q \<in> (\<lambda>r'. rseq r' s) ` R. w \<in> rl_lang q) \<longleftrightarrow>
    (\<exists>u v. w = u @ v \<and> (\<exists>r' \<in> R. u \<in> rl_lang r') \<and> v \<in> rl_lang s)"
  by auto

lemma pder_lang: "(\<exists>r' \<in> set (pder c r). w \<in> rl_lang r') \<longleftrightarrow> c # w \<in> rl_lang r"
proof (induction r arbitrary: w)
  case (RSeq r s)
  have "(\<exists>q \<in> set (pder c (RSeq r s)). w \<in> rl_lang q) \<longleftrightarrow>
      (\<exists>q \<in> (\<lambda>r'. rseq r' s) ` set (pder c r). w \<in> rl_lang q) \<or>
      (nullable r \<and> (\<exists>q \<in> set (pder c s). w \<in> rl_lang q))"
    by (auto simp del: lang_rseq)
  also have "\<dots> \<longleftrightarrow> c # w \<in> rl_lang (RSeq r s)"
    unfolding ex_rseq_lang lang_RSeq_Cons RSeq.IH nullable_lang ..
  finally show ?case .
next
  case (RStar r)
  have "(\<exists>q \<in> set (pder c (RStar r)). w \<in> rl_lang q) \<longleftrightarrow>
      (\<exists>q \<in> (\<lambda>r'. rseq r' (RStar r)) ` set (pder c r). w \<in> rl_lang q)"
    by simp
  also have "\<dots> \<longleftrightarrow> c # w \<in> rl_lang (RStar r)"
    unfolding ex_rseq_lang RStar.IH by (auto simp: star_lang_Cons)
  finally show ?case .
next
  case (RAlt r s)
  then show ?case by (simp add: bex_Un)
qed auto

lemma step_lang: "(\<exists>r \<in> set (rl_step c cs). w \<in> rl_lang r) \<longleftrightarrow> (\<exists>r \<in> set cs. c # w \<in> rl_lang r)"
  using pder_lang by (auto simp: rl_step_def)

lemma run_lang: "(\<exists>r \<in> set (rl_run cs s). w \<in> rl_lang r) \<longleftrightarrow> (\<exists>r \<in> set cs. s @ w \<in> rl_lang r)"
  by (induction s arbitrary: cs) (auto simp: step_lang)

lemma ragel_final_lang: "ragel_final m s \<longleftrightarrow> s \<in> rl_lang m"
  using run_lang [of "[m]" s "[]"] by (auto simp: ragel_final_def list_ex_iff nullable_lang)

text \<open>
  \<open>live m\<close>: no part of the machine has an empty language, so that every state the run can reach
  has a continuation (Ragel's automaton has no dead states).
\<close>

primrec live :: "rl \<Rightarrow> bool" where
  "live REps = True"
| "live (RCls rs) = list_ex (\<lambda>(lo, hi). lo \<le> hi \<and> lo < 256) rs"
| "live (RSeq r s) = (live r \<and> live s)"
| "live (RAlt r s) = (live r \<and> live s)"
| "live (RStar r) = live r"

lemma live_lang: "live r \<Longrightarrow> \<exists>w. w \<in> rl_lang r"
proof (induction r)
  case (RCls rs)
  then obtain lo hi where "(lo, hi) \<in> set rs" "lo \<le> hi" "lo < 256"
    by (auto simp: list_ex_iff)
  then have "in_cls rs (char_of lo)"
    by (auto simp: in_cls_def list_ex_iff intro!: bexI [of _ "(lo, hi)"])
  then show ?case by auto
qed (auto intro: star_lang.intros)

lemma live_rseq [simp]: "live (rseq r s) \<longleftrightarrow> live r \<and> live s"
  by (cases r) auto

lemma live_pder: "live r \<Longrightarrow> \<forall>r' \<in> set (pder c r). live r'"
proof (induction r)
  case (RSeq r s)
  from RSeq.prems have "live r" and "live s" by simp_all
  from RSeq.IH(1) [OF \<open>live r\<close>] RSeq.IH(2) [OF \<open>live s\<close>] \<open>live s\<close> show ?case
    by auto
next
  case (RAlt r s)
  from RAlt.prems have "live r" and "live s" by simp_all
  from RAlt.IH(1) [OF \<open>live r\<close>] RAlt.IH(2) [OF \<open>live s\<close>] show ?case by auto
next
  case (RStar r)
  from RStar.prems have "live r" by simp
  from RStar.IH [OF this] this show ?case by auto
qed simp_all

lemma live_run: "\<forall>r \<in> set cs. live r \<Longrightarrow> r' \<in> set (rl_run cs s) \<Longrightarrow> live r'"
proof (induction s arbitrary: cs)
  case (Cons c s)
  have "\<forall>r \<in> set (rl_step c cs). live r"
    using Cons.prems(1) live_pder by (auto simp: rl_step_def)
  with Cons show ?case by simp
qed simp

lemma ragel_exec_member_aux: "s @ t \<in> rl_lang m \<Longrightarrow> ragel_exec m s"
  using run_lang [of "[m]" s t] by (auto simp: ragel_exec_def)

lemma ragel_exec_viable:
  assumes "live m"
  shows "ragel_exec m s \<longleftrightarrow> (\<exists>t. s @ t \<in> rl_lang m)"
proof
  assume "ragel_exec m s"
  then obtain r where r: "r \<in> set (rl_run [m] s)"
    unfolding ragel_exec_def using hd_in_set by blast
  then obtain w where "w \<in> rl_lang r"
    using live_run [of "[m]" r s] live_lang [of r] assms by auto
  with r show "\<exists>t. s @ t \<in> rl_lang m" using run_lang [of "[m]" s w] by auto
next
  assume "\<exists>t. s @ t \<in> rl_lang m"
  then show "ragel_exec m s"
    using ragel_exec_member_aux by blast
qed

lemma ragel_exec_member: "s \<in> rl_lang m \<Longrightarrow> ragel_exec m s"
  using ragel_exec_member_aux [of s "[]"] by simp

section \<open>Single classes repeated\<close>

lemma star_cls: "w \<in> star_lang {[c] |c. P c} \<longleftrightarrow> list_all P w"
proof (induction w)
  case Nil
  then show ?case by (simp add: star_Nil)
next
  case (Cons c w)
  then show ?case by (auto simp: star_lang_Cons)
qed

end
