(* ===== verification/Ragel_Actions.thy ===== *)
theory Ragel_Actions
  imports Ragel_Machines "HOL-Library.Code_Target_Nat"
begin

text \<open>
  Ragel machines with embedded actions, for \<open>src/src/parsers/*.rl\<close>. \<open>r %a\<close> runs \<open>a\<close> on the
  transition that leaves \<open>r\<close>, \<open>r >a\<close> on the transition that enters it. Ragel builds one
  deterministic automaton, so all threads of a nondeterministic run that read the next character
  contribute their actions to the same transition: they are ordered by the place of the embedding
  in the specification, and of several copies of one action the first is kept. A run is modelled as
  the trace of executed actions, each with the position \<open>p\<close> of the character being read, and the
  state it ends in; the effect of an action on the variables of the host function is the business of
  the theory that uses the trace.
\<close>

section \<open>Machines\<close>

text \<open>\<open>APure\<close>: an expression without actions; \<open>ALeave a r\<close>: \<open>r %a\<close>; \<open>AEnter a r\<close>: \<open>r >a\<close>.\<close>

datatype 'a ra =
    APure rl
  | ASeq "'a ra" "'a ra"
  | AAlt "'a ra" "'a ra"
  | AStar "'a ra"
  | ALeave 'a "'a ra"
  | AEnter 'a "'a ra"

fun aseqs :: "'a ra list \<Rightarrow> 'a ra" where
  "aseqs [] = APure REps"
| "aseqs [r] = r"
| "aseqs (r # rs) = ASeq r (aseqs rs)"

abbreviation aopt :: "'a ra \<Rightarrow> 'a ra" where "aopt r \<equiv> AAlt r (APure REps)"

text \<open>The machine that is left when the actions are forgotten.\<close>

primrec erase :: "'a ra \<Rightarrow> rl" where
  "erase (APure r) = r"
| "erase (ASeq r s) = RSeq (erase r) (erase s)"
| "erase (AAlt r s) = RAlt (erase r) (erase s)"
| "erase (AStar r) = RStar (erase r)"
| "erase (ALeave a r) = erase r"
| "erase (AEnter a r) = erase r"

text \<open>
  The order of the embeddings: the specification is walked once, an entering action is embed_ordered
  before the expression it is attached to, a leaving action after it.
\<close>

primrec embed_order :: "'a ra \<Rightarrow> nat \<Rightarrow> (nat \<times> 'a) ra \<times> nat" where
  "embed_order (APure r) n = (APure r, n)"
| "embed_order (ASeq r s) n =
     (let (r', n1) = embed_order r n; (s', n2) = embed_order s n1 in (ASeq r' s', n2))"
| "embed_order (AAlt r s) n =
     (let (r', n1) = embed_order r n; (s', n2) = embed_order s n1 in (AAlt r' s', n2))"
| "embed_order (AStar r) n = (let (r', n1) = embed_order r n in (AStar r', n1))"
| "embed_order (ALeave a r) n = (let (r', n1) = embed_order r n in (ALeave (n1, a) r', Suc n1))"
| "embed_order (AEnter a r) n = (let (r', n1) = embed_order r (Suc n) in (AEnter (n, a) r', n1))"

section \<open>Transitions\<close>

abbreviation anull :: "'a ra \<Rightarrow> bool" where "anull r \<equiv> nullable (erase r)"

text \<open>The actions on the way out of an expression that has nothing more to read.\<close>

primrec leaves :: "'a ra \<Rightarrow> 'a list" where
  "leaves (APure r) = []"
| "leaves (ASeq r s) = leaves r @ leaves s"
| "leaves (AAlt r s) = (if anull r then leaves r else []) @ (if anull s then leaves s else [])"
| "leaves (AStar r) = []"
| "leaves (ALeave a r) = leaves r @ [a]"
| "leaves (AEnter a r) = leaves r"

text \<open>Concatenation of what is left of \<open>r\<close> with \<open>s\<close>, kept associated to the right.\<close>

fun aseq :: "'a ra \<Rightarrow> 'a ra \<Rightarrow> 'a ra" where
  "aseq (APure REps) s = s"
| "aseq (ASeq a b) s = ASeq a (aseq b s)"
| "aseq r s = ASeq r s"

primrec ader :: "char \<Rightarrow> 'a ra \<Rightarrow> ('a list \<times> 'a ra) list" where
  "ader c (APure r) = map (\<lambda>r'. ([], APure r')) (pder c r)"
| "ader c (ASeq r s) =
     map (\<lambda>(as, r'). (as, aseq r' s)) (ader c r) @
     (if anull r then map (\<lambda>(as, s'). (leaves r @ as, s')) (ader c s) else [])"
| "ader c (AAlt r s) = ader c r @ ader c s"
| "ader c (AStar r) = map (\<lambda>(as, r'). (as, aseq r' (AStar r))) (ader c r)"
| "ader c (ALeave a r) = map (\<lambda>(as, r'). (as, ALeave a r')) (ader c r)"
| "ader c (AEnter a r) = map (\<lambda>(as, r'). (a # as, r')) (ader c r)"

text \<open>One transition of the deterministic automaton on numbered actions.\<close>

definition merge_actions :: "(nat \<times> 'a) list \<Rightarrow> 'a list" where
  "merge_actions as = rev (remdups (rev (map snd (sort_key fst (remdups as)))))"

definition ra_step :: "char \<Rightarrow> (nat \<times> 'a) ra list \<Rightarrow> 'a list \<times> (nat \<times> 'a) ra list" where
  "ra_step c cs =
     (let ts = concat (map (ader c) cs)
      in (merge_actions (concat (map fst ts)), remdups (map snd ts)))"

fun ra_run ::
  "(nat \<times> 'a) ra list \<Rightarrow> nat \<Rightarrow> string \<Rightarrow> ('a \<times> nat) list \<times> (nat \<times> 'a) ra list" where
  "ra_run cs p [] = ([], cs)"
| "ra_run cs p (c # s) =
     (let (as, cs1) = ra_step c cs; (tr, cs2) = ra_run cs1 (Suc p) s
      in (map (\<lambda>a. (a, p)) as @ tr, cs2))"

text \<open>\<open>write init; write exec\<close> on a buffer: what was executed, and whether \<open>cs != ..._error\<close>.\<close>

definition ra_exec :: "'a ra \<Rightarrow> string \<Rightarrow> ('a \<times> nat) list \<times> bool" where
  "ra_exec m s = (let (tr, cs) = ra_run [fst (embed_order m 0)] 0 s in (tr, cs \<noteq> []))"

section \<open>Which inputs are accepted\<close>

lemma erase_order [simp]: "erase (fst (embed_order r n)) = erase r"
  by (induction r arbitrary: n) (simp_all add: Let_def split_beta)

lemma lang_RSeq_iff: "w \<in> rl_lang (RSeq r s) \<longleftrightarrow> (\<exists>u v. w = u @ v \<and> u \<in> rl_lang r \<and> v \<in> rl_lang s)"
  by simp

lemma lang_RSeq_assoc: "rl_lang (RSeq (RSeq r s) t) = rl_lang (RSeq r (RSeq s t))"
proof (rule set_eqI)
  fix w
  show "w \<in> rl_lang (RSeq (RSeq r s) t) \<longleftrightarrow> w \<in> rl_lang (RSeq r (RSeq s t))"
    unfolding lang_RSeq_iff by (metis append_assoc)
qed

lemma lang_aseq [simp]: "rl_lang (erase (aseq r s)) = rl_lang (erase (ASeq r s))"
proof (induction r s rule: aseq.induct)
  case (2 a b s)
  then show ?case using lang_RSeq_assoc [of "erase a" "erase b" "erase s"] by simp
qed auto

lemma live_aseq [simp]: "live (erase (aseq r s)) \<longleftrightarrow> live (erase r) \<and> live (erase s)"
  by (induction r s rule: aseq.induct) auto

lemma ex_aseq_lang:
  "(\<exists>q \<in> (\<lambda>t. aseq (snd t) s) ` R. w \<in> rl_lang (erase q)) \<longleftrightarrow>
    (\<exists>u v. w = u @ v \<and> (\<exists>t \<in> R. u \<in> rl_lang (erase (snd t))) \<and> v \<in> rl_lang (erase s))"
  by auto

lemma ader_lang: "(\<exists>t \<in> set (ader c r). w \<in> rl_lang (erase (snd t))) \<longleftrightarrow> c # w \<in> rl_lang (erase r)"
proof (induction r arbitrary: w)
  case (APure r)
  then show ?case using pder_lang [of c r w] by auto
next
  case (ASeq r s)
  have "(\<exists>t \<in> set (ader c (ASeq r s)). w \<in> rl_lang (erase (snd t))) \<longleftrightarrow>
      (\<exists>q \<in> (\<lambda>t. aseq (snd t) s) ` set (ader c r). w \<in> rl_lang (erase q)) \<or>
      (anull r \<and> (\<exists>t \<in> set (ader c s). w \<in> rl_lang (erase (snd t))))"
    by (auto simp: bex_Un split_beta simp del: lang_aseq)
  also have "\<dots> \<longleftrightarrow> c # w \<in> rl_lang (erase (ASeq r s))"
    unfolding ex_aseq_lang erase.simps lang_RSeq_Cons ASeq.IH nullable_lang ..
  finally show ?case .
next
  case (AStar r)
  have "(\<exists>t \<in> set (ader c (AStar r)). w \<in> rl_lang (erase (snd t))) \<longleftrightarrow>
      (\<exists>q \<in> (\<lambda>t. aseq (snd t) (AStar r)) ` set (ader c r). w \<in> rl_lang (erase q))"
    by (auto simp: split_beta simp del: lang_aseq)
  also have "\<dots> \<longleftrightarrow> c # w \<in> rl_lang (erase (AStar r))"
    unfolding ex_aseq_lang AStar.IH by (auto simp: star_lang_Cons)
  finally show ?case .
next
  case (AAlt r s)
  then show ?case by (simp add: bex_Un)
qed (simp_all add: split_beta)

lemma ra_step_threads: "set (snd (ra_step c cs)) = snd ` (\<Union>r \<in> set cs. set (ader c r))"
  by (simp add: ra_step_def Let_def)

lemma ra_step_lang:
  "(\<exists>r \<in> set (snd (ra_step c cs)). w \<in> rl_lang (erase r)) \<longleftrightarrow> (\<exists>r \<in> set cs. c # w \<in> rl_lang (erase r))"
  unfolding ra_step_threads using ader_lang by fastforce

lemma ra_run_Cons:
  "snd (ra_run cs p (c # s)) = snd (ra_run (snd (ra_step c cs)) (Suc p) s)"
  by (simp add: split_beta)

lemma ra_run_lang:
  "(\<exists>r \<in> set (snd (ra_run cs p s)). w \<in> rl_lang (erase r)) \<longleftrightarrow> (\<exists>r \<in> set cs. s @ w \<in> rl_lang (erase r))"
proof (induction s arbitrary: cs p)
  case Nil
  then show ?case by simp
next
  case (Cons c s)
  show ?case unfolding ra_run_Cons Cons.IH ra_step_lang by simp
qed

lemma live_ader_all: "live (erase r) \<Longrightarrow> \<forall>t \<in> set (ader c r). live (erase (snd t))"
proof (induction r)
  case (APure r)
  then show ?case using live_pder [of r c] by simp
next
  case (ASeq r s)
  then show ?case by (auto simp: split_beta)
qed (simp_all add: split_beta ball_Un)

lemmas live_ader = live_ader_all [rule_format]

lemma live_ra_run: "\<forall>r \<in> set cs. live (erase r) \<Longrightarrow> r' \<in> set (snd (ra_run cs p s)) \<Longrightarrow> live (erase r')"
proof (induction s arbitrary: cs p)
  case Nil
  then show ?case by simp
next
  case (Cons c s)
  have "\<forall>r \<in> set (snd (ra_step c cs)). live (erase r)"
    unfolding ra_step_threads using Cons.prems(1) live_ader by fastforce
  from Cons.IH [OF this] Cons.prems(2) show ?case unfolding ra_run_Cons by blast
qed

lemma ra_exec_viable_run:
  assumes "live (erase m)"
  shows "snd (ra_exec m s) \<longleftrightarrow> (\<exists>t. s @ t \<in> rl_lang (erase m))"
proof -
  let ?cs = "snd (ra_run [fst (embed_order m 0)] 0 s)"
  have "?cs \<noteq> [] \<longleftrightarrow> (\<exists>w. \<exists>r \<in> set ?cs. w \<in> rl_lang (erase r))"
  proof
    assume "?cs \<noteq> []"
    then obtain r where r: "r \<in> set ?cs" using hd_in_set by blast
    have "live (erase r)" by (rule live_ra_run [OF _ r]) (simp add: assms)
    with r live_lang show "\<exists>w. \<exists>r \<in> set ?cs. w \<in> rl_lang (erase r)" by blast
  qed force
  then show ?thesis
    unfolding ra_run_lang by (simp add: ra_exec_def split_beta)
qed

section \<open>Runs in pieces\<close>

lemma ra_run_append:
  "ra_run cs p (s @ t) =
     (let (tr1, cs1) = ra_run cs p s; (tr2, cs2) = ra_run cs1 (p + length s) t in (tr1 @ tr2, cs2))"
  by (induction s arbitrary: cs p) (simp_all add: split_beta Let_def)

lemma ra_run_shift:
  "ra_run cs p s = (map (\<lambda>(a, q). (a, p + q)) (fst (ra_run cs 0 s)), snd (ra_run cs 0 s))"
proof (induction s arbitrary: cs p)
  case Nil
  then show ?case by simp
next
  case (Cons c s)
  let ?cs = "snd (ra_step c cs)"
  have a: "ra_run ?cs (Suc p) s =
      (map (\<lambda>(a, q). (a, Suc p + q)) (fst (ra_run ?cs 0 s)), snd (ra_run ?cs 0 s))"
    by (rule Cons.IH)
  have b: "ra_run ?cs (Suc 0) s =
      (map (\<lambda>(a, q). (a, Suc 0 + q)) (fst (ra_run ?cs 0 s)), snd (ra_run ?cs 0 s))"
    by (rule Cons.IH)
  show ?case
    unfolding ra_run.simps Let_def split_beta a b by (simp add: split_beta comp_def)
qed

text \<open>A piece whose run from position 0 is known, in the middle of a buffer.\<close>

lemma ra_run_piece:
  assumes "ra_run cs 0 s = (tr, cs1)"
  shows "ra_run cs p (s @ t) =
    (map (\<lambda>(a, q). (a, p + q)) tr @ fst (ra_run cs1 (p + length s) t), snd (ra_run cs1 (p + length s) t))"
  using assms ra_run_shift [of cs p s] by (simp add: ra_run_append split_beta)

section \<open>Reading one symbol\<close>

text \<open>The bytes an expression can contain, and the bytes a machine can read first.\<close>

primrec alphabet :: "rl \<Rightarrow> (nat \<times> nat) list" where
  "alphabet REps = []"
| "alphabet (RCls rs) = rs"
| "alphabet (RSeq r s) = alphabet r @ alphabet s"
| "alphabet (RAlt r s) = alphabet r @ alphabet s"
| "alphabet (RStar r) = alphabet r"

primrec rfirst :: "rl \<Rightarrow> (nat \<times> nat) list" where
  "rfirst REps = []"
| "rfirst (RCls rs) = rs"
| "rfirst (RSeq r s) = rfirst r @ (if nullable r then rfirst s else [])"
| "rfirst (RAlt r s) = rfirst r @ rfirst s"
| "rfirst (RStar r) = rfirst r"

primrec afirst :: "'a ra \<Rightarrow> (nat \<times> nat) list" where
  "afirst (APure r) = rfirst r"
| "afirst (ASeq r s) = afirst r @ (if anull r then afirst s else [])"
| "afirst (AAlt r s) = afirst r @ afirst s"
| "afirst (AStar r) = afirst r"
| "afirst (ALeave a r) = afirst r"
| "afirst (AEnter a r) = afirst r"

definition disjoint_cls :: "(nat \<times> nat) list \<Rightarrow> (nat \<times> nat) list \<Rightarrow> bool" where
  "disjoint_cls xs ys \<longleftrightarrow>
     list_all (\<lambda>(lo, hi). list_all (\<lambda>(lo', hi'). hi < lo' \<or> hi' < lo) ys) xs"

lemma disjoint_cls: "disjoint_cls xs ys \<Longrightarrow> in_cls xs c \<Longrightarrow> \<not> in_cls ys c"
  by (fastforce simp: disjoint_cls_def in_cls_def list_all_iff list_ex_iff)

lemma in_cls_append [simp]: "in_cls (xs @ ys) c \<longleftrightarrow> in_cls xs c \<or> in_cls ys c"
  by (auto simp: in_cls_def)

lemma in_cls_Nil [simp]: "\<not> in_cls [] c"
  by (simp add: in_cls_def)

lemma pder_alphabet: "\<not> in_cls (alphabet r) c \<Longrightarrow> pder c r = []"
  by (induction r) auto

lemma pder_rfirst: "\<not> in_cls (rfirst r) c \<Longrightarrow> pder c r = []"
  by (induction r) (auto split: if_splits)

lemma ader_afirst: "\<not> in_cls (afirst r) c \<Longrightarrow> ader c r = []"
  by (induction r) (auto simp: pder_rfirst split: if_splits)

lemma lang_alphabet: "w \<in> rl_lang r \<Longrightarrow> c \<in> set w \<Longrightarrow> in_cls (alphabet r) c"
proof (induction r arbitrary: w)
  case (RStar r)
  from RStar.prems(1) have "w \<in> star_lang (rl_lang r)" by simp
  then show ?case using RStar.prems(2)
    by (induction rule: star_lang.induct) (auto dest: RStar.IH)
next
  case (RSeq r s)
  from RSeq.prems obtain u v where "w = u @ v" "u \<in> rl_lang r" "v \<in> rl_lang s" by auto
  with RSeq.prems(2) RSeq.IH show ?case by auto
qed auto

lemma alphabet_rseq: "in_cls (alphabet (rseq r s)) c \<longleftrightarrow> in_cls (alphabet (RSeq r s)) c"
  by (cases r) auto

lemma alphabet_pder: "r' \<in> set (pder d r) \<Longrightarrow> in_cls (alphabet r') c \<Longrightarrow> in_cls (alphabet r) c"
  by (induction r arbitrary: r') (auto simp: alphabet_rseq split: if_splits)

lemma alphabet_run:
  assumes "\<And>r. r \<in> set rs \<Longrightarrow> \<not> in_cls (alphabet r) c" and "r' \<in> set (rl_run rs w)"
  shows "\<not> in_cls (alphabet r') c"
  using assms
proof (induction w arbitrary: rs)
  case Nil
  then show ?case by simp
next
  case (Cons d w)
  from Cons.prems(2) have "r' \<in> set (rl_run (rl_step d rs) w)" by simp
  then show ?case
  proof (rule Cons.IH [rotated])
    fix r assume "r \<in> set (rl_step d rs)"
    then obtain q where "q \<in> set rs" "r \<in> set (pder d q)" by (auto simp: rl_step_def)
    with Cons.prems(1) alphabet_pder show "\<not> in_cls (alphabet r) c" by blast
  qed
qed

text \<open>
  The threads inside an expression \<open>r\<close> without actions that stands in a context \<open>C\<close>: they read on inside
  \<open>r\<close> without running anything, and at the end of \<open>r\<close> go on as \<open>out\<close> says.
\<close>

definition frame :: "(rl \<Rightarrow> 'a ra) \<Rightarrow> (char \<Rightarrow> ('a list \<times> 'a ra) list) \<Rightarrow> bool" where
  "frame C out \<longleftrightarrow> inj C \<and>
     (\<forall>c r. ader c (C r) = map (\<lambda>r'. ([], C r')) (pder c r) @ (if nullable r then out c else []))"

abbreviation (input) inside :: "'a \<Rightarrow> 'a ra \<Rightarrow> rl \<Rightarrow> 'a ra" where
  "inside en K r \<equiv> ASeq (ALeave en (APure r)) K"

abbreviation (input) inside2 :: "'a \<Rightarrow> 'a \<Rightarrow> 'a ra \<Rightarrow> rl \<Rightarrow> 'a ra" where
  "inside2 en ws K r \<equiv> ASeq (ALeave ws (ALeave en (APure r))) K"

lemma frame_inside: "frame (inside en K) (\<lambda>c. map (\<lambda>(as, s). (en # as, s)) (ader c K))"
  by (simp add: frame_def inj_def comp_def)

lemma frame_inside2: "frame (inside2 en ws K) (\<lambda>c. map (\<lambda>(as, s). (en # ws # as, s)) (ader c K))"
  by (simp add: frame_def inj_def comp_def)

lemma merge_actions_Nil [simp]: "merge_actions [] = []"
  by (simp add: merge_actions_def)

lemma remdups_append_subset: "set xs \<subseteq> set ys \<Longrightarrow> remdups (xs @ ys) = remdups ys"
  by (induction xs) auto

lemma remdups_copies:
  assumes "\<And>x. x \<in> set xs \<Longrightarrow> f x = ys \<or> f x = []" and "\<exists>x \<in> set xs. f x = ys"
  shows "remdups (concat (map f xs)) = remdups ys"
  using assms
proof (induction xs)
  case Nil
  then show ?case by simp
next
  case (Cons x xs)
  show ?case
  proof (cases "\<exists>x \<in> set xs. f x = ys")
    case True
    then have "remdups (concat (map f xs)) = remdups ys" using Cons by simp
    moreover from True have "set (f x) \<subseteq> set (concat (map f xs))"
      using Cons.prems(1) [of x] by fastforce
    ultimately show ?thesis by (simp add: remdups_append_subset)
  next
    case False
    then have "f z = []" if "z \<in> set xs" for z
      using Cons.prems(1) [of z] that by auto
    then have "concat (map f xs) = []" by simp
    moreover have "f x = ys" using Cons.prems(2) False by simp
    ultimately show ?thesis by (simp only: list.map concat.simps append_Nil2)
  qed
qed

lemma merge_actions_copies:
  assumes "\<And>x. x \<in> set xs \<Longrightarrow> f x = as" and "xs \<noteq> []"
    and "sorted (map fst as)" and "distinct (map snd as)"
  shows "merge_actions (concat (map f xs)) = map snd as"
proof -
  have "remdups (concat (map f xs)) = remdups as"
    by (rule remdups_copies) (use assms(1,2) in \<open>auto simp: neq_Nil_conv\<close>)
  moreover have "remdups as = as"
    using assms(4) by (simp add: distinct_map)
  moreover have "sort_key fst as = as"
    using assms(3) by (rule sort_key_id_if_sorted)
  moreover have "remdups (rev (map snd as)) = rev (map snd as)"
    using assms(4) by simp
  ultimately show ?thesis unfolding merge_actions_def by (simp only: rev_rev_ident)
qed

lemma concat_map_Nil [simp]: "concat (map (\<lambda>x. []) xs) = []"
  by simp

lemma remdups_map_inj: "inj f \<Longrightarrow> remdups (map f xs) = map f (remdups xs)"
  by (induction xs) (auto dest: injD)

lemma ra_step_inside:
  assumes frame: "frame C out" and out: "out c = []"
  shows "ra_step c (map C rs) = ([], map C (rl_step c rs))"
proof -
  have 1: "ader c (C r) = map (\<lambda>r'. ([], C r')) (pder c r)" for r
    using assms by (simp add: frame_def)
  have 2: "concat (map (ader c) (map C rs)) = map (\<lambda>r'. ([], C r')) (concat (map (pder c) rs))"
    by (simp only: map_map comp_def 1 map_concat)
  have "remdups (map C xs) = map C (remdups xs)" for xs
    by (rule remdups_map_inj) (use frame in \<open>simp add: frame_def\<close>)
  then show ?thesis
    unfolding ra_step_def 2 by (simp add: Let_def comp_def rl_step_def)
qed

lemma ra_run_inside:
  "frame C out \<Longrightarrow> (\<And>c. c \<in> set w \<Longrightarrow> out c = []) \<Longrightarrow> ra_run (map C rs) p w = ([], map C (rl_run rs w))"
  by (induction w arbitrary: rs p) (simp_all add: ra_step_inside)

lemma ra_step_leave:
  assumes frame: "frame C out"
    and "\<And>r. r \<in> set rs \<Longrightarrow> pder d r = []" and "\<exists>r \<in> set rs. nullable r"
    and as: "\<And>t. t \<in> set (out d) \<Longrightarrow> fst t = as" "out d \<noteq> []" "sorted (map fst as)" "distinct (map snd as)"
  shows "ra_step d (map C rs) = (map snd as, remdups (map snd (out d)))"
proof -
  let ?f = "\<lambda>r. if nullable r then out d else []"
  have "ader d (C r) = ?f r" if "r \<in> set rs" for r
    using assms(2) [OF that] frame by (simp add: frame_def)
  then have ts: "concat (map (ader d) (map C rs)) = concat (map ?f rs)"
    unfolding map_map comp_def by (intro arg_cong [where f = concat] map_cong) auto
  have "remdups (map snd (concat (map ?f rs))) = remdups (concat (map (\<lambda>r. map snd (?f r)) rs))"
    by (simp add: map_concat comp_def)
  also have "\<dots> = remdups (map snd (out d))"
    by (rule remdups_copies) (use assms(3) in auto)
  finally have threads: "remdups (map snd (concat (map ?f rs))) = remdups (map snd (out d))" .
  obtain r where "r \<in> set rs" "?f r \<noteq> []" using assms(3) as(2) by auto
  then have "concat (map ?f rs) \<noteq> []" unfolding concat_eq_Nil_conv set_map by blast
  then have "merge_actions (concat (map fst (concat (map ?f rs)))) = map snd as"
    by (intro merge_actions_copies [where f = fst]) (use as in \<open>auto split: if_splits\<close>)
  then show ?thesis
    unfolding ra_step_def Let_def ts threads by simp
qed

text \<open>
  A symbol \<open>w\<close> of \<open>r\<close> in a context, entered from the state \<open>S\<close> by one action \<open>st\<close> and ended by a byte \<open>d\<close>
  that \<open>r\<close> cannot contain: \<open>st\<close> runs on its first byte, the leaving actions on \<open>d\<close>, and nothing in
  between, if no byte of \<open>w\<close> behind the first can end it.
\<close>

lemma ra_run_framed:
  assumes frame: "frame C out" and w: "c # v \<in> rl_lang r"
    and enter: "ra_step c S = ([st], map C (rl_step c [r]))"
    and quiet: "\<And>x. x \<in> set v \<Longrightarrow> out x = []" and d: "\<not> in_cls (alphabet r) d"
    and as: "\<And>t. t \<in> set (out d) \<Longrightarrow> fst t = as" "out d \<noteq> []" "sorted (map fst as)" "distinct (map snd as)"
  shows "ra_run S p ((c # v) @ [d]) =
    ((st, p) # map (\<lambda>a. (snd a, p + length (c # v))) as, remdups (map snd (out d)))"
proof -
  let ?rs = "rl_step c [r]"
  let ?last = "rl_run ?rs v"
  have run: "rl_run [r] (c # v) = ?last" by simp
  have last: "ra_step d (map C ?last) = (map snd as, remdups (map snd (out d)))"
  proof (rule ra_step_leave [OF frame])
    fix r' assume "r' \<in> set ?last"
    then have "r' \<in> set (rl_run [r] (c # v))" by simp
    then have "\<not> in_cls (alphabet r') d"
      by (rule alphabet_run [rotated]) (use d in simp)
    then show "pder d r' = []" by (rule pder_alphabet)
  next
    have "\<exists>r' \<in> set (rl_run [r] (c # v)). [] \<in> rl_lang r'"
      using run_lang [of "[r]" "c # v" "[]"] w by simp
    then show "\<exists>r' \<in> set ?last. nullable r'"
      unfolding run nullable_lang .
  qed (fact as)+
  have "ra_run (map C ?rs) (Suc p) v = ([], map C ?last)"
    by (rule ra_run_inside [OF frame quiet])
  then have "ra_run (map C ?rs) (Suc p) (v @ [d]) =
      (map (\<lambda>a. (a, p + length (c # v))) (map snd as), remdups (map snd (out d)))"
    by (simp add: ra_run_append last)
  then show ?thesis
    by (simp add: enter comp_def)
qed

text \<open>The usual case: \<open>W %st r %en K\<close>, where nothing in \<open>r\<close> can end it.\<close>

definition symbol_ok :: "rl \<Rightarrow> rl \<Rightarrow> 'a ra \<Rightarrow> char \<Rightarrow> bool" where
  "symbol_ok W r K d \<longleftrightarrow>
     nullable W \<and> \<not> nullable r \<and> disjoint_cls (alphabet r) (alphabet W) \<and>
     disjoint_cls (alphabet r) (afirst K) \<and> \<not> in_cls (alphabet r) d \<and>
     ader d K \<noteq> [] \<and> list_all (\<lambda>t. fst t = []) (ader d K)"

lemma ra_run_symbol:
  assumes ok: "symbol_ok W r K d" and w: "w \<in> rl_lang r"
  shows "ra_run [ASeq (ALeave st (APure W)) (inside en K r)] p (w @ [d]) =
    ([(snd st, p), (snd en, p + length w)], remdups (map snd (ader d K)))"
proof -
  from ok w obtain c v where cv: "w = c # v"
    by (cases w) (auto simp: symbol_ok_def nullable_lang)
  have alpha: "in_cls (alphabet r) x" if "x \<in> set w" for x
    by (rule lang_alphabet [OF w that])
  have noK: "ader x K = []" if "x \<in> set w" for x
    using alpha [OF that] ok by (auto simp: symbol_ok_def intro: ader_afirst dest: disjoint_cls)
  have noW: "pder c W = []"
    using alpha [of c] ok cv by (auto simp: symbol_ok_def intro: pder_alphabet dest: disjoint_cls)
  have ne: "pder c r \<noteq> []"
    using pder_lang [of c r v] w cv by auto
  have "ader c (ASeq (ALeave st (APure W)) (inside en K r)) = map (\<lambda>r'. ([st], inside en K r')) (pder c r)"
    using ok noW noK [of c] cv by (simp add: symbol_ok_def comp_def)
  then have "ra_step c [ASeq (ALeave st (APure W)) (inside en K r)] =
      (merge_actions (concat (map (\<lambda>_. [st]) (pder c r))), remdups (map (inside en K) (pder c r)))"
    by (simp add: ra_step_def comp_def)
  also have "merge_actions (concat (map (\<lambda>_. [st]) (pder c r))) = [snd st]"
    using merge_actions_copies [of "pder c r" "\<lambda>_. [st]" "[st]"] ne by simp
  also have "remdups (map (inside en K) (pder c r)) = map (inside en K) (rl_step c [r])"
    by (subst remdups_map_inj) (simp_all add: inj_def rl_step_def)
  finally have enter: "ra_step c [ASeq (ALeave st (APure W)) (inside en K r)] =
      ([snd st], map (inside en K) (rl_step c [r]))" .
  have "\<forall>t \<in> set (ader d K). fst t = []" using ok by (simp add: symbol_ok_def list_all_iff)
  then have out: "fst t = [en]" if "t \<in> set (map (\<lambda>(as, s). (en # as, s)) (ader d K))" for t
    using that by auto
  have threads: "map (snd \<circ> (\<lambda>(as, s). (en # as, s))) (ader d K) = map snd (ader d K)" by auto
  from ra_run_framed [OF frame_inside _ enter _ _ out, of v d p] ok w cv noK show ?thesis
    by (simp add: symbol_ok_def threads del: ra_run.simps)
qed

section \<open>The actions of a run\<close>

text \<open>Only actions of the machine are executed.\<close>

primrec actions :: "'a ra \<Rightarrow> 'a list" where
  "actions (APure r) = []"
| "actions (ASeq r s) = actions r @ actions s"
| "actions (AAlt r s) = actions r @ actions s"
| "actions (AStar r) = actions r"
| "actions (ALeave a r) = actions r @ [a]"
| "actions (AEnter a r) = a # actions r"

lemma actions_order: "map snd (actions (fst (embed_order r n))) = actions r"
  by (induction r arbitrary: n) (simp_all add: split_beta Let_def)

lemma actions_aseq [simp]: "set (actions (aseq r s)) = set (actions r) \<union> set (actions s)"
  by (induction r s rule: aseq.induct) auto

lemma actions_leaves: "set (leaves r) \<subseteq> set (actions r)"
  by (induction r) auto

lemma actions_ader: "(as, r') \<in> set (ader c r) \<Longrightarrow> set as \<subseteq> set (actions r) \<and> set (actions r') \<subseteq> set (actions r)"
proof (induction r arbitrary: as r')
  case (ASeq r s)
  from ASeq.prems consider q where "(as, q) \<in> set (ader c r)" "r' = aseq q s"
    | bs where "(bs, r') \<in> set (ader c s)" "as = leaves r @ bs"
    by (auto split: if_splits)
  then show ?case using ASeq.IH actions_leaves [of r] by cases fastforce+
qed (fastforce split: if_splits)+

lemma merge_actions_set: "set (merge_actions as) = snd ` set as"
  by (simp add: merge_actions_def)

lemma ra_run_actions:
  "a \<in> set (fst (ra_run cs p s)) \<Longrightarrow> \<exists>r \<in> set cs. fst a \<in> snd ` set (actions r)"
proof (induction s arbitrary: cs p)
  case Nil
  then show ?case by simp
next
  case (Cons c s)
  then consider "fst a \<in> set (fst (ra_step c cs))" | "a \<in> set (fst (ra_run (snd (ra_step c cs)) (Suc p) s))"
    by (auto simp: split_beta)
  then show ?case
  proof cases
    case 1
    then obtain r as r' where "r \<in> set cs" "(as, r') \<in> set (ader c r)" "fst a \<in> snd ` set as"
      by (fastforce simp: ra_step_def Let_def merge_actions_set)
    with actions_ader show ?thesis by blast
  next
    case 2
    then obtain q where "q \<in> set (snd (ra_step c cs))" "fst a \<in> snd ` set (actions q)"
      using Cons.IH by blast
    moreover then obtain r as where "r \<in> set cs" "(as, q) \<in> set (ader c r)"
      by (fastforce simp: ra_step_threads)
    ultimately show ?thesis using actions_ader by blast
  qed
qed

lemma ra_exec_actions: "a \<in> set (fst (ra_exec m s)) \<Longrightarrow> fst a \<in> set (actions m)"
  using ra_run_actions [of a "[fst (embed_order m 0)]" 0 s] actions_order [of m 0]
  by (auto simp: ra_exec_def split_beta simp flip: set_map)

lemma ra_run_positions:
  "sorted (map snd (fst (ra_run cs p s))) \<and> (\<forall>a \<in> set (fst (ra_run cs p s)). p \<le> snd a \<and> snd a < p + length s)"
proof (induction s arbitrary: cs p)
  case Nil
  then show ?case by simp
next
  case (Cons c s)
  let ?rest = "fst (ra_run (snd (ra_step c cs)) (Suc p) s)"
  have tr: "fst (ra_run cs p (c # s)) = map (\<lambda>a. (a, p)) (fst (ra_step c cs)) @ ?rest"
    by (simp add: split_beta)
  have rest: "sorted (map snd ?rest)" "\<forall>a \<in> set ?rest. Suc p \<le> snd a \<and> snd a < Suc p + length s"
    using Cons.IH [of "snd (ra_step c cs)" "Suc p"] by simp_all
  have here: "map snd (map (\<lambda>a. (a, p)) as) = replicate (length as) p" for as :: "'a list"
    by (simp add: comp_def map_replicate_const)
  show ?case
    unfolding tr map_append here sorted_append using rest by fastforce
qed

end
