(* ===== verification/Request_Queue.thy ===== *)
theory Request_Queue
  imports LD_Prelude
begin

text \<open>
  The request queue of \<open>src/src/request_queue.c\<close>: an intrusive FIFO whose nodes carry one
  \<open>prev\<close> pointer, with a head, a tail, a size and a capacity. Queues and nodes live in a store, so
  that NULL and aliased queue pointers behave as in C. \<open>'q\<close> are the addresses of queues, \<open>'a\<close>
  those of nodes. The lemmas show that a queue in good shape represents a list, that every operation
  acts on that list as a FIFO should, and on every error branch leaves the store alone.
\<close>

section \<open>Data\<close>

datatype RequestQueueErrorCode =
    OPERATION_SUCCESS
  | OPERATION_ERROR_FULL
  | OPERATION_ERROR_INVALID_PARAMETER
  | OPERATION_ERROR_FAULT

record 'a request_queue =
  rq_head :: "'a option"
  rq_tail :: "'a option"
  rq_size :: int
  rq_capacity :: int

record ('q, 'a) qstore =
  queue_at :: "'q \<Rightarrow> 'a request_queue"
  prev :: "'a \<Rightarrow> 'a option"

section \<open>Operations\<close>

text \<open>
  \<open>request_queue_new\<close>: \<open>ok\<close> is whether \<open>talloc_zero\<close> finds memory, \<open>p\<close> the address it
  returns. The unsigned capacity is stored in a signed field.
\<close>

definition request_queue_new ::
  "bool \<Rightarrow> 'q \<Rightarrow> 32 word \<Rightarrow> ('q, 'a) qstore \<Rightarrow> 'q option \<times> ('q, 'a) qstore" where
  "request_queue_new ok p cap st =
     (if ok
      then (Some p, st\<lparr>queue_at := (queue_at st)(p :=
              \<lparr>rq_head = None, rq_tail = None, rq_size = 0, rq_capacity = sint cap\<rparr>)\<rparr>)
      else (None, st))"

definition request_queue_push ::
  "'q option \<Rightarrow> 'a option \<Rightarrow> ('q, 'a) qstore \<Rightarrow> RequestQueueErrorCode \<times> ('q, 'a) qstore" where
  "request_queue_push queue node st =
     (case (queue, node) of
        (Some p, Some x) \<Rightarrow>
          let q = queue_at st p in
          if rq_size q \<ge> rq_capacity q then (OPERATION_ERROR_FULL, st)
          else
            let pr = (prev st)(x := None) in
            if rq_size q = 0 then
              (OPERATION_SUCCESS,
               \<lparr>queue_at = (queue_at st)(p :=
                  q\<lparr>rq_head := Some x, rq_tail := Some x, rq_size := rq_size q + 1\<rparr>),
                prev = pr\<rparr>)
            else
              (case rq_tail q of
                 None \<Rightarrow> (OPERATION_ERROR_FAULT, st\<lparr>prev := pr\<rparr>)
               | Some t \<Rightarrow>
                   (OPERATION_SUCCESS,
                    \<lparr>queue_at = (queue_at st)(p := q\<lparr>rq_tail := Some x, rq_size := rq_size q + 1\<rparr>),
                     prev = pr(t := Some x)\<rparr>))
      | _ \<Rightarrow> (OPERATION_ERROR_INVALID_PARAMETER, st))"

definition request_queue_pop ::
  "'q option \<Rightarrow> ('q, 'a) qstore \<Rightarrow> 'a option \<times> ('q, 'a) qstore" where
  "request_queue_pop queue st =
     (case queue of
        None \<Rightarrow> (None, st)
      | Some p \<Rightarrow>
          let q = queue_at st p in
          if rq_size q \<le> 0 then (None, st)
          else (case rq_head q of
                  None \<Rightarrow> (None, st)
                | Some h \<Rightarrow>
                    (Some h, st\<lparr>queue_at := (queue_at st)(p :=
                       q\<lparr>rq_head := prev st h, rq_size := rq_size q - 1\<rparr>)\<rparr>)))"

definition request_queue_peek :: "'q option \<Rightarrow> ('q, 'a) qstore \<Rightarrow> 'a option" where
  "request_queue_peek queue st =
     (case queue of None \<Rightarrow> None | Some p \<Rightarrow> rq_head (queue_at st p))"

definition request_queue_empty :: "'q option \<Rightarrow> ('q, 'a) qstore \<Rightarrow> bool" where
  "request_queue_empty queue st =
     (case queue of None \<Rightarrow> True | Some p \<Rightarrow> rq_size (queue_at st p) \<le> 0)"

text \<open>
  \<open>request_queue_move\<close>: the updates of \<open>to\<close> come before those of \<open>from\<close>, which matters
  when both pointers name the same queue.
\<close>

definition request_queue_move ::
  "'q option \<Rightarrow> 'q option \<Rightarrow> ('q, 'a) qstore \<Rightarrow> RequestQueueErrorCode \<times> ('q, 'a) qstore" where
  "request_queue_move from to st =
     (case (from, to) of
        (Some f, Some t) \<Rightarrow>
          let qf = queue_at st f; qt = queue_at st t in
          (case (rq_head qf, rq_tail qf) of
             (Some fh, Some ft) \<Rightarrow>
               if rq_tail qt = None \<and> rq_size qt > 0 then (OPERATION_ERROR_FAULT, st)
               else if rq_size qt + rq_size qf > rq_capacity qt then (OPERATION_ERROR_FULL, st)
               else
                 let st1 =
                   (if rq_size qt > 0 then
                      \<lparr>queue_at = (queue_at st)(t :=
                         qt\<lparr>rq_tail := Some ft, rq_size := rq_size qt + rq_size qf\<rparr>),
                       prev = (prev st)(the (rq_tail qt) := Some fh)\<rparr>
                    else
                      st\<lparr>queue_at := (queue_at st)(t :=
                         qt\<lparr>rq_head := Some fh, rq_tail := Some ft, rq_size := rq_size qf\<rparr>)\<rparr>)
                 in (OPERATION_SUCCESS,
                     st1\<lparr>queue_at := (queue_at st1)(f :=
                       (queue_at st1 f)\<lparr>rq_head := None, rq_tail := None, rq_size := 0\<rparr>)\<rparr>)
           | _ \<Rightarrow> (OPERATION_ERROR_FAULT, st))
      | _ \<Rightarrow> (OPERATION_ERROR_INVALID_PARAMETER, st))"

section \<open>Representation\<close>

text \<open>
  \<open>rq_rep st p xs\<close>: the queue at \<open>p\<close> is well formed and holds the nodes \<open>xs\<close>, oldest first. The
  tail of an empty queue is left unconstrained: \<open>request_queue_pop\<close> does not reset it.
\<close>

definition rq_items :: "('q, 'a) qstore \<Rightarrow> 'q \<Rightarrow> 'a list" where
  "rq_items st p = (let q = queue_at st p in walk (nat (rq_size q)) (prev st) (rq_head q))"

definition rq_rep :: "('q, 'a) qstore \<Rightarrow> 'q \<Rightarrow> 'a list \<Rightarrow> bool" where
  "rq_rep st p xs \<longleftrightarrow>
     (let q = queue_at st p in
      chain (prev st) (rq_head q) xs \<and> distinct xs \<and> rq_size q = int (length xs) \<and>
      (xs \<noteq> [] \<longrightarrow> rq_tail q = Some (last xs)) \<and>
      rq_capacity q \<le> INT_MAX \<and> (rq_size q \<le> rq_capacity q \<or> xs = []))"

definition rq_inv :: "('q, 'a) qstore \<Rightarrow> 'q \<Rightarrow> bool" where
  "rq_inv st p \<longleftrightarrow> rq_rep st p (rq_items st p)"

definition rq_room :: "('q, 'a) qstore \<Rightarrow> 'q \<Rightarrow> nat" where
  "rq_room st p = nat (rq_capacity (queue_at st p) - rq_size (queue_at st p))"

lemma rq_rep_items: "rq_rep st p xs \<Longrightarrow> rq_items st p = xs"
  by (simp add: rq_rep_def rq_items_def Let_def walk_chain)

lemma rq_inv_iff: "rq_inv st p \<longleftrightarrow> (\<exists>xs. rq_rep st p xs)"
  by (auto simp: rq_inv_def rq_rep_items)

lemma rq_rep_inv: "rq_rep st p xs \<Longrightarrow> rq_inv st p"
  by (auto simp: rq_inv_iff)

section \<open>Every operation on the represented list\<close>

lemma request_queue_new_rep [queue_rep]:
  "request_queue_new True p cap st = (q, st') \<Longrightarrow> q = Some p \<and> rq_rep st' p []"
proof -
  have "sint cap \<le> INT_MAX"
    using sint_lt [of cap] by simp
  then show "request_queue_new True p cap st = (q, st') \<Longrightarrow> q = Some p \<and> rq_rep st' p []"
    by (auto simp: request_queue_new_def rq_rep_def Let_def)
qed

lemma request_queue_push_rep [queue_rep]:
  assumes rep: "rq_rep st p xs" and new: "x \<notin> set xs"
    and room: "int (length xs) < rq_capacity (queue_at st p)"
    and push: "request_queue_push (Some p) (Some x) st = (rc, st')"
  shows "rc = OPERATION_SUCCESS" and "rq_rep st' p (xs @ [x])"
proof -
  let ?pr = "(prev st)(x := None)"
  have ch: "chain ?pr (rq_head (queue_at st p)) xs"
    using rep new by (simp add: rq_rep_def Let_def)
  have ch': "xs \<noteq> [] \<Longrightarrow> chain (?pr(last xs := Some x)) (rq_head (queue_at st p)) (xs @ [x])"
    by (rule chain_link) (use rep new ch in \<open>auto simp: rq_rep_def Let_def\<close>)
  show "rc = OPERATION_SUCCESS" and "rq_rep st' p (xs @ [x])"
    using rep new room push ch'
    by (auto simp: request_queue_push_def rq_rep_def Let_def split: if_splits)
qed

lemma request_queue_push_full:
  "rq_rep st p xs \<Longrightarrow> rq_capacity (queue_at st p) \<le> int (length xs) \<Longrightarrow>
   request_queue_push (Some p) (Some x) st = (OPERATION_ERROR_FULL, st)"
  by (simp add: request_queue_push_def rq_rep_def Let_def)

lemma request_queue_push_frame [queue_rep]:
  "request_queue_push (Some p) node st = (rc, st') \<Longrightarrow> p' \<noteq> p \<Longrightarrow> queue_at st' p' = queue_at st p'"
  by (auto simp: request_queue_push_def Let_def split: option.splits if_splits)

lemma request_queue_push_capacity [queue_rep]:
  "request_queue_push q node st = (rc, st') \<Longrightarrow>
   rq_capacity (queue_at st' p) = rq_capacity (queue_at st p)"
  by (auto simp: request_queue_push_def Let_def split: option.splits if_splits)

lemma request_queue_pop_rep_Cons [queue_rep]:
  assumes "rq_rep st p (x # xs)" and "request_queue_pop (Some p) st = (r, st')"
  shows "r = Some x" and "rq_rep st' p xs" and "prev st' = prev st"
    and "rq_capacity (queue_at st' p) = rq_capacity (queue_at st p)"
  using assms
  by (auto simp: request_queue_pop_def rq_rep_def Let_def split: if_splits)

lemma request_queue_pop_rep_Nil [queue_rep]:
  "rq_rep st p [] \<Longrightarrow> request_queue_pop (Some p) st = (None, st)"
  by (auto simp: request_queue_pop_def rq_rep_def Let_def)

lemma request_queue_peek_rep [queue_rep]:
  "rq_rep st p xs \<Longrightarrow> request_queue_peek (Some p) st = (case xs of [] \<Rightarrow> None | x # _ \<Rightarrow> Some x)"
  by (auto simp: request_queue_peek_def rq_rep_def Let_def split: list.splits)

lemma request_queue_empty_rep [queue_rep]:
  "rq_rep st p xs \<Longrightarrow> request_queue_empty (Some p) st \<longleftrightarrow> xs = []"
  by (auto simp: request_queue_empty_def rq_rep_def Let_def)


text \<open>Moving a queue behind another one: the nodes are relinked, none is copied.\<close>

lemma request_queue_move_rep [queue_rep]:
  assumes f: "rq_rep st f xs" and t: "rq_rep st t ys" and "f \<noteq> t" and "xs \<noteq> []"
    and "set xs \<inter> set ys = {}"
    and room: "int (length ys + length xs) \<le> rq_capacity (queue_at st t)"
    and move: "request_queue_move (Some f) (Some t) st = (rc, st')"
  shows "rc = OPERATION_SUCCESS" and "rq_rep st' t (ys @ xs)" and "rq_rep st' f []"
proof -
  obtain x where x: "rq_head (queue_at st f) = Some x"
    using f \<open>xs \<noteq> []\<close> by (cases xs) (auto simp: rq_rep_def Let_def)
  have ch: "chain ((prev st)(last ys := Some x)) (rq_head (queue_at st t)) (ys @ xs)" if "ys \<noteq> []"
    by (rule chain_link) (use f t x that assms(5) in \<open>auto simp: rq_rep_def Let_def\<close>)
  have "rc = OPERATION_SUCCESS \<and> rq_rep st' t (ys @ xs) \<and> rq_rep st' f []"
  proof (cases "ys = []")
    case True
    then show ?thesis
      using assms x by (auto simp: request_queue_move_def rq_rep_def Let_def)
  next
    case False
    then have "rq_size (queue_at st t) > 0"
      using t by (simp add: rq_rep_def Let_def)
    with False show ?thesis
      using assms x ch [OF False] by (auto simp: request_queue_move_def rq_rep_def Let_def)
  qed
  then show "rc = OPERATION_SUCCESS" and "rq_rep st' t (ys @ xs)" and "rq_rep st' f []"
    by auto
qed

lemma request_queue_move_error:
  assumes "request_queue_move from to st = (rc, st')" and "rc \<noteq> OPERATION_SUCCESS"
  shows "st' = st"
  using assms by (auto simp: request_queue_move_def Let_def split: option.splits if_splits)

lemma request_queue_move_full:
  assumes f: "rq_rep st f xs" and t: "rq_rep st t ys" and "xs \<noteq> []"
    and "rq_capacity (queue_at st t) < int (length ys + length xs)"
  shows "request_queue_move (Some f) (Some t) st = (OPERATION_ERROR_FULL, st)"
proof -
  obtain x where "rq_head (queue_at st f) = Some x"
    using f \<open>xs \<noteq> []\<close> by (cases xs) (auto simp: rq_rep_def Let_def)
  then show ?thesis
    using assms by (auto simp: request_queue_move_def rq_rep_def Let_def)
qed

lemma request_queue_move_malformed:
  "rq_rep st f [] \<Longrightarrow> request_queue_move (Some f) (Some t) st = (OPERATION_ERROR_FAULT, st)"
  by (auto simp: request_queue_move_def rq_rep_def Let_def)

section \<open>The queue as a FIFO interface\<close>

text \<open>
  What a client of the queue relies on: an invariant, the waiting items as a list, and how putting
  and taking act on them. \<open>drain\<close> takes \<open>n\<close> times, as the event loop of the connection does.
\<close>

fun drain :: "('s \<Rightarrow> 'x option \<times> 's) \<Rightarrow> nat \<Rightarrow> 's \<Rightarrow> 'x option list \<times> 's" where
  "drain deq 0 s = ([], s)"
| "drain deq (Suc n) s = (let (r, s1) = deq s; (rs, s2) = drain deq n s1 in (r # rs, s2))"

locale fifo_queue =
  fixes ok :: "'s \<Rightarrow> bool"
    and waiting :: "'s \<Rightarrow> 'x list"
    and room :: "'s \<Rightarrow> nat"
    and enq :: "'x \<Rightarrow> 's \<Rightarrow> 's"
    and deq :: "'s \<Rightarrow> 'x option \<times> 's"
  assumes ok_enq: "\<lbrakk>ok s; x \<notin> set (waiting s); 0 < room s\<rbrakk> \<Longrightarrow> ok (enq x s)"
    and waiting_enq: "\<lbrakk>ok s; x \<notin> set (waiting s); 0 < room s\<rbrakk> \<Longrightarrow> waiting (enq x s) = waiting s @ [x]"
    and room_enq: "\<lbrakk>ok s; x \<notin> set (waiting s); 0 < room s\<rbrakk> \<Longrightarrow> Suc (room (enq x s)) = room s"
    and ok_deq: "\<lbrakk>ok s; deq s = (r, s')\<rbrakk> \<Longrightarrow> ok s'"
    and waiting_deq: "\<lbrakk>ok s; deq s = (r, s')\<rbrakk> \<Longrightarrow>
      (case waiting s of [] \<Rightarrow> r = None \<and> s' = s | x # xs \<Rightarrow> r = Some x \<and> waiting s' = xs)"
begin

lemma enq_all:
  assumes "ok s" and "distinct (waiting s @ xs)" and "length xs \<le> room s"
  shows "ok (fold enq xs s) \<and> waiting (fold enq xs s) = waiting s @ xs"
  using assms
proof (induction xs arbitrary: s)
  case Nil
  then show ?case by simp
next
  case (Cons x xs)
  have x: "x \<notin> set (waiting s)" and r: "0 < room s"
    using Cons.prems by auto
  have "ok (enq x s)" "waiting (enq x s) = waiting s @ [x]" "Suc (room (enq x s)) = room s"
    using ok_enq waiting_enq room_enq Cons.prems(1) x r by auto
  with Cons.IH [of "enq x s"] Cons.prems show ?case by simp
qed

lemma drain_all:
  assumes "ok s" and "waiting s = xs" and "drain deq (length xs) s = (rs, s')"
  shows "rs = map Some xs \<and> waiting s' = []"
  using assms
proof (induction xs arbitrary: s rs)
  case Nil
  then show ?case by simp
next
  case (Cons x xs)
  obtain r s1 where d: "deq s = (r, s1)" by fastforce
  have r: "r = Some x" and w: "waiting s1 = xs"
    using waiting_deq [OF Cons.prems(1) d] Cons.prems(2) by simp_all
  obtain rs1 s2 where d1: "drain deq (length xs) s1 = (rs1, s2)" by fastforce
  have "rs = r # rs1" and "s2 = s'"
    using Cons.prems(3) d d1 by simp_all
  moreover have "rs1 = map Some xs \<and> waiting s' = []"
    using Cons.IH [OF ok_deq [OF Cons.prems(1) d] w] d1 \<open>s2 = s'\<close> by simp
  ultimately show ?case using r by simp
qed

lemma drain_enq_all:
  assumes "ok s" and "waiting s = []" and "distinct xs" and "length xs \<le> room s"
  shows "fst (drain deq (length xs) (fold enq xs s)) = map Some xs"
proof -
  have all: "ok (fold enq xs s)" "waiting (fold enq xs s) = xs"
    using enq_all [of s xs] assms by auto
  obtain rs s' where "drain deq (length xs) (fold enq xs s) = (rs, s')" by fastforce
  then show ?thesis using drain_all [OF all, of rs s'] by simp
qed

end


lemma rq_room_pos: "rq_rep st p xs \<Longrightarrow> 0 < rq_room st p \<Longrightarrow> int (length xs) < rq_capacity (queue_at st p)"
  by (simp add: rq_rep_def rq_room_def Let_def)

lemma rq_room_push:
  assumes rep: "rq_rep st p xs" and new: "x \<notin> set xs" and room: "0 < rq_room st p"
  shows "Suc (rq_room (snd (request_queue_push (Some p) (Some x) st)) p) = rq_room st p"
proof -
  obtain rc st' where push: "request_queue_push (Some p) (Some x) st = (rc, st')" by fastforce
  have rep': "rq_rep st' p (xs @ [x])"
    by (rule request_queue_push_rep [OF rep new rq_room_pos [OF rep room] push])
  have "rq_size (queue_at st' p) = rq_size (queue_at st p) + 1"
    using rep rep' by (simp add: rq_rep_def Let_def)
  then show ?thesis
    using room request_queue_push_capacity [OF push] push by (simp add: rq_room_def)
qed

interpretation rq: fifo_queue
    "\<lambda>st :: ('q, 'a) qstore. rq_inv st p" "\<lambda>st. rq_items st p" "\<lambda>st. rq_room st p"
    "\<lambda>x st. snd (request_queue_push (Some p) (Some x) st)" "request_queue_pop (Some p)" for p :: 'q
proof
  fix x :: 'a and st :: "('q, 'a) qstore"
  assume ok: "rq_inv st p" and new: "x \<notin> set (rq_items st p)" and room: "0 < rq_room st p"
  obtain xs where rep: "rq_rep st p xs" and xs: "rq_items st p = xs"
    using ok by (auto simp: rq_inv_def)
  obtain rc st' where push: "request_queue_push (Some p) (Some x) st = (rc, st')" by fastforce
  have rep': "rq_rep st' p (xs @ [x])"
    by (rule request_queue_push_rep [OF rep _ rq_room_pos [OF rep room] push]) (use new xs in simp)
  show "rq_inv (snd (request_queue_push (Some p) (Some x) st)) p"
    using rep' push by (auto simp: rq_rep_inv)
  show "rq_items (snd (request_queue_push (Some p) (Some x) st)) p = rq_items st p @ [x]"
    using rep' push xs by (simp add: rq_rep_items)
  show "Suc (rq_room (snd (request_queue_push (Some p) (Some x) st)) p) = rq_room st p"
    by (rule rq_room_push [OF rep _ room]) (use new xs in simp)
next
  fix st st' :: "('q, 'a) qstore" and r
  assume ok: "rq_inv st p" and pop: "request_queue_pop (Some p) st = (r, st')"
  obtain xs where rep: "rq_rep st p xs" and xs: "rq_items st p = xs"
    using ok by (auto simp: rq_inv_def)
  show "rq_inv st' p"
  proof (cases xs)
    case Nil
    then show ?thesis using rep pop request_queue_pop_rep_Nil [of st p] by (auto simp: rq_rep_inv)
  next
    case (Cons x ys)
    then show ?thesis using rep request_queue_pop_rep_Cons(2) [OF _ pop] by (auto intro: rq_rep_inv)
  qed
  show "case rq_items st p of [] \<Rightarrow> r = None \<and> st' = st | x # ys \<Rightarrow> r = Some x \<and> rq_items st' p = ys"
    using rep pop xs request_queue_pop_rep_Nil [of st p] request_queue_pop_rep_Cons [OF _ pop]
    by (cases xs) (auto simp: rq_rep_items)
qed

section \<open>Refinement of a bounded list FIFO\<close>

text \<open>
  The abstract queue is a list with a capacity. \<open>rq_exec\<close> and \<open>fifo_exec\<close> run the same operations
  on the code's queue and on the list and collect what each operation returns.
\<close>

datatype 'a rq_op = Push 'a | Pop | Peek | IsEmpty

datatype 'a rq_out = Code RequestQueueErrorCode | Node "'a option" | Flag bool

fun rq_exec1 :: "'q \<Rightarrow> 'a rq_op \<Rightarrow> ('q, 'a) qstore \<Rightarrow> 'a rq_out \<times> ('q, 'a) qstore" where
  "rq_exec1 p (Push x) st = (let (rc, st') = request_queue_push (Some p) (Some x) st in (Code rc, st'))"
| "rq_exec1 p Pop st = (let (r, st') = request_queue_pop (Some p) st in (Node r, st'))"
| "rq_exec1 p Peek st = (Node (request_queue_peek (Some p) st), st)"
| "rq_exec1 p IsEmpty st = (Flag (request_queue_empty (Some p) st), st)"

fun rq_exec :: "'q \<Rightarrow> 'a rq_op list \<Rightarrow> ('q, 'a) qstore \<Rightarrow> 'a rq_out list \<times> ('q, 'a) qstore" where
  "rq_exec p [] st = ([], st)"
| "rq_exec p (op # ops) st =
     (let (out, st1) = rq_exec1 p op st; (outs, st2) = rq_exec p ops st1 in (out # outs, st2))"

fun fifo_exec1 :: "int \<Rightarrow> 'a rq_op \<Rightarrow> 'a list \<Rightarrow> 'a rq_out \<times> 'a list" where
  "fifo_exec1 cap (Push x) xs =
     (if cap \<le> int (length xs) then (Code OPERATION_ERROR_FULL, xs)
      else (Code OPERATION_SUCCESS, xs @ [x]))"
| "fifo_exec1 cap Pop xs = (case xs of [] \<Rightarrow> (Node None, []) | x # ys \<Rightarrow> (Node (Some x), ys))"
| "fifo_exec1 cap Peek xs = (Node (case xs of [] \<Rightarrow> None | x # _ \<Rightarrow> Some x), xs)"
| "fifo_exec1 cap IsEmpty xs = (Flag (xs = []), xs)"

fun fifo_exec :: "int \<Rightarrow> 'a rq_op list \<Rightarrow> 'a list \<Rightarrow> 'a rq_out list \<times> 'a list" where
  "fifo_exec cap [] xs = ([], xs)"
| "fifo_exec cap (op # ops) xs =
     (let (out, ys) = fifo_exec1 cap op xs; (outs, zs) = fifo_exec cap ops ys in (out # outs, zs))"

text \<open>No operation pushes a node that is still waiting: its \<open>prev\<close> field is in use.\<close>

fun fresh_pushes :: "int \<Rightarrow> 'a rq_op list \<Rightarrow> 'a list \<Rightarrow> bool" where
  "fresh_pushes cap [] xs \<longleftrightarrow> True"
| "fresh_pushes cap (op # ops) xs \<longleftrightarrow>
     (case op of Push x \<Rightarrow> x \<notin> set xs | _ \<Rightarrow> True) \<and> fresh_pushes cap ops (snd (fifo_exec1 cap op xs))"

lemma rq_exec1_refines:
  assumes rep: "rq_rep st p xs" and cap: "rq_capacity (queue_at st p) = cap"
    and fresh: "case op of Push x \<Rightarrow> x \<notin> set xs | _ \<Rightarrow> True"
    and run: "rq_exec1 p op st = (out, st')"
  shows "fst (fifo_exec1 cap op xs) = out \<and> rq_rep st' p (snd (fifo_exec1 cap op xs)) \<and>
         rq_capacity (queue_at st' p) = cap"
proof (cases op)
  case (Push x)
  obtain rc st1 where push: "request_queue_push (Some p) (Some x) st = (rc, st1)" by fastforce
  show ?thesis
    using Push push run rep cap fresh request_queue_push_full [OF rep, of x]
      request_queue_push_rep [OF rep _ _ push] request_queue_push_capacity [OF push, of p]
    by auto
next
  case Pop
  then show ?thesis
    using run rep cap request_queue_pop_rep_Nil [of st p]
    by (cases xs) (auto dest: request_queue_pop_rep_Cons split: prod.splits)
next
  case Peek
  then show ?thesis using run rep cap by (auto simp: request_queue_peek_rep)
next
  case IsEmpty
  then show ?thesis using run rep cap by (auto simp: request_queue_empty_rep)
qed

lemma rq_exec_refines:
  assumes "rq_rep st p xs" and "rq_capacity (queue_at st p) = cap" and "fresh_pushes cap ops xs"
  shows "fst (rq_exec p ops st) = fst (fifo_exec cap ops xs) \<and>
         rq_rep (snd (rq_exec p ops st)) p (snd (fifo_exec cap ops xs))"
  using assms
proof (induction ops arbitrary: st xs)
  case Nil
  then show ?case by simp
next
  case (Cons op ops)
  obtain out st1 where run: "rq_exec1 p op st = (out, st1)" by fastforce
  have step: "fst (fifo_exec1 cap op xs) = out" "rq_rep st1 p (snd (fifo_exec1 cap op xs))"
      "rq_capacity (queue_at st1 p) = cap"
    using rq_exec1_refines [OF Cons.prems(1,2) _ run] Cons.prems(3) by auto
  with Cons.IH [of st1 "snd (fifo_exec1 cap op xs)"] Cons.prems(3) run show ?case
    by (auto simp: Let_def split: prod.splits)
qed

section \<open>Properties\<close>

text \<open>
  C10: A new queue behaves as a FIFO bounded by its capacity: whatever operations a client runs on
  it, provided that it pushes no node that is still waiting, each one returns what the bounded list
  returns, and the queue goes on representing that list.
\<close>

theorem request_queue_refines_fifo:
  assumes "request_queue_new True p cap st0 = (q, st)" and "fresh_pushes (sint cap) ops []"
  shows "fst (rq_exec p ops st) = fst (fifo_exec (sint cap) ops []) \<and>
         rq_rep (snd (rq_exec p ops st)) p (snd (fifo_exec (sint cap) ops []))"
proof -
  have "rq_rep st p []" "rq_capacity (queue_at st p) = sint cap"
    using assms(1) request_queue_new_rep [OF assms(1)] by (auto simp: request_queue_new_def)
  from rq_exec_refines [OF this assms(2)] show ?thesis .
qed

definition qstore0 :: "(nat, nat) qstore" where
  "qstore0 = \<lparr>queue_at = (\<lambda>_. \<lparr>rq_head = None, rq_tail = None, rq_size = 0, rq_capacity = 0\<rparr>),
              prev = (\<lambda>_. None)\<rparr>"

lemma request_queue_refines_fifo_witness:
  "fst (rq_exec 0 [Push 7, Push 8, Push 9, Peek, Pop, Push 7, Pop, IsEmpty]
          (snd (request_queue_new True 0 2 qstore0))) =
   [Code OPERATION_SUCCESS, Code OPERATION_SUCCESS, Code OPERATION_ERROR_FULL, Node (Some 7),
    Node (Some 7), Code OPERATION_SUCCESS, Node (Some 8), Flag False]"
  using request_queue_refines_fifo [of 0 2 qstore0 "Some 0"
      "snd (request_queue_new True 0 2 qstore0)"
      "[Push 7, Push 8, Push 9, Peek, Pop, Push 7, Pop, IsEmpty]"]
  by (simp add: request_queue_new_def [of True])

text \<open>
  Moving a non-empty queue to a different one with enough room appends its nodes in order and
  empties it; with too little room nothing changes and the move reports a full queue.
\<close>

theorem request_queue_move_appends:
  assumes "rq_rep st f xs" and "rq_rep st t ys" and "f \<noteq> t" and "xs \<noteq> []"
    and "set xs \<inter> set ys = {}"
    and "request_queue_move (Some f) (Some t) st = (rc, st')"
  shows "if int (length ys + length xs) \<le> rq_capacity (queue_at st t)
         then rc = OPERATION_SUCCESS \<and> rq_rep st' t (ys @ xs) \<and> rq_rep st' f []
         else rc = OPERATION_ERROR_FULL \<and> st' = st"
  using request_queue_move_rep [OF assms(1-5) _ assms(6)] assms(6)
    request_queue_move_full [OF assms(1,2,4)] by auto

definition qstore_two :: "(nat, nat) qstore" where
  "qstore_two = \<lparr>queue_at = (\<lambda>p. if p = 0
       then \<lparr>rq_head = Some 3, rq_tail = Some 4, rq_size = 2, rq_capacity = 5\<rparr>
       else \<lparr>rq_head = Some 1, rq_tail = Some 1, rq_size = 1, rq_capacity = 5\<rparr>),
     prev = (\<lambda>_. None)(3 := Some 4)\<rparr>"

lemma request_queue_move_appends_witness:
  "rq_rep (snd (request_queue_move (Some 0) (Some 1) qstore_two)) 1 [1, 3, 4]"
proof -
  have "rq_rep qstore_two 0 [3, 4]" "rq_rep qstore_two 1 [1]"
    by (simp_all add: rq_rep_def qstore_two_def)
  moreover have "rq_capacity (queue_at qstore_two 1) = 5" by (simp add: qstore_two_def)
  ultimately show ?thesis
    using request_queue_move_appends [of qstore_two 0 "[3, 4]" 1 "[1]"
        "fst (request_queue_move (Some 0) (Some 1) qstore_two)"] by simp
qed

text \<open>
  Every error branch is inert. A NULL queue or node, a full queue, a malformed queue: push, pop
  and move then leave every queue as it was; only a push on a queue without tail has already
  cleared the link of the node it was given.
\<close>

theorem request_queue_errors_change_nothing:
  "(fst (request_queue_push q n st) \<noteq> OPERATION_SUCCESS \<longrightarrow>
      queue_at (snd (request_queue_push q n st)) = queue_at st \<and>
      (fst (request_queue_push q n st) \<noteq> OPERATION_ERROR_FAULT \<longrightarrow>
        snd (request_queue_push q n st) = st))
   \<and> (fst (request_queue_pop q st) = None \<longrightarrow> snd (request_queue_pop q st) = st)
   \<and> (fst (request_queue_move q q' st) \<noteq> OPERATION_SUCCESS \<longrightarrow>
      snd (request_queue_move q q' st) = st)"
  by (auto simp: request_queue_push_def request_queue_pop_def request_queue_move_def Let_def
      split: option.splits)

lemma request_queue_errors_change_nothing_witness:
  "snd (request_queue_move (None :: nat option) (Some 1) qstore_two) = qstore_two"
  using request_queue_errors_change_nothing [where q = "None :: nat option" and q' = "Some 1"
      and st = qstore_two and n = None]
  by (simp add: request_queue_move_def)

text \<open>
  Pushing any nodes that fit and then popping as many times, as the event loop does, hands them
  back in the order they were pushed.
\<close>

theorem request_queue_drains_in_order:
  assumes "request_queue_new True p cap st0 = (q, st)" and "distinct xs"
    and "int (length xs) \<le> sint cap"
  shows "fst (drain (request_queue_pop (Some p)) (length xs)
           (fold (\<lambda>x st. snd (request_queue_push (Some p) (Some x) st)) xs st)) = map Some xs"
proof (rule rq.drain_enq_all)
  have rep: "rq_rep st p []" "rq_capacity (queue_at st p) = sint cap"
    using assms(1) request_queue_new_rep [OF assms(1)] by (auto simp: request_queue_new_def)
  show "rq_inv st p" "rq_items st p = []"
    using rep by (auto simp: rq_rep_inv rq_rep_items)
  show "length xs \<le> rq_room st p"
    using rep assms(3) by (simp add: rq_room_def rq_rep_def Let_def)
qed (rule assms(2))

lemma request_queue_drains_in_order_witness:
  "fst (drain (request_queue_pop (Some 0)) 3
     (fold (\<lambda>x st. snd (request_queue_push (Some 0) (Some x) st)) [5, 6, 7]
       (snd (request_queue_new True 0 8192 qstore0)))) = [Some 5, Some 6, Some 7]"
  using request_queue_drains_in_order [of 0 8192 qstore0 "Some 0"
      "snd (request_queue_new True 0 8192 qstore0)" "[5, 6, 7]"]
  by (simp add: request_queue_new_def numeral_3_eq_3)

text \<open>
  The capacity is a signed field. A queue created with an unsigned capacity of \<open>2 ^ 31\<close> or more,
  or with capacity 0, refuses every node.
\<close>

theorem request_queue_capacity_is_signed:
  "fst (request_queue_push (Some p) (Some x) (snd (request_queue_new True p cap st))) =
     (if cap = 0 \<or> 2 ^ 31 \<le> uint cap then OPERATION_ERROR_FULL else OPERATION_SUCCESS)"
proof -
  have "sint cap \<le> 0 \<longleftrightarrow> cap = 0 \<or> 2 ^ 31 \<le> uint cap"
  proof -
    have "(u + 2 ^ 31) mod 2 ^ 32 = (if 2 ^ 31 \<le> u then u - 2 ^ 31 else u + 2 ^ 31)"
      if "0 \<le> u" "u < 2 ^ 32" for u :: int
      using that mod_add_self2 [of "u - 2 ^ 31" "2 ^ 32"]
        mod_pos_pos_trivial [of "u - 2 ^ 31" "2 ^ 32"] by (auto simp: add.commute intro: mod_pos_pos_trivial)
    from this [of "uint cap"]
    have "sint cap = (if 2 ^ 31 \<le> uint cap then uint cap - 2 ^ 32 else uint cap)"
      using uint_bounded [of cap]
      by (simp add: sint_uint signed_take_bit_eq_take_bit_shift take_bit_eq_mod)
    then show ?thesis
      using uint_bounded [of cap] by (auto simp: word_uint_eq_iff)
  qed
  then show ?thesis
    by (auto simp: request_queue_new_def request_queue_push_def Let_def)
qed

text \<open>
  Moving a queue onto itself does not fail: with room for twice its size it reports success and
  has lost every node.
\<close>

theorem request_queue_move_to_itself_loses_nodes:
  assumes "rq_rep st p xs" and "xs \<noteq> []" and "2 * int (length xs) \<le> rq_capacity (queue_at st p)"
  shows "fst (request_queue_move (Some p) (Some p) st) = OPERATION_SUCCESS \<and>
         rq_items (snd (request_queue_move (Some p) (Some p) st)) p = []"
proof -
  obtain x ys where "xs = x # ys" using assms(2) by (cases xs) auto
  then show ?thesis
    using assms by (auto simp: request_queue_move_def rq_rep_def rq_items_def Let_def)
qed

lemma request_queue_move_to_itself_loses_nodes_witness:
  "rq_items (snd (request_queue_move (Some 0) (Some 0) qstore_two)) 0 = []"
  by (rule request_queue_move_to_itself_loses_nodes [THEN conjunct2, of _ _ "[3, 4]"])
    (simp_all add: rq_rep_def qstore_two_def)

end
