(* ===== verification/Connection_State.thy ===== *)
theory Connection_State
  imports Request_Queue
begin

text \<open>
  The data of a connection (\<open>src/src/connection.h\<close>, \<open>connection_state_machine.h\<close>,
  \<open>entry_p.h\<close>, \<open>schema_p.h\<close>, \<open>domain.h\<close>) and the libraries the code calls. libldap, talloc,
  glib, verto and the application's callbacks are the fields of a record \<open>ext\<close> of functions on an
  abstract world \<open>'w\<close>; \<open>'h\<close> is the type of a \<open>GHashTable\<close>. The connection carries the world, so
  that the order of the calls is part of its state.
\<close>

section \<open>Enumerations\<close>

datatype LdapConnectionState =
    LDAP_CONNECTION_STATE_INIT
  | LDAP_CONNECTION_STATE_TLS_NEGOTIATION
  | LDAP_CONNECTION_STATE_TRANSPORT_READY
  | LDAP_CONNECTION_STATE_BIND_IN_PROGRESS
  | LDAP_CONNECTION_STATE_BOUND
  | LDAP_CONNECTION_STATE_DETECT_DIRECTORY
  | LDAP_CONNECTION_STATE_RUN
  | LDAP_CONNECTION_STATE_ERROR
  | LDAP_CONNECTION_STATE_REQUEST_SCHEMA
  | LDAP_CONNECTION_STATE_CHECK_SCHEMA

datatype LdapDirectoryType =
    LDAP_TYPE_UNINITIALIZED
  | LDAP_TYPE_UNKNOWN
  | LDAP_TYPE_ACTIVE_DIRECTORY
  | LDAP_TYPE_OPENLDAP
  | LDAP_TYPE_FREE_IPA

datatype BindType = BIND_TYPE_INTERACTIVE | BIND_TYPE_SIMPLE

text \<open>Function pointers are names: the \<open>on_read_operation\<close> of a request and the callback of a search.\<close>

datatype read_operation =
    ADD_ON_READ | SEARCH_ON_READ | MODIFY_ON_READ | DELETE_ON_READ | RENAME_ON_READ | WHOAMI_ON_READ
  | BIND_ON_READ | START_TLS_ON_READ | DIRECTORY_PARSE_RESULT

datatype search_callback =
    PRINT_SEARCH_CALLBACK
  | OPENLDAP_ATTRIBUTE_TYPES_CALLBACK | OPENLDAP_OBJECT_CLASSES_CALLBACK
  | AD_ATTRIBUTE_TYPES_CALLBACK | AD_OBJECT_CLASSES_CALLBACK | AD_SUBSCHEMA_SUBENTRY_CALLBACK
  | USER_SEARCH_CALLBACK nat

datatype user_data = NO_DATA | SCHEMA_DATA nat | APP_DATA nat

section \<open>Attributes, schema elements, entries\<close>

text \<open>
  C strings are lists of non-NUL characters; \<open>c_str\<close> is what a NUL-terminated reader sees of a
  byte sequence. A NULL-terminated array of strings is a list, a NULL array is \<open>None\<close>.
\<close>

definition c_str :: "string \<Rightarrow> string" where
  "c_str bytes = takeWhile (\<lambda>c. c \<noteq> CHR 0x00) bytes"

record ld_attribute =
  attr_name :: "string option"
  attr_values :: "string list option"

record ldap_attribute_type =
  at_oid :: "string option"
  at_names :: "string list option"
  at_syntax_oid :: "string option"
  at_single_value :: int
  at_no_user_mod :: int

record ldap_object_class =
  oc_oid :: "string option"
  oc_names :: "string list option"
  oc_sup_oids :: "string list option"
  oc_kind :: int
  oc_at_oids_must :: "string list option"
  oc_at_oids_may :: "string list option"

text \<open>The structures of \<open>ldap_schema.h\<close> as \<open>talloc_zero\<close> leaves them.\<close>

definition zero_attribute_type :: ldap_attribute_type where
  "zero_attribute_type =
     \<lparr>at_oid = None, at_names = None, at_syntax_oid = None, at_single_value = 0, at_no_user_mod = 0\<rparr>"

definition zero_object_class :: ldap_object_class where
  "zero_object_class =
     \<lparr>oc_oid = None, oc_names = None, oc_sup_oids = None, oc_kind = 0, oc_at_oids_must = None,
      oc_at_oids_may = None\<rparr>"

datatype gvalue = AttributeValue ld_attribute | TypeValue ldap_attribute_type | ClassValue ldap_object_class

record 'h ld_entry =
  entry_dn :: "string option"
  entry_attributes :: "'h option"

record 'h ldap_schema =
  object_classes_by_oid :: "'h option"
  object_classes_by_name :: "'h option"
  attribute_types_by_oid :: "'h option"
  attribute_types_by_name :: "'h option"

record ldap_mod =
  mod_op :: int
  mod_type :: string
  mod_values :: "string list"

text \<open>
  An \<open>LDAPMessage\<close> chain as the accessors of libldap report it: per message its id, its DN (NULL when
  it has none) and its attributes with their values, as bytes. The NULL message is the empty list.
\<close>

record ldap_message =
  message_id :: int
  message_dn :: "string option"
  message_attributes :: "(string \<times> string list) list"

section \<open>Configuration\<close>

record ldap_sasl_options =
  so_mechanism :: "string option"
  so_passwd :: "string option"
  sasl_nocanon :: bool
  sasl_flags :: int
  sasl_secprops :: string

record ldap_sasl_defaults =
  sd_flags :: int
  sd_mechanism :: "string option"
  realm :: "string option"
  authcid :: "string option"
  authzid :: "string option"
  sd_passwd :: "string option"

record ldap_sasl_params =
  sp_dn :: "string option"
  sp_passwd :: "string option"

record ldap_connection_config =
  server :: "string option"
  protocol_verion :: int
  chase_referrals :: bool
  use_start_tls :: bool
  cfg_use_sasl :: bool
  cfg_bind_type :: BindType
  sasl_options :: "ldap_sasl_options option"
  tls_ca_cert_file :: "string option"
  tls_ca_cert_path :: "string option"
  tls_cert_file :: "string option"
  tls_key_file :: "string option"
  search_timelimit :: int
  network_timeout :: int

section \<open>The connection\<close>

record ldap_request =
  req_msgid :: int
  on_read_operation :: "read_operation option"
  on_write_operation :: "read_operation option"

record ldap_search_request =
  search_msgid :: int
  on_search_operation :: "search_callback option"
  search_user_data :: user_data

text \<open>
  \<open>ldap_connection_ctx_t\<close>. State machines and schemas live in small stores, because the code keeps
  pointers to them: \<open>machines m = None\<close> is a freed machine. The request arrays are functions of the
  index; the node of \<open>read_requests[i]\<close> has address \<open>i\<close> in the queue store \<open>queues\<close>.
  \<open>schema_entry_path\<close> is the static variable of \<open>ad_schema.c\<close>.
\<close>

record ('w, 'h) conn =
  has_handle :: bool
  ldap :: "nat cptr"
  handlers_installed :: bool
  base :: "nat cptr"
  read_event :: "nat cptr"
  write_event :: "nat cptr"
  on_error_operation :: "nat option"
  bind_type :: BindType
  directory_type :: LdapDirectoryType
  conn_msgid :: int
  schema :: "nat option"
  schemas :: "nat \<Rightarrow> 'h ldap_schema option"
  schema_count :: nat
  rmech :: "string option"
  callqueue :: "nat option"
  queues :: "(nat, int) qstore"
  queue_count :: nat
  read_requests :: "int \<Rightarrow> ldap_request"
  write_requests :: "int \<Rightarrow> ldap_request"
  search_requests :: "int \<Rightarrow> ldap_search_request"
  n_read_requests :: int
  n_write_requests :: int
  n_search_requests :: int
  n_reconnect_attempts :: int
  state_machine :: "nat option"
  machines :: "nat \<Rightarrow> LdapConnectionState option"
  machine_count :: nat
  ldap_defaults :: "ldap_sasl_defaults cptr"
  ldap_params :: "ldap_sasl_params option"
  config :: "ldap_connection_config option"
  schema_entry_path :: "string option"
  world :: 'w

abbreviation MAX_REQUESTS :: int where "MAX_REQUESTS \<equiv> 8192"

end
