(* ===== verification/Externals.thy ===== *)
theory Externals
  imports Connection_State
begin

text \<open>
  The libraries the code calls, as a record of functions. Every call takes the world and returns the
  next one; a call that fills an output parameter returns its value too, and the code decides from the
  return code whether to read it. Nothing is assumed about them here, except for the documented
  behaviour of \<open>GHashTable\<close>, stated as the predicate \<open>glib_ok\<close>. The last section is an instance that
  computes, for concrete runs.
\<close>

section \<open>The interface\<close>

datatype ldap_option =
    LDAP_OPT_TIMELIMIT | LDAP_OPT_NETWORK_TIMEOUT | LDAP_OPT_PROTOCOL_VERSION | LDAP_OPT_REFERRALS
  | LDAP_OPT_CONNECT_ASYNC | LDAP_OPT_X_SASL_NOCANON | LDAP_OPT_X_SASL_SECPROPS
  | LDAP_OPT_X_SASL_REALM | LDAP_OPT_X_SASL_AUTHCID | LDAP_OPT_X_SASL_AUTHZID
  | LDAP_OPT_X_TLS_CACERTFILE | LDAP_OPT_X_TLS_CACERTDIR | LDAP_OPT_X_TLS_CERTFILE
  | LDAP_OPT_X_TLS_KEYFILE | LDAP_OPT_X_TLS_NEWCTX | LDAP_OPT_RESULT_CODE
  | LDAP_OPT_DIAGNOSTIC_MESSAGE | LDAP_OPT_DESC | LDAP_OPT_DEBUG_LEVEL
  | LDAP_OPT_SERVER_CONTROLS | LDAP_OPT_X_TLS | LDAP_OPT_X_TLS_REQUIRE_CERT | LDAP_OPT_X_TLS_PROTOCOL_MIN

datatype option_value = IntValue int | BoolValue bool | StringValue "string option" | TimeValue int int

datatype scope = LDAP_SCOPE_BASE | LDAP_SCOPE_ONELEVEL | LDAP_SCOPE_SUBTREE

record ('w, 'h) ext =
  talloc :: "'w \<Rightarrow> bool \<times> 'w"
  talloc_free :: "'w \<Rightarrow> bool \<times> 'w"
  ldap_initialize :: "string option \<Rightarrow> 'w \<Rightarrow> (int \<times> nat option) \<times> 'w"
  ldap_set_option :: "nat option \<Rightarrow> ldap_option \<Rightarrow> option_value \<Rightarrow> 'w \<Rightarrow> int \<times> 'w"
  ldap_get_int_option :: "nat \<Rightarrow> ldap_option \<Rightarrow> 'w \<Rightarrow> (int \<times> int) \<times> 'w"
  ldap_get_string_option :: "nat \<Rightarrow> ldap_option \<Rightarrow> 'w \<Rightarrow> (int \<times> string option) \<times> 'w"
  ldap_add_ext :: "nat \<Rightarrow> string option \<Rightarrow> ldap_mod list option \<Rightarrow> 'w \<Rightarrow> (int \<times> int) \<times> 'w"
  ldap_search_ext ::
    "nat \<Rightarrow> string option \<Rightarrow> scope \<Rightarrow> string option \<Rightarrow> string list option \<Rightarrow> bool \<Rightarrow> 'w \<Rightarrow> (int \<times> int) \<times> 'w"
  ldap_modify_ext :: "nat \<Rightarrow> string option \<Rightarrow> ldap_mod list option \<Rightarrow> 'w \<Rightarrow> (int \<times> int) \<times> 'w"
  ldap_delete_ext :: "nat \<Rightarrow> string option \<Rightarrow> 'w \<Rightarrow> (int \<times> int) \<times> 'w"
  ldap_rename ::
    "nat \<Rightarrow> string option \<Rightarrow> string option \<Rightarrow> string option \<Rightarrow> bool \<Rightarrow> 'w \<Rightarrow> (int \<times> int) \<times> 'w"
  ldap_whoami :: "nat \<Rightarrow> 'w \<Rightarrow> (int \<times> int) \<times> 'w"
  ldap_start_tls :: "nat \<Rightarrow> 'w \<Rightarrow> (int \<times> int) \<times> 'w"
  ldap_sasl_bind :: "nat \<Rightarrow> string option \<Rightarrow> string option \<Rightarrow> string option \<Rightarrow> 'w \<Rightarrow> (int \<times> int) \<times> 'w"
  ldap_sasl_interactive_bind ::
    "nat \<Rightarrow> string option \<Rightarrow> int \<Rightarrow> ldap_sasl_defaults \<Rightarrow> ldap_message list \<Rightarrow> string option \<Rightarrow> int \<Rightarrow> 'w \<Rightarrow>
       (int \<times> string option \<times> int) \<times> 'w"
  ldap_unbind :: "nat \<Rightarrow> 'w \<Rightarrow> 'w"
  ldap_tls_inplace :: "nat \<Rightarrow> 'w \<Rightarrow> bool \<times> 'w"
  ldap_install_tls :: "nat \<Rightarrow> 'w \<Rightarrow> int \<times> 'w"
  ldap_result :: "nat \<Rightarrow> int \<Rightarrow> 'w \<Rightarrow> (int \<times> ldap_message list) \<times> 'w"
  ldap_parse_result :: "nat \<Rightarrow> ldap_message list \<Rightarrow> 'w \<Rightarrow> int option \<times> 'w"
  ldap_parse_whoami :: "nat \<Rightarrow> ldap_message list \<Rightarrow> 'w \<Rightarrow> 'w"
  ldap_str2attributetype :: "string \<Rightarrow> ldap_attribute_type option \<times> int"
  ldap_str2objectclass :: "string \<Rightarrow> ldap_object_class option \<times> int"
  verto_default :: "'w \<Rightarrow> nat option \<times> 'w"
  verto_add_io :: "nat \<Rightarrow> bool \<Rightarrow> int \<Rightarrow> 'w \<Rightarrow> nat option \<times> 'w"
  verto_add_timeout :: "nat \<Rightarrow> int \<Rightarrow> 'w \<Rightarrow> nat option \<times> 'w"
  verto_del :: "nat \<Rightarrow> 'w \<Rightarrow> 'w"
  verto_free :: "nat \<Rightarrow> 'w \<Rightarrow> 'w"
  g_hash_table_new :: "'w \<Rightarrow> 'h option \<times> 'w"
  g_hash_table_insert :: "'h \<Rightarrow> string \<Rightarrow> gvalue \<Rightarrow> bool \<times> 'h"
  g_hash_table_lookup :: "'h \<Rightarrow> string \<Rightarrow> gvalue option"
  g_hash_table_size :: "'h \<Rightarrow> nat"
  g_hash_table_entries :: "'h \<Rightarrow> (string \<times> gvalue) list"
  app_error_callback :: "nat \<Rightarrow> int \<Rightarrow> ldap_message list \<Rightarrow> ('w, 'h) conn \<Rightarrow> ('w, 'h) conn option"
  app_search_callback ::
    "nat \<Rightarrow> 'h ld_entry list \<Rightarrow> user_data \<Rightarrow> ('w, 'h) conn \<Rightarrow> (OperationReturnCode \<times> ('w, 'h) conn) option"

section \<open>Calling through a connection\<close>

text \<open>A call of libldap on \<open>connection->ldap\<close>: undefined when the session is NULL or already unbound.\<close>

definition with_ldap :: "(nat \<Rightarrow> 'w \<Rightarrow> 'r \<times> 'w) \<Rightarrow> ('w, 'h) conn \<Rightarrow> ('r \<times> ('w, 'h) conn) option" where
  "with_ldap f c =
     do { ld \<leftarrow> deref (ldap c);
          let (r, w) = f ld (world c);
          Some (r, c\<lparr>world := w\<rparr>) }"

text \<open>\<open>ldap_unbind_ext\<close>, \<open>ldap_unbind_ext_s\<close>: the session is freed, the field keeps its address.\<close>

definition unbind :: "('w, 'h) ext \<Rightarrow> ('w, 'h) conn \<Rightarrow> ('w, 'h) conn option" where
  "unbind E c =
     do { ld \<leftarrow> deref (ldap c); Some (c\<lparr>world := ldap_unbind E ld (world c), ldap := Dangling\<rparr>) }"

text \<open>One allocation, \<open>n\<close> allocations up to the first that fails, and \<open>talloc_free\<close> of a live block.\<close>

definition alloc :: "('w, 'h) ext \<Rightarrow> ('w, 'h) conn \<Rightarrow> bool \<times> ('w, 'h) conn" where
  "alloc E c = (let (ok, w) = talloc E (world c) in (ok, c\<lparr>world := w\<rparr>))"

fun allocs :: "('w, 'h) ext \<Rightarrow> nat \<Rightarrow> ('w, 'h) conn \<Rightarrow> bool \<times> ('w, 'h) conn" where
  "allocs E 0 c = (True, c)"
| "allocs E (Suc n) c = (let (ok, c1) = alloc E c in if ok then allocs E n c1 else (False, c1))"

definition free_block :: "('w, 'h) ext \<Rightarrow> ('w, 'h) conn \<Rightarrow> bool \<times> ('w, 'h) conn" where
  "free_block E c = (let (ok, w) = talloc_free E (world c) in (ok, c\<lparr>world := w\<rparr>))"

text \<open>The two \<open>ldap_get_option\<close> calls every error branch makes for its message; results are logged.\<close>

definition get_diagnostics :: "('w, 'h) ext \<Rightarrow> ('w, 'h) conn \<Rightarrow> ('w, 'h) conn option" where
  "get_diagnostics E c =
     do { (_, c1) \<leftarrow> with_ldap (\<lambda>ld. ldap_get_int_option E ld LDAP_OPT_RESULT_CODE) c;
          (_, c2) \<leftarrow> with_ldap (\<lambda>ld. ldap_get_string_option E ld LDAP_OPT_DIAGNOSTIC_MESSAGE) c1;
          Some c2 }"

text \<open>\<open>if (connection->on_error_operation) connection->on_error_operation(rc, message, connection)\<close>\<close>

definition call_error_operation ::
  "('w, 'h) ext \<Rightarrow> int \<Rightarrow> ldap_message list \<Rightarrow> ('w, 'h) conn \<Rightarrow> ('w, 'h) conn option" where
  "call_error_operation E rc message c =
     (case on_error_operation c of None \<Rightarrow> Some c | Some f \<Rightarrow> app_error_callback E f rc message c)"

section \<open>Only the world changes\<close>

definition same_but_world :: "('w, 'h) conn \<Rightarrow> ('w, 'h) conn \<Rightarrow> bool" where
  "same_but_world c c' \<longleftrightarrow> (\<exists>w. c' = c\<lparr>world := w\<rparr>)"

lemma same_but_worldI [intro]: "c' = c\<lparr>world := w\<rparr> \<Longrightarrow> same_but_world c c'"
  by (auto simp: same_but_world_def)

lemma same_but_worldE [elim]:
  assumes "same_but_world c c'"
  obtains w where "c' = c\<lparr>world := w\<rparr>"
  using assms by (auto simp: same_but_world_def)

lemma same_but_world_refl [simp]: "same_but_world c c"
  by (rule same_but_worldI [where w = "world c"]) simp

lemma same_but_world_trans [trans]:
  "same_but_world a b \<Longrightarrow> same_but_world b c \<Longrightarrow> same_but_world a c"
  by (auto elim!: same_but_worldE)

lemma with_ldap_same [conn_frame]: "with_ldap f c = Some (r, c') \<Longrightarrow> same_but_world c c'"
  by (auto simp: with_ldap_def split: prod.splits elim!: bind_SomeE)

lemma alloc_same [conn_frame]: "alloc E c = (ok, c') \<Longrightarrow> same_but_world c c'"
  by (auto simp: alloc_def split: prod.splits)

lemma allocs_same [conn_frame]: "allocs E n c = (ok, c') \<Longrightarrow> same_but_world c c'"
proof (induction n arbitrary: c)
  case 0
  then show ?case by simp
next
  case (Suc n)
  then show ?case
    by (auto simp: Let_def split: prod.splits if_splits
        intro: same_but_world_trans [OF alloc_same] alloc_same)
qed

lemma free_block_same [conn_frame]: "free_block E c = (ok, c') \<Longrightarrow> same_but_world c c'"
  by (auto simp: free_block_def split: prod.splits)

lemma get_diagnostics_same [conn_frame]: "get_diagnostics E c = Some c' \<Longrightarrow> same_but_world c c'"
  by (auto simp: get_diagnostics_def elim!: bind_SomeE dest!: with_ldap_same intro: same_but_world_trans)

lemma get_diagnostics_Some: "ldap c = Valid ld \<Longrightarrow> \<exists>c'. get_diagnostics E c = Some c'"
  by (auto simp: get_diagnostics_def with_ldap_def split: prod.splits)

section \<open>Documented behaviour of \<open>GHashTable\<close>\<close>

text \<open>
  The glib reference: \<open>g_hash_table_insert\<close> replaces the value of a known key and returns whether the
  key was new; lookup, size and iteration see the current bindings, each key once, in any order.
\<close>

definition glib_ok :: "('w, 'h) ext \<Rightarrow> bool" where
  "glib_ok E \<longleftrightarrow>
     (\<forall>w h w'. g_hash_table_new E w = (Some h, w') \<longrightarrow> g_hash_table_entries E h = []) \<and>
     (\<forall>h. distinct (map fst (g_hash_table_entries E h)) \<and>
          g_hash_table_size E h = length (g_hash_table_entries E h)) \<and>
     (\<forall>h k. g_hash_table_lookup E h k = map_of (g_hash_table_entries E h) k) \<and>
     (\<forall>h k v. fst (g_hash_table_insert E h k v) = (g_hash_table_lookup E h k = None)) \<and>
     (\<forall>h k v. map_of (g_hash_table_entries E (snd (g_hash_table_insert E h k v))) =
              (map_of (g_hash_table_entries E h))(k \<mapsto> v))"

lemma glib_lookup_insert:
  "glib_ok E \<Longrightarrow> g_hash_table_lookup E (snd (g_hash_table_insert E h k v)) k' =
     (if k' = k then Some v else g_hash_table_lookup E h k')"
  by (simp add: glib_ok_def)

lemma glib_insert_new: "glib_ok E \<Longrightarrow> fst (g_hash_table_insert E h k v) \<longleftrightarrow> g_hash_table_lookup E h k = None"
  by (simp add: glib_ok_def)

lemma glib_lookup_new: "glib_ok E \<Longrightarrow> g_hash_table_new E w = (Some h, w') \<Longrightarrow> g_hash_table_lookup E h k = None"
  unfolding glib_ok_def by (metis map_of.simps(1))

lemma glib_entries: "glib_ok E \<Longrightarrow> distinct (map fst (g_hash_table_entries E h))"
  and glib_size: "glib_ok E \<Longrightarrow> g_hash_table_size E h = length (g_hash_table_entries E h)"
  and glib_map_of: "glib_ok E \<Longrightarrow> map_of (g_hash_table_entries E h) = g_hash_table_lookup E h"
  unfolding glib_ok_def by (blast, blast, (rule ext, metis))

lemma glib_lookup_iff:
  "glib_ok E \<Longrightarrow> g_hash_table_lookup E h k = Some v \<longleftrightarrow> (k, v) \<in> set (g_hash_table_entries E h)"
  using glib_entries [of E h] glib_map_of [of E h] map_of_eq_Some_iff [of "g_hash_table_entries E h"] by metis

lemma glib_size_pos: "glib_ok E \<Longrightarrow> g_hash_table_lookup E h k = Some v \<Longrightarrow> 0 < g_hash_table_size E h"
  by (cases "g_hash_table_entries E h") (auto simp: glib_ok_def)

lemma glib_size_0:
  assumes "glib_ok E"
  shows "g_hash_table_size E h = 0 \<longleftrightarrow> (\<forall>k. g_hash_table_lookup E h k = None)"
  using assms by (cases "g_hash_table_entries E h") (auto simp: glib_ok_def)

end
