(* ===== verification/Demo_World.thy ===== *)
theory Demo_World
  imports Externals "HOL-Library.DAList"
begin

text \<open>
  A concrete instance of the libraries, for witnesses: every allocation succeeds, every request is
  accepted and written to a log under consecutive message ids, the answers to \<open>ldap_result\<close> are
  scripted per id, a \<open>GHashTable\<close> is an association list. Programs that need a failing call override
  one field.
\<close>

datatype demo_call =
    DAdd "string option" "ldap_mod list option"
  | DSearch "string option" "string list option"
  | DModify "string option" "ldap_mod list option"
  | DDelete "string option"
  | DRename "string option" "string option" "string option"
  | DWhoami | DTls | DBind

record demo_world =
  next_id :: int
  replies :: "int \<Rightarrow> int \<times> ldap_message list"
  call_log :: "demo_call list"

definition demo_send :: "demo_call \<Rightarrow> demo_world \<Rightarrow> (int \<times> int) \<times> demo_world" where
  "demo_send x w = ((0, next_id w), w\<lparr>next_id := next_id w + 1, call_log := call_log w @ [x]\<rparr>)"

type_synonym demo_table = "(string, gvalue) alist"

definition demo_ext :: "(demo_world, demo_table) ext" where
  "demo_ext =
     \<lparr>talloc = (\<lambda>w. (True, w)),
      talloc_free = (\<lambda>w. (True, w)),
      ldap_initialize = (\<lambda>_ w. ((0, Some 1), w)),
      ldap_set_option = (\<lambda>_ _ _ w. (0, w)),
      ldap_get_int_option = (\<lambda>_ _ w. ((0, 0), w)),
      ldap_get_string_option = (\<lambda>_ _ w. ((0, None), w)),
      ldap_add_ext = (\<lambda>_ dn mods. demo_send (DAdd dn mods)),
      ldap_search_ext = (\<lambda>_ dn _ _ attrs _. demo_send (DSearch dn attrs)),
      ldap_modify_ext = (\<lambda>_ dn mods. demo_send (DModify dn mods)),
      ldap_delete_ext = (\<lambda>_ dn. demo_send (DDelete dn)),
      ldap_rename = (\<lambda>_ old new parent _. demo_send (DRename old new parent)),
      ldap_whoami = (\<lambda>_. demo_send DWhoami),
      ldap_start_tls = (\<lambda>_. demo_send DTls),
      ldap_sasl_bind = (\<lambda>_ _ _ _. demo_send DBind),
      ldap_sasl_interactive_bind = (\<lambda>_ _ _ _ _ _ _ w.
         let ((_, m), w') = demo_send DBind w in ((14, None, m), w')),
      ldap_unbind = (\<lambda>_ w. w),
      ldap_tls_inplace = (\<lambda>_ w. (False, w)),
      ldap_install_tls = (\<lambda>_ w. (0, w)),
      ldap_result = (\<lambda>_ m w. (replies w m, w)),
      ldap_parse_result = (\<lambda>_ _ w. (Some 0, w)),
      ldap_parse_whoami = (\<lambda>_ _ w. w),
      ldap_str2attributetype = (\<lambda>s. (Some (zero_attribute_type\<lparr>at_oid := Some s, at_names := Some [s]\<rparr>), 0)),
      ldap_str2objectclass = (\<lambda>s. (Some (zero_object_class\<lparr>oc_oid := Some s, oc_names := Some [s]\<rparr>), 0)),
      verto_default = (\<lambda>w. (Some 0, w)),
      verto_add_io = (\<lambda>_ _ _ w. (Some 0, w)),
      verto_add_timeout = (\<lambda>_ _ w. (Some 0, w)),
      verto_del = (\<lambda>_ w. w),
      verto_free = (\<lambda>_ w. w),
      g_hash_table_new = (\<lambda>w. (Some DAList.empty, w)),
      g_hash_table_insert = (\<lambda>h k v. (DAList.lookup h k = None, DAList.update k v h)),
      g_hash_table_lookup = DAList.lookup,
      g_hash_table_size = (\<lambda>h. length (DAList.impl_of h)),
      g_hash_table_entries = DAList.impl_of,
      app_error_callback = (\<lambda>_ _ _ c. Some c),
      app_search_callback = (\<lambda>_ _ _ c. Some (RETURN_CODE_SUCCESS, c))\<rparr>"

lemma demo_ext_sel [simp]:
  "talloc demo_ext w = (True, w)" "talloc_free demo_ext w = (True, w)"
  "ldap_get_int_option demo_ext ld opt w = ((0, 0), w)"
  "ldap_get_string_option demo_ext ld opt w = ((0, None), w)"
  "ldap_set_option demo_ext p opt ov w = (0, w)"
  "ldap_add_ext demo_ext ld dn mods = demo_send (DAdd dn mods)"
  "ldap_modify_ext demo_ext ld dn mods = demo_send (DModify dn mods)"
  "ldap_search_ext demo_ext ld dn sc flt attrs only = demo_send (DSearch dn attrs)"
  "ldap_delete_ext demo_ext ld dn = demo_send (DDelete dn)"
  "ldap_rename demo_ext ld old new parent del = demo_send (DRename old new parent)"
  "ldap_whoami demo_ext ld = demo_send DWhoami"
  "ldap_start_tls demo_ext ld = demo_send DTls"
  "ldap_sasl_bind demo_ext ld dn' mech pw = demo_send DBind"
  "ldap_sasl_interactive_bind demo_ext ld x1 x2 x3 msg x4 x5 w =
     ((14, None, next_id w), snd (demo_send DBind w))"
  "ldap_unbind demo_ext ld w = w" "ldap_initialize demo_ext srv w = ((0, Some 1), w)"
  "ldap_tls_inplace demo_ext ld w = (False, w)" "ldap_install_tls demo_ext ld w = (0, w)"
  "verto_default demo_ext w = (Some 0, w)" "verto_add_io demo_ext b rd fd w = (Some 0, w)"
  "verto_add_timeout demo_ext b ms w = (Some 0, w)" "verto_del demo_ext b w = w" "verto_free demo_ext b w = w"
  "ldap_result demo_ext ld m w = (replies w m, w)"
  "ldap_parse_result demo_ext ld msg w = (Some 0, w)"
  "ldap_str2attributetype demo_ext s = (Some (zero_attribute_type\<lparr>at_oid := Some s, at_names := Some [s]\<rparr>), 0)"
  "ldap_str2objectclass demo_ext s = (Some (zero_object_class\<lparr>oc_oid := Some s, oc_names := Some [s]\<rparr>), 0)"
  "g_hash_table_new demo_ext w = (Some DAList.empty, w)"
  "g_hash_table_insert demo_ext h k v = (DAList.lookup h k = None, DAList.update k v h)"
  "g_hash_table_lookup demo_ext = DAList.lookup"
  "g_hash_table_size demo_ext h = length (DAList.impl_of h)"
  "g_hash_table_entries demo_ext = DAList.impl_of"
  "app_error_callback demo_ext fn rc msg c = Some c"
  "app_search_callback demo_ext fn es ud c = Some (RETURN_CODE_SUCCESS, c)"
  by (simp_all add: demo_ext_def demo_send_def)

lemma demo_send_result [simp]: "fst (demo_send x w) = (0, next_id w)"
  by (simp add: demo_send_def)

lemma demo_glib_ok [simp]: "glib_ok demo_ext"
  unfolding glib_ok_def demo_ext_sel
  by (auto simp: DAList.lookup_def update.rep_eq update_conv' empty.rep_eq)

text \<open>A connection that \<open>connection_configure\<close> could have left: one session, one empty queue.\<close>

definition demo_conn :: "(demo_world, demo_table) conn" where
  "demo_conn =
     \<lparr>has_handle = True, ldap = Valid 1, handlers_installed = True, base = Valid 0,
      read_event = Valid 0, write_event = Valid 0, on_error_operation = None,
      bind_type = BIND_TYPE_SIMPLE, directory_type = LDAP_TYPE_UNINITIALIZED, conn_msgid = 0,
      schema = Some 0,
      schemas = [0 \<mapsto> \<lparr>object_classes_by_oid = Some DAList.empty,
                      object_classes_by_name = Some DAList.empty,
                      attribute_types_by_oid = Some DAList.empty,
                      attribute_types_by_name = Some DAList.empty\<rparr>],
      schema_count = 1, rmech = None, callqueue = Some 0,
      queues = \<lparr>queue_at = (\<lambda>_. \<lparr>rq_head = None, rq_tail = None, rq_size = 0, rq_capacity = MAX_REQUESTS\<rparr>),
                prev = (\<lambda>_. None)\<rparr>,
      queue_count = 1,
      read_requests = (\<lambda>_. \<lparr>req_msgid = -1, on_read_operation = None, on_write_operation = None\<rparr>),
      write_requests = (\<lambda>_. \<lparr>req_msgid = -1, on_read_operation = None, on_write_operation = None\<rparr>),
      search_requests = (\<lambda>_. \<lparr>search_msgid = -1, on_search_operation = None, search_user_data = NO_DATA\<rparr>),
      n_read_requests = 0, n_write_requests = 0, n_search_requests = 0, n_reconnect_attempts = 0,
      state_machine = Some 0, machines = [0 \<mapsto> LDAP_CONNECTION_STATE_RUN], machine_count = 1,
      ldap_defaults = Null, ldap_params = None, config = None, schema_entry_path = None,
      world = \<lparr>next_id = 1, replies = (\<lambda>_. (0, [])), call_log = []\<rparr>\<rparr>"

lemma demo_allocs [simp]: "alloc demo_ext c = (True, c)" "allocs demo_ext n c = (True, c)"
  "free_block demo_ext c = (True, c)"
proof -
  show a: "alloc demo_ext c = (True, c)" for c by (simp add: alloc_def)
  show "allocs demo_ext n c = (True, c)" by (induction n) (simp_all add: a)
  show "free_block demo_ext c = (True, c)" by (simp add: free_block_def)
qed

end
