(* ===== verification/Entry.thy ===== *)
theory Entry
  imports Demo_World
begin

text \<open>
  The LDAP operations of \<open>src/src/entry.c\<close>: each request function hands one operation to libldap and
  enqueues a read request; each \<open>*_on_read\<close> function turns the answer into a return code. The lemmas
  describe both sides exactly: what a request appends, what an answer yields, and what happens when
  the request table is full.
\<close>

section \<open>Enqueueing a read request\<close>

text \<open>
  The block that every request function ends with: take the slot \<open>read_requests[n_read_requests]\<close>,
  fill it, increment the counter, push the node and ignore the result of the push. There is no check
  of the index: outside the array the write is undefined.
\<close>

definition push_read_request ::
  "int \<Rightarrow> read_operation \<Rightarrow> ('w, 'h) conn \<Rightarrow> ('w, 'h) conn option" where
  "push_read_request msgid handler c =
     (let i = n_read_requests c in
      if 0 \<le> i \<and> i < MAX_REQUESTS then
        Some (c\<lparr>read_requests := (read_requests c)(i :=
                  (read_requests c i)\<lparr>req_msgid := msgid, on_read_operation := Some handler\<rparr>),
                n_read_requests := i + 1,
                queues := snd (request_queue_push (callqueue c) (Some i) (queues c))\<rparr>)
      else None)"

text \<open>A request: \<open>send\<close> is the call of libldap, which yields a return code and a message id.\<close>

definition submit ::
  "(nat \<Rightarrow> 'w \<Rightarrow> (int \<times> int) \<times> 'w) \<Rightarrow> read_operation \<Rightarrow> ('w, 'h) conn \<Rightarrow>
     (OperationReturnCode \<times> ('w, 'h) conn) option" where
  "submit send handler c =
     do { ((rc, msgid), c1) \<leftarrow> with_ldap send c;
          if rc \<noteq> LDAP_SUCCESS then Some (RETURN_CODE_FAILURE, c1)
          else do { c2 \<leftarrow> push_read_request msgid handler c1; Some (RETURN_CODE_SUCCESS, c2) } }"

section \<open>Requests\<close>

definition add ::
  "('w, 'h) ext \<Rightarrow> ('w, 'h) conn \<Rightarrow> string option \<Rightarrow> ldap_mod list option \<Rightarrow>
     (OperationReturnCode \<times> ('w, 'h) conn) option" where
  "add E c dn attrs = submit (\<lambda>ld. ldap_add_ext E ld dn attrs) ADD_ON_READ c"

definition modify ::
  "('w, 'h) ext \<Rightarrow> ('w, 'h) conn \<Rightarrow> string option \<Rightarrow> ldap_mod list option \<Rightarrow>
     (OperationReturnCode \<times> ('w, 'h) conn) option" where
  "modify E c dn attrs = submit (\<lambda>ld. ldap_modify_ext E ld dn attrs) MODIFY_ON_READ c"

definition ld_delete ::
  "('w, 'h) ext \<Rightarrow> ('w, 'h) conn \<Rightarrow> string option \<Rightarrow> (OperationReturnCode \<times> ('w, 'h) conn) option" where
  "ld_delete E c dn = submit (\<lambda>ld. ldap_delete_ext E ld dn) DELETE_ON_READ c"

definition ld_rename ::
  "('w, 'h) ext \<Rightarrow> ('w, 'h) conn \<Rightarrow> string option \<Rightarrow> string option \<Rightarrow> string option \<Rightarrow> bool \<Rightarrow>
     (OperationReturnCode \<times> ('w, 'h) conn) option" where
  "ld_rename E c olddn newdn new_parent delete_original =
     submit (\<lambda>ld. ldap_rename E ld olddn newdn new_parent delete_original) RENAME_ON_READ c"

definition whoami :: "('w, 'h) ext \<Rightarrow> ('w, 'h) conn \<Rightarrow> (OperationReturnCode \<times> ('w, 'h) conn) option" where
  "whoami E c = submit (\<lambda>ld. ldap_whoami E ld) WHOAMI_ON_READ c"

text \<open>
  \<open>search\<close> first enqueues the read request and only then looks whether a search slot is free, so a
  full search table makes it report a failure after the request was sent and enqueued.
\<close>

definition search ::
  "('w, 'h) ext \<Rightarrow> ('w, 'h) conn \<Rightarrow> string option \<Rightarrow> scope \<Rightarrow> string option \<Rightarrow> string list option \<Rightarrow>
     bool \<Rightarrow> search_callback option \<Rightarrow> user_data \<Rightarrow> (OperationReturnCode \<times> ('w, 'h) conn) option" where
  "search E c base_dn sc flt attrs attrsonly callback ud =
     do { ((rc, msgid), c1) \<leftarrow> with_ldap (\<lambda>ld. ldap_search_ext E ld base_dn sc flt attrs attrsonly) c;
          if rc \<noteq> LDAP_SUCCESS then Some (RETURN_CODE_FAILURE, c1)
          else do {
            c2 \<leftarrow> push_read_request msgid SEARCH_ON_READ c1;
            let i = n_search_requests c2;
            if i + 1 \<ge> MAX_REQUESTS then Some (RETURN_CODE_FAILURE, c2)
            else if i < 0 then None
            else Some (RETURN_CODE_SUCCESS,
              c2\<lparr>search_requests := (search_requests c2)(i :=
                   \<lparr>search_msgid = msgid,
                    on_search_operation =
                      Some (case callback of Some f \<Rightarrow> f | None \<Rightarrow> PRINT_SEARCH_CALLBACK),
                    search_user_data = ud\<rparr>),
                 n_search_requests := i + 1\<rparr>) } }"

section \<open>Answers\<close>

text \<open>The shared tail: fetch the diagnostics, tell the application, fail.\<close>

definition answer_failed ::
  "('w, 'h) ext \<Rightarrow> int \<Rightarrow> ldap_message list \<Rightarrow> ('w, 'h) conn \<Rightarrow> (OperationReturnCode \<times> ('w, 'h) conn) option" where
  "answer_failed E rc message c =
     do { c1 \<leftarrow> get_diagnostics E c;
          c2 \<leftarrow> call_error_operation E rc message c1;
          Some (RETURN_CODE_FAILURE, c2) }"

text \<open>
  \<open>add_on_read\<close>, \<open>modify_on_read\<close>, \<open>delete_on_read\<close>, \<open>rename_on_read\<close> differ in the tag of the answer
  they expect and in the result codes they take for a success. The result of \<open>ldap_parse_result\<close> is
  ignored: when it fails, \<open>error_code\<close> keeps its initial value \<open>LDAP_SUCCESS\<close>.
\<close>

definition update_on_read ::
  "int \<Rightarrow> int list \<Rightarrow> ('w, 'h) ext \<Rightarrow> int \<Rightarrow> ldap_message list \<Rightarrow> ('w, 'h) conn \<Rightarrow>
     (OperationReturnCode \<times> ('w, 'h) conn) option" where
  "update_on_read tag good E rc message c =
     (if rc = tag then
        do { (code, c1) \<leftarrow> with_ldap (\<lambda>ld. ldap_parse_result E ld message) c;
             let error_code = (case code of Some e \<Rightarrow> e | None \<Rightarrow> LDAP_SUCCESS);
             if error_code \<in> set good then Some (RETURN_CODE_SUCCESS, c1)
             else do { c2 \<leftarrow> call_error_operation E rc message c1; Some (RETURN_CODE_FAILURE, c2) } }
      else answer_failed E rc message c)"

definition add_on_read ::
  "('w, 'h) ext \<Rightarrow> int \<Rightarrow> ldap_message list \<Rightarrow> ('w, 'h) conn \<Rightarrow> (OperationReturnCode \<times> ('w, 'h) conn) option" where
  "add_on_read = update_on_read LDAP_RES_ADD [LDAP_SUCCESS, LDAP_ALREADY_EXISTS]"

definition modify_on_read ::
  "('w, 'h) ext \<Rightarrow> int \<Rightarrow> ldap_message list \<Rightarrow> ('w, 'h) conn \<Rightarrow> (OperationReturnCode \<times> ('w, 'h) conn) option" where
  "modify_on_read = update_on_read LDAP_RES_MODIFY [LDAP_SUCCESS]"

definition delete_on_read ::
  "('w, 'h) ext \<Rightarrow> int \<Rightarrow> ldap_message list \<Rightarrow> ('w, 'h) conn \<Rightarrow> (OperationReturnCode \<times> ('w, 'h) conn) option" where
  "delete_on_read = update_on_read LDAP_RES_DELETE [LDAP_SUCCESS]"

definition rename_on_read ::
  "('w, 'h) ext \<Rightarrow> int \<Rightarrow> ldap_message list \<Rightarrow> ('w, 'h) conn \<Rightarrow> (OperationReturnCode \<times> ('w, 'h) conn) option" where
  "rename_on_read = update_on_read LDAP_RES_RENAME [LDAP_SUCCESS]"

definition whoami_on_read ::
  "('w, 'h) ext \<Rightarrow> int \<Rightarrow> ldap_message list \<Rightarrow> ('w, 'h) conn \<Rightarrow> (OperationReturnCode \<times> ('w, 'h) conn) option" where
  "whoami_on_read E rc message c =
     (if rc = LDAP_RES_EXTENDED then
        do { (_, c1) \<leftarrow> with_ldap (\<lambda>ld w. ((), ldap_parse_whoami E ld message w)) c;
             Some (RETURN_CODE_SUCCESS, c1) }
      else do { c1 \<leftarrow> get_diagnostics E c; Some (RETURN_CODE_SUCCESS, c1) })"

section \<open>Entries\<close>

text \<open>
  \<open>ld_entry_new\<close>: \<open>ctx\<close> is whether a talloc context was given. The result \<open>None\<close> is NULL.
\<close>

definition ld_entry_new ::
  "('w, 'h) ext \<Rightarrow> bool \<Rightarrow> string option \<Rightarrow> ('w, 'h) conn \<Rightarrow> 'h ld_entry option \<times> ('w, 'h) conn" where
  "ld_entry_new E ctx dn c =
     (case dn of
        None \<Rightarrow> (None, c)
      | Some d \<Rightarrow>
          if \<not> ctx then (None, c)
          else let (ok, c1) = alloc E c in
               if \<not> ok then (None, c1)
               else let (ok, c2) = alloc E c1 in
                    if \<not> ok then (None, snd (free_block E c2))
                    else let (h, w) = g_hash_table_new E (world c2);
                             c3 = c2\<lparr>world := w\<rparr>
                         in (case h of
                               None \<Rightarrow> (None, snd (free_block E c3))
                             | Some t \<Rightarrow> (Some \<lparr>entry_dn = Some d, entry_attributes = Some t\<rparr>, c3)))"

definition ld_entry_add_attribute ::
  "('w, 'h) ext \<Rightarrow> 'h ld_entry option \<Rightarrow> ld_attribute option \<Rightarrow> OperationReturnCode \<times> 'h ld_entry option" where
  "ld_entry_add_attribute E entry attr =
     (case entry of
        None \<Rightarrow> (RETURN_CODE_FAILURE, entry)
      | Some e \<Rightarrow>
          (case (entry_attributes e, attr) of
             (Some t, Some a) \<Rightarrow>
               (case attr_name a of
                  None \<Rightarrow> (RETURN_CODE_FAILURE, entry)
                | Some name \<Rightarrow>
                    let (fresh, t') = g_hash_table_insert E t name (AttributeValue a)
                    in (if fresh then RETURN_CODE_SUCCESS else RETURN_CODE_FAILURE,
                        Some (e\<lparr>entry_attributes := Some t'\<rparr>)))
           | _ \<Rightarrow> (RETURN_CODE_FAILURE, entry)))"

definition ld_entry_get_attribute ::
  "('w, 'h) ext \<Rightarrow> 'h ld_entry option \<Rightarrow> string \<Rightarrow> ld_attribute option" where
  "ld_entry_get_attribute E entry name_or_oid =
     (case entry of
        None \<Rightarrow> None
      | Some e \<Rightarrow>
          (case entry_attributes e of
             None \<Rightarrow> None
           | Some t \<Rightarrow> (case g_hash_table_lookup E t name_or_oid of
                          Some (AttributeValue a) \<Rightarrow> Some a | _ \<Rightarrow> None)))"

definition ld_entry_get_dn ::
  "('w, 'h) ext \<Rightarrow> 'h ld_entry option \<Rightarrow> ('w, 'h) conn \<Rightarrow> string option \<times> ('w, 'h) conn" where
  "ld_entry_get_dn E entry c =
     (case entry of
        None \<Rightarrow> (None, c)
      | Some e \<Rightarrow>
          (case entry_dn e of
             None \<Rightarrow> (None, c)
           | Some d \<Rightarrow> let (ok, c1) = alloc E c in (if ok then Some d else None, c1)))"

text \<open>
  \<open>fill_attribute\<close> copies one binding into a zeroed attribute. When a copy cannot be allocated it
  leaves \<open>values\<close> NULL and reports nothing. A table of an entry holds attributes only.
\<close>

definition copy_values :: "('w, 'h) ext \<Rightarrow> nat \<Rightarrow> ('w, 'h) conn \<Rightarrow> bool \<times> ('w, 'h) conn" where
  "copy_values E n c =
     (let (ok, c1) = alloc E c in
      if \<not> ok then (False, c1)
      else let (ok, c2) = allocs E n c1 in (ok, if ok then c2 else snd (free_block E c2)))"

definition fill_attribute ::
  "('w, 'h) ext \<Rightarrow> string \<Rightarrow> gvalue \<Rightarrow> ('w, 'h) conn \<Rightarrow> (ld_attribute \<times> ('w, 'h) conn) option" where
  "fill_attribute E key v c =
     (case v of
        AttributeValue a \<Rightarrow>
          (case attr_values a of
             None \<Rightarrow> Some (\<lparr>attr_name = Some key, attr_values = None\<rparr>, c)
           | Some vs \<Rightarrow>
               let (ok, c1) = copy_values E (length vs) c
               in Some (\<lparr>attr_name = Some key, attr_values = (if ok then Some vs else None)\<rparr>, c1))
      | _ \<Rightarrow> None)"

fun fill_all ::
  "('w, 'h) ext \<Rightarrow> (string \<times> gvalue) list \<Rightarrow> ('w, 'h) conn \<Rightarrow> (ld_attribute list option \<times> ('w, 'h) conn) option" where
  "fill_all E [] c = Some (Some [], c)"
| "fill_all E ((key, v) # rest) c =
     (let (ok, c1) = alloc E c in
      if \<not> ok then Some (None, c1)
      else do { (a, c2) \<leftarrow> fill_attribute E key v c1;
                (as, c3) \<leftarrow> fill_all E rest c2;
                Some (map_option ((#) a) as, c3) })"

definition ld_entry_get_attributes ::
  "('w, 'h) ext \<Rightarrow> 'h ld_entry option \<Rightarrow> ('w, 'h) conn \<Rightarrow> (ld_attribute list option \<times> ('w, 'h) conn) option" where
  "ld_entry_get_attributes E entry c =
     (case entry of
        None \<Rightarrow> Some (None, c)
      | Some e \<Rightarrow>
          (case entry_attributes e of
             None \<Rightarrow> Some (None, c)
           | Some t \<Rightarrow>
               let (ok, c1) = alloc E c in
               if \<not> ok then Some (None, c1)
               else do { (result, c2) \<leftarrow> fill_all E (g_hash_table_entries E t) c1;
                         Some (result, if result = None then snd (free_block E c2) else c2) }))"

section \<open>The default callback of a search\<close>

text \<open>
  \<open>print_search_callback\<close> walks every entry, attribute and value; the printing itself is left out.
  It does not test the array of attributes nor the arrays of values for NULL.
\<close>

fun print_search_callback ::
  "('w, 'h) ext \<Rightarrow> 'h ld_entry list \<Rightarrow> ('w, 'h) conn \<Rightarrow> (OperationReturnCode \<times> ('w, 'h) conn) option" where
  "print_search_callback E [] c = Some (RETURN_CODE_SUCCESS, c)"
| "print_search_callback E (entry # entries) c =
     do { let (_, c1) = ld_entry_get_dn E (Some entry) c;
          (attributes, c2) \<leftarrow> ld_entry_get_attributes E (Some entry) c1;
          as \<leftarrow> attributes;
          if \<exists>a \<in> set as. attr_values a = None then None
          else print_search_callback E entries (snd (free_block E c2)) }"

section \<open>Removing a search request\<close>

definition no_search_request :: ldap_search_request where
  "no_search_request = \<lparr>search_msgid = 0, on_search_operation = None, search_user_data = NO_DATA\<rparr>"

primrec shift_requests :: "nat \<Rightarrow> int \<Rightarrow> (int \<Rightarrow> 'a) \<Rightarrow> int \<Rightarrow> 'a" where
  "shift_requests 0 i rs = rs"
| "shift_requests (Suc k) i rs = shift_requests k (i + 1) (rs(i := rs (i + 1)))"

definition connection_remove_search_request :: "('w, 'h) conn \<Rightarrow> int \<Rightarrow> ('w, 'h) conn option" where
  "connection_remove_search_request c index =
     (if index = n_read_requests c - 1 then
        if 0 \<le> index \<and> index < MAX_REQUESTS then
          Some (c\<lparr>n_search_requests := n_search_requests c - 1,
                  search_requests := (search_requests c)(index := no_search_request)\<rparr>)
        else None
      else
        let last = n_search_requests c - 1 in
        if 0 \<le> index \<and> 0 \<le> last \<and> last < MAX_REQUESTS then
          Some (c\<lparr>n_search_requests := last,
                  search_requests :=
                    (shift_requests (nat (last - index)) index (search_requests c))(last := no_search_request)\<rparr>)
        else None)"

section \<open>The answer to a search\<close>

text \<open>
  Copying the attributes of one message into an entry: two allocations for the attribute and its name,
  one for the array, one per value. Values are bytes for libldap and C strings for the entry.
\<close>

fun read_attributes ::
  "('w, 'h) ext \<Rightarrow> (string \<times> string list) list \<Rightarrow> 'h ld_entry \<Rightarrow> ('w, 'h) conn \<Rightarrow>
     'h ld_entry option \<times> ('w, 'h) conn" where
  "read_attributes E [] entry c = (Some entry, c)"
| "read_attributes E ((name, values) # rest) entry c =
     (let (ok, c1) = allocs E (3 + length values) c in
      if \<not> ok then (None, c1)
      else let a = \<lparr>attr_name = Some name, attr_values = Some (map c_str values)\<rparr>;
               (_, entry') = ld_entry_add_attribute E (Some entry) (Some a)
           in read_attributes E rest (case entry' of Some e \<Rightarrow> e | None \<Rightarrow> entry) c1)"

fun frees :: "('w, 'h) ext \<Rightarrow> nat \<Rightarrow> ('w, 'h) conn \<Rightarrow> ('w, 'h) conn" where
  "frees E 0 c = c"
| "frees E (Suc n) c = (let (ok, c1) = free_block E c in if ok then frees E n c1 else c1)"

text \<open>
  The loop over the messages of the chain, with the entries read so far and the length of their array.
  The first entry that cannot be created, for instance because its message has no DN, gives up the
  whole answer. \<open>None\<close> is the jump to \<open>error_exit\<close>.
\<close>

fun read_messages ::
  "('w, 'h) ext \<Rightarrow> ldap_message list \<Rightarrow> 'h ld_entry list \<Rightarrow> nat \<Rightarrow> ('w, 'h) conn \<Rightarrow>
     'h ld_entry list option \<times> ('w, 'h) conn" where
  "read_messages E [] entries len c = (Some entries, c)"
| "read_messages E (m # ms) entries len c =
     (let (ok, c1) = (if length entries + 2 \<ge> len then alloc E c else (True, c));
          len1 = (if length entries + 2 \<ge> len then len * 2 else len)
      in if \<not> ok then (None, c1)
         else (case ld_entry_new E True (message_dn m) c1 of
                 (None, c2) \<Rightarrow> (None, frees E (length entries + 1) c2)
               | (Some entry, c2) \<Rightarrow>
                   (case read_attributes E (message_attributes m) entry c2 of
                      (None, c3) \<Rightarrow> (None, c3)
                    | (Some entry', c3) \<Rightarrow> read_messages E ms (entries @ [entry']) len1 c3)))"

text \<open>
  \<open>search_on_read\<close>, with the function pointers of searches resolved by \<open>call\<close>. The callback runs
  before its search request is removed.
\<close>

definition search_on_read ::
  "(search_callback \<Rightarrow> 'h ld_entry list \<Rightarrow> user_data \<Rightarrow> ('w, 'h) conn \<Rightarrow>
      (OperationReturnCode \<times> ('w, 'h) conn) option) \<Rightarrow>
   ('w, 'h) ext \<Rightarrow> int \<Rightarrow> ldap_message list \<Rightarrow> ('w, 'h) conn \<Rightarrow> (OperationReturnCode \<times> ('w, 'h) conn) option" where
  "search_on_read call E rc message c =
     (if rc = LDAP_RES_SEARCH_ENTRY \<or> rc = LDAP_RES_SEARCH_RESULT then
        if n_search_requests c > 0 \<and> message = [] then None
        else
          (case find (\<lambda>i. search_msgid (search_requests c i) = message_id (hd message))
                  [0..n_search_requests c - 1] of
             None \<Rightarrow> do { c1 \<leftarrow> call_error_operation E rc message c; Some (RETURN_CODE_FAILURE, c1) }
           | Some i \<Rightarrow>
               (case on_search_operation (search_requests c i) of
                  None \<Rightarrow> Some (RETURN_CODE_FAILURE, c)
                | Some callback \<Rightarrow>
                    if \<not> has_handle c then None
                    else
                      let (ok, c1) = alloc E c in
                      if \<not> ok then Some (RETURN_CODE_FAILURE, c1)
                      else
                        (case read_messages E message [] 256 c1 of
                           (None, c2) \<Rightarrow> Some (RETURN_CODE_FAILURE, c2)
                         | (Some entries, c2) \<Rightarrow>
                             do { (rc', c3) \<leftarrow>
                                    call callback entries (search_user_data (search_requests c2 i)) c2;
                                  c4 \<leftarrow> connection_remove_search_request c3 i;
                                  Some (rc', c4) })))
      else if rc = LDAP_RES_SEARCH_REFERENCE then Some (RETURN_CODE_SUCCESS, c)
      else answer_failed E rc message c)"

section \<open>The invariant of the request tables\<close>

text \<open>
  \<open>waiting c\<close>: the slots of \<open>read_requests\<close> in the call queue, oldest first. \<open>outstanding c\<close>: what
  waits in them, the abstract content of the queue. \<open>searches c\<close>: the search requests in use.
\<close>

definition waiting :: "('w, 'h) conn \<Rightarrow> int list" where
  "waiting c = (case callqueue c of None \<Rightarrow> [] | Some p \<Rightarrow> rq_items (queues c) p)"

definition outstanding :: "('w, 'h) conn \<Rightarrow> (int \<times> read_operation option) list" where
  "outstanding c = map (\<lambda>i. (req_msgid (read_requests c i), on_read_operation (read_requests c i))) (waiting c)"

definition searches :: "('w, 'h) conn \<Rightarrow> ldap_search_request list" where
  "searches c = map (search_requests c) [0..n_search_requests c - 1]"

definition conn_inv :: "('w, 'h) conn \<Rightarrow> bool" where
  "conn_inv c \<longleftrightarrow>
     0 \<le> n_read_requests c \<and> n_read_requests c \<le> MAX_REQUESTS \<and>
     0 \<le> n_search_requests c \<and> n_search_requests c < MAX_REQUESTS \<and>
     (case callqueue c of
        None \<Rightarrow> False
      | Some p \<Rightarrow> rq_inv (queues c) p \<and> rq_capacity (queue_at (queues c) p) = MAX_REQUESTS) \<and>
     set (waiting c) \<subseteq> {0..<n_read_requests c}"

lemma conn_invE:
  assumes "conn_inv c"
  obtains p where "callqueue c = Some p" and "rq_rep (queues c) p (waiting c)"
    and "rq_capacity (queue_at (queues c) p) = MAX_REQUESTS"
    and "set (waiting c) \<subseteq> {0..<n_read_requests c}" and "distinct (waiting c)"
    and "0 \<le> n_read_requests c" and "n_read_requests c \<le> MAX_REQUESTS"
    and "0 \<le> n_search_requests c" and "n_search_requests c < MAX_REQUESTS"
proof -
  from assms obtain p where "callqueue c = Some p" and "rq_inv (queues c) p"
    by (auto simp: conn_inv_def split: option.splits)
  with assms that show thesis
    by (auto simp: conn_inv_def waiting_def rq_inv_def rq_rep_def Let_def)
qed

lemma conn_invI:
  assumes "callqueue c = Some p" and "rq_rep (queues c) p xs"
    and "rq_capacity (queue_at (queues c) p) = MAX_REQUESTS" and "set xs \<subseteq> {0..<n_read_requests c}"
    and "0 \<le> n_read_requests c" and "n_read_requests c \<le> MAX_REQUESTS"
    and "0 \<le> n_search_requests c" and "n_search_requests c < MAX_REQUESTS"
  shows "conn_inv c" and "waiting c = xs"
  using assms by (auto simp: conn_inv_def waiting_def rq_rep_items rq_rep_inv)

lemma waiting_length: "conn_inv c \<Longrightarrow> int (length (waiting c)) \<le> n_read_requests c"
proof (erule conn_invE)
  assume sub: "set (waiting c) \<subseteq> {0..<n_read_requests c}" and d: "distinct (waiting c)"
    and "0 \<le> n_read_requests c"
  have "length (waiting c) = card (set (waiting c))" using d by (simp add: distinct_card)
  also have "\<dots> \<le> card {0..<n_read_requests c}" using sub by (intro card_mono) auto
  finally show ?thesis using \<open>0 \<le> n_read_requests c\<close> by simp
qed

lemma conn_inv_world [simp]: "conn_inv (c\<lparr>world := w\<rparr>) = conn_inv c"
  "waiting (c\<lparr>world := w\<rparr>) = waiting c" "outstanding (c\<lparr>world := w\<rparr>) = outstanding c"
  "searches (c\<lparr>world := w\<rparr>) = searches c"
  by (simp_all add: conn_inv_def waiting_def outstanding_def searches_def split: option.splits)

lemma same_but_world_inv [conn_frame]:
  "same_but_world c c' \<Longrightarrow> conn_inv c' = conn_inv c \<and> waiting c' = waiting c \<and>
     outstanding c' = outstanding c \<and> searches c' = searches c"
  by (auto elim!: same_but_worldE)

section \<open>What a request does\<close>

lemma push_read_request_ok:
  assumes inv: "conn_inv c" and room: "n_read_requests c < MAX_REQUESTS"
  obtains c' where "push_read_request m h c = Some c'" and "conn_inv c'"
    and "waiting c' = waiting c @ [n_read_requests c]"
    and "outstanding c' = outstanding c @ [(m, Some h)]"
    and "c' = c\<lparr>n_read_requests := n_read_requests c + 1, read_requests := read_requests c', queues := queues c'\<rparr>"
    and "\<And>i. i \<noteq> n_read_requests c \<Longrightarrow> read_requests c' i = read_requests c i"
proof -
  obtain p where p: "callqueue c = Some p" and rep: "rq_rep (queues c) p (waiting c)"
    and cap: "rq_capacity (queue_at (queues c) p) = MAX_REQUESTS"
    and sub: "set (waiting c) \<subseteq> {0..<n_read_requests c}" and n: "0 \<le> n_read_requests c"
    and s: "0 \<le> n_search_requests c" "n_search_requests c < MAX_REQUESTS"
    using inv by (rule conn_invE)
  obtain rc q' where push: "request_queue_push (Some p) (Some (n_read_requests c)) (queues c) = (rc, q')"
    by fastforce
  have new: "n_read_requests c \<notin> set (waiting c)" using sub by auto
  have len: "int (length (waiting c)) < rq_capacity (queue_at (queues c) p)"
    using waiting_length [OF inv] room cap by simp
  note rep' = request_queue_push_rep(2) [OF rep new len push]
  let ?rs = "(read_requests c)(n_read_requests c :=
    (read_requests c (n_read_requests c))\<lparr>req_msgid := m, on_read_operation := Some h\<rparr>)"
  let ?c = "c\<lparr>n_read_requests := n_read_requests c + 1, read_requests := ?rs, queues := q'\<rparr>"
  have ok: "push_read_request m h c = Some ?c"
    using n room p push by (simp add: push_read_request_def Let_def)
  have sub': "set (waiting c @ [n_read_requests c]) \<subseteq> {0..<n_read_requests ?c}"
    using sub n by auto
  have "conn_inv ?c" and w: "waiting ?c = waiting c @ [n_read_requests c]"
    using conn_invI [of ?c p "waiting c @ [n_read_requests c]"]
      p rep' cap sub' n room s request_queue_push_capacity [OF push, of p] by auto
  moreover from w have "outstanding ?c = outstanding c @ [(m, Some h)]"
    unfolding outstanding_def w using new by auto
  ultimately show thesis using that ok by simp
qed

text \<open>
  \<open>submitted c reply handler result\<close>: what a request function returns when libldap answers its call
  with \<open>reply\<close>. A refused request leaves everything but the world alone; an accepted one becomes the
  last outstanding request, and nothing else of the connection changes.
\<close>

definition enqueued :: "('w, 'h) conn \<Rightarrow> 'w \<Rightarrow> int \<Rightarrow> read_operation \<Rightarrow> ('w, 'h) conn \<Rightarrow> bool" where
  "enqueued c w msgid handler c' \<longleftrightarrow>
     conn_inv c' \<and> outstanding c' = outstanding c @ [(msgid, Some handler)] \<and>
     waiting c' = waiting c @ [n_read_requests c] \<and>
     (\<forall>i. i \<noteq> n_read_requests c \<longrightarrow> read_requests c' i = read_requests c i) \<and>
     c' = c\<lparr>world := w, n_read_requests := n_read_requests c + 1,
            read_requests := read_requests c', queues := queues c'\<rparr>"

lemma enqueued_frame:
  assumes "enqueued c w m h c'"
  shows "world c' = w" "n_read_requests c' = n_read_requests c + 1"
    "n_search_requests c' = n_search_requests c" "search_requests c' = search_requests c"
    "ldap c' = ldap c" "callqueue c' = callqueue c" "directory_type c' = directory_type c"
    "schema c' = schema c" "schemas c' = schemas c" "state_machine c' = state_machine c"
    "machines c' = machines c" "has_handle c' = has_handle c" "bind_type c' = bind_type c"
    "schema_entry_path c' = schema_entry_path c" "n_reconnect_attempts c' = n_reconnect_attempts c"
    "searches c' = searches c" "config c' = config c" "handlers_installed c' = handlers_installed c"
    "on_error_operation c' = on_error_operation c" "conn_inv c'"
proof -
  have e: "c' = c\<lparr>world := w, n_read_requests := n_read_requests c + 1,
                read_requests := read_requests c', queues := queues c'\<rparr>"
    using assms unfolding enqueued_def by blast
  show "world c' = w" "n_read_requests c' = n_read_requests c + 1"
    "n_search_requests c' = n_search_requests c" "search_requests c' = search_requests c"
    "ldap c' = ldap c" "callqueue c' = callqueue c" "directory_type c' = directory_type c"
    "schema c' = schema c" "schemas c' = schemas c" "state_machine c' = state_machine c"
    "machines c' = machines c" "has_handle c' = has_handle c" "bind_type c' = bind_type c"
    "schema_entry_path c' = schema_entry_path c" "n_reconnect_attempts c' = n_reconnect_attempts c"
    "searches c' = searches c" "config c' = config c" "handlers_installed c' = handlers_installed c"
    "on_error_operation c' = on_error_operation c"
    by (subst e, simp add: searches_def)+
  show "conn_inv c'" using assms unfolding enqueued_def by blast
qed

definition submitted ::
  "('w, 'h) conn \<Rightarrow> (int \<times> int) \<times> 'w \<Rightarrow> read_operation \<Rightarrow> (OperationReturnCode \<times> ('w, 'h) conn) option \<Rightarrow> bool"
where
  "submitted c reply handler result \<longleftrightarrow>
     (case reply of ((rc, msgid), w) \<Rightarrow>
        if rc \<noteq> LDAP_SUCCESS then result = Some (RETURN_CODE_FAILURE, c\<lparr>world := w\<rparr>)
        else \<exists>c'. result = Some (RETURN_CODE_SUCCESS, c') \<and> enqueued c w msgid handler c')"

lemma push_after_call:
  assumes "conn_inv c" and "n_read_requests c < MAX_REQUESTS"
  obtains c' where "push_read_request m h (c\<lparr>world := w\<rparr>) = Some c'" and "enqueued c w m h c'"
proof -
  have "conn_inv (c\<lparr>world := w\<rparr>)" "n_read_requests (c\<lparr>world := w\<rparr>) < MAX_REQUESTS"
    using assms by simp_all
  then obtain c' where "push_read_request m h (c\<lparr>world := w\<rparr>) = Some c'" and "conn_inv c'"
    and "waiting c' = waiting c @ [n_read_requests c]"
    and "outstanding c' = outstanding c @ [(m, Some h)]"
    and "c' = c\<lparr>world := w, n_read_requests := n_read_requests c + 1,
                read_requests := read_requests c', queues := queues c'\<rparr>"
    and "\<And>i. i \<noteq> n_read_requests c \<Longrightarrow> read_requests c' i = read_requests c i"
    by (rule push_read_request_ok) auto
  then show thesis using that by (auto simp: enqueued_def)
qed

lemma submit_submitted:
  assumes "conn_inv c" and "ldap c = Valid ld" and "n_read_requests c < MAX_REQUESTS"
  shows "submitted c (send ld (world c)) h (submit send h c)"
proof -
  obtain rc m w where reply: "send ld (world c) = ((rc, m), w)" by (metis prod.exhaust)
  obtain c' where "push_read_request m h (c\<lparr>world := w\<rparr>) = Some c'" "enqueued c w m h c'"
    using assms(1,3) by (rule push_after_call)
  with assms(2) reply show ?thesis
    by (simp add: submitted_def submit_def with_ldap_def)
qed

lemma submit_full:
  assumes "ldap c = Valid ld" and "n_read_requests c = MAX_REQUESTS" and "fst (fst (send ld (world c))) = LDAP_SUCCESS"
  shows "submit send h c = None"
  using assms by (auto simp: submit_def with_ldap_def push_read_request_def Let_def split: prod.splits)

text \<open>
  C12: Each request function (add, modify, delete, rename, whoami), on a connection with a free slot,
  passes its arguments to libldap, fails without a trace when libldap refuses, and otherwise appends
  exactly one outstanding request with the message id libldap returned and its own handler.
\<close>

theorem requests_enqueue:
  assumes "conn_inv c" and "ldap c = Valid ld" and "n_read_requests c < MAX_REQUESTS"
  shows "submitted c (ldap_add_ext E ld dn mods (world c)) ADD_ON_READ (add E c dn mods)
       \<and> submitted c (ldap_modify_ext E ld dn mods (world c)) MODIFY_ON_READ (modify E c dn mods)
       \<and> submitted c (ldap_delete_ext E ld dn (world c)) DELETE_ON_READ (ld_delete E c dn)
       \<and> submitted c (ldap_rename E ld dn new parent del (world c)) RENAME_ON_READ
           (ld_rename E c dn new parent del)
       \<and> submitted c (ldap_whoami E ld (world c)) WHOAMI_ON_READ (whoami E c)"
  unfolding add_def modify_def ld_delete_def ld_rename_def whoami_def
  by (intro conjI submit_submitted assms)

lemma demo_conn_inv [simp]: "conn_inv demo_conn" "waiting demo_conn = []" "outstanding demo_conn = []"
  by (simp_all add: conn_inv_def waiting_def outstanding_def demo_conn_def rq_inv_def rq_rep_def rq_items_def Let_def)

lemma demo_conn_fields [simp]:
  "ldap demo_conn = Valid 1" "n_read_requests demo_conn = 0" "n_search_requests demo_conn = 0"
  "has_handle demo_conn" "on_error_operation demo_conn = None"
  "world demo_conn = \<lparr>next_id = 1, replies = (\<lambda>_. (0, [])), call_log = []\<rparr>"
  by (simp_all add: demo_conn_def)

lemma requests_enqueue_witness:
  "\<exists>c'. ld_delete demo_ext demo_conn (Some ''cn=a,dc=b'') = Some (RETURN_CODE_SUCCESS, c') \<and>
        outstanding c' = [(1, Some DELETE_ON_READ)] \<and>
        call_log (world c') = [DDelete (Some ''cn=a,dc=b'')]"
  using requests_enqueue [of demo_conn 1 demo_ext "Some ''cn=a,dc=b''" None None None True]
  by (auto simp: submitted_def demo_send_def enqueued_frame(1)) (auto simp: enqueued_def)

text \<open>
  C37: No request function checks the request table. With all 8192 slots taken, a request that libldap
  accepts is written behind the array.
\<close>

theorem requests_overrun_table:
  assumes "ldap c = Valid ld" and "n_read_requests c = MAX_REQUESTS"
  shows "(fst (fst (ldap_add_ext E ld dn mods (world c))) = LDAP_SUCCESS \<longrightarrow> add E c dn mods = None)
       \<and> (fst (fst (ldap_modify_ext E ld dn mods (world c))) = LDAP_SUCCESS \<longrightarrow> modify E c dn mods = None)
       \<and> (fst (fst (ldap_delete_ext E ld dn (world c))) = LDAP_SUCCESS \<longrightarrow> ld_delete E c dn = None)
       \<and> (fst (fst (ldap_rename E ld dn new parent del (world c))) = LDAP_SUCCESS \<longrightarrow>
           ld_rename E c dn new parent del = None)
       \<and> (fst (fst (ldap_whoami E ld (world c))) = LDAP_SUCCESS \<longrightarrow> whoami E c = None)"
  unfolding add_def modify_def ld_delete_def ld_rename_def whoami_def
  by (intro conjI impI submit_full [OF assms])

lemma requests_overrun_table_witness:
  "add demo_ext (demo_conn\<lparr>n_read_requests := MAX_REQUESTS\<rparr>) None None = None"
  using requests_overrun_table [of "demo_conn\<lparr>n_read_requests := MAX_REQUESTS\<rparr>" 1 demo_ext None None]
  by (simp add: demo_send_def)

section \<open>Searches\<close>

lemma search_requests_snoc:
  "0 \<le> n \<Longrightarrow> map (f(n := x)) [0..n] = map f [0..n - 1] @ [x]" for n :: int
  by (simp add: upto_rec2)

lemma search_accepted:
  assumes inv: "conn_inv c" and valid: "ldap c = Valid ld" and room: "n_read_requests c < MAX_REQUESTS"
    and sent: "ldap_search_ext E ld dn sc flt attrs only (world c) = ((LDAP_SUCCESS, m), w)"
  shows "\<exists>c1 rc c'. enqueued c w m SEARCH_ON_READ c1 \<and>
    search E c dn sc flt attrs only callback ud = Some (rc, c') \<and>
    (if n_search_requests c + 1 < MAX_REQUESTS
     then rc = RETURN_CODE_SUCCESS \<and> conn_inv c' \<and> outstanding c' = outstanding c1 \<and>
          searches c' = searches c @ [\<lparr>search_msgid = m,
            on_search_operation = Some (case callback of Some f \<Rightarrow> f | None \<Rightarrow> PRINT_SEARCH_CALLBACK),
            search_user_data = ud\<rparr>] \<and>
          c' = c1\<lparr>search_requests := search_requests c', n_search_requests := n_search_requests c + 1\<rparr>
     else rc = RETURN_CODE_FAILURE \<and> c' = c1)"
proof -
  obtain c1 where push: "push_read_request m SEARCH_ON_READ (c\<lparr>world := w\<rparr>) = Some c1"
    and enq: "enqueued c w m SEARCH_ON_READ c1"
    using inv room by (rule push_after_call)
  note s = enqueued_frame(3,4) [OF enq] and inv1 = enqueued_frame(20) [OF enq]
  have n: "0 \<le> n_search_requests c"
    using inv by (auto elim: conn_invE)
  show ?thesis
  proof (cases "n_search_requests c + 1 < MAX_REQUESTS")
    case True
    let ?r = "\<lparr>search_msgid = m, on_search_operation =
                 Some (case callback of Some f \<Rightarrow> f | None \<Rightarrow> PRINT_SEARCH_CALLBACK), search_user_data = ud\<rparr>"
    let ?c = "c1\<lparr>search_requests := (search_requests c1)(n_search_requests c := ?r),
                 n_search_requests := n_search_requests c + 1\<rparr>"
    have "search E c dn sc flt attrs only callback ud = Some (RETURN_CODE_SUCCESS, ?c)"
      using valid sent push True n by (simp add: search_def with_ldap_def s Let_def)
    moreover have "conn_inv ?c"
      using inv1 True n by (auto simp: conn_inv_def waiting_def split: option.splits)
    moreover have "outstanding ?c = outstanding c1"
      by (simp add: outstanding_def waiting_def split: option.splits)
    moreover have "searches ?c = searches c @ [?r]"
      using n by (simp add: searches_def search_requests_snoc s)
    ultimately show ?thesis
      using enq True by (intro exI [of _ c1] exI [of _ RETURN_CODE_SUCCESS] exI [of _ ?c]) simp
  next
    case False
    then have "search E c dn sc flt attrs only callback ud = Some (RETURN_CODE_FAILURE, c1)"
      using valid sent push by (simp add: search_def with_ldap_def s Let_def)
    then show ?thesis
      using enq False by (intro exI [of _ c1] exI [of _ RETURN_CODE_FAILURE]) simp
  qed
qed

text \<open>
  A search that libldap accepts is enqueued like any other request. With a free search slot it also
  appends one search request with the same message id, the given callback (or the printing one) and the
  given data, and succeeds; with the search table full it reports a failure, although the request has
  been sent and its answer is awaited.
\<close>

theorem search_enqueues:
  assumes inv: "conn_inv c" and valid: "ldap c = Valid ld" and room: "n_read_requests c < MAX_REQUESTS"
    and sent: "ldap_search_ext E ld dn sc flt attrs only (world c) = ((LDAP_SUCCESS, m), w)"
  shows "\<exists>c1 rc c'. enqueued c w m SEARCH_ON_READ c1 \<and>
    search E c dn sc flt attrs only callback ud = Some (rc, c') \<and>
    (if n_search_requests c + 1 < MAX_REQUESTS
     then rc = RETURN_CODE_SUCCESS \<and> conn_inv c' \<and> outstanding c' = outstanding c1 \<and>
          searches c' = searches c @ [\<lparr>search_msgid = m,
            on_search_operation = Some (case callback of Some f \<Rightarrow> f | None \<Rightarrow> PRINT_SEARCH_CALLBACK),
            search_user_data = ud\<rparr>] \<and>
          c' = c1\<lparr>search_requests := search_requests c', n_search_requests := n_search_requests c + 1\<rparr>
     else rc = RETURN_CODE_FAILURE \<and> c' = c1)"
  by (rule search_accepted [OF assms])

lemma demo_search_full_inv: "conn_inv (demo_conn\<lparr>n_search_requests := 8191\<rparr>)"
  by (simp add: conn_inv_def waiting_def demo_conn_def rq_inv_def rq_rep_def rq_items_def Let_def)

lemma search_enqueues_witness:
  "\<exists>c'. search demo_ext (demo_conn\<lparr>n_search_requests := 8191\<rparr>) None LDAP_SCOPE_BASE None None False None NO_DATA
          = Some (RETURN_CODE_FAILURE, c') \<and> n_read_requests c' = 1"
proof -
  let ?c = "demo_conn\<lparr>n_search_requests := 8191\<rparr>"
  have "ldap_search_ext demo_ext 1 None LDAP_SCOPE_BASE None None False (world ?c) =
      ((LDAP_SUCCESS, 1), snd (demo_send (DSearch None None) (world ?c)))"
    by (simp add: demo_send_def)
  then show ?thesis
    using search_enqueues [of ?c 1 demo_ext None LDAP_SCOPE_BASE None None False 1 _ None NO_DATA]
      demo_search_full_inv by (fastforce dest: enqueued_frame(2))
qed

lemma shift_requests_eq:
  "shift_requests k i rs = (\<lambda>j. if i \<le> j \<and> j < i + int k then rs (j + 1) else rs j)"
  by (induction k arbitrary: i rs) (auto simp: fun_eq_iff)

text \<open>
  Removing the search request at an index in use removes exactly that request and keeps the order of
  the others, if the index is not the last slot of the \<^emph>\<open>read\<close> requests, with which the code compares it,
  or is the last search request.
\<close>

theorem remove_search_request_removes:
  assumes "0 \<le> i" and "i < n_search_requests c" and "n_search_requests c < MAX_REQUESTS"
    and "i \<noteq> n_read_requests c - 1 \<or> i = n_search_requests c - 1"
  shows "\<exists>c'. connection_remove_search_request c i = Some c' \<and>
    n_search_requests c' = n_search_requests c - 1 \<and>
    searches c' = take (nat i) (searches c) @ drop (nat i + 1) (searches c)"
proof -
  let ?n = "n_search_requests c"
  obtain rs where rs: "connection_remove_search_request c i =
      Some (c\<lparr>n_search_requests := ?n - 1, search_requests := rs\<rparr>)"
    and eq: "\<And>j. j < ?n - 1 \<Longrightarrow> rs j = (if i \<le> j then search_requests c (j + 1) else search_requests c j)"
  proof (cases "i = n_read_requests c - 1")
    case True
    then have "?n - 1 = i" using assms(4) by auto
    with True assms show thesis
      using that [of "(search_requests c)(i := no_search_request)"]
      by (simp add: connection_remove_search_request_def)
  next
    case False
    with assms show thesis
      using that [of "(shift_requests (nat (?n - 1 - i)) i (search_requests c))(?n - 1 := no_search_request)"]
      by (simp add: connection_remove_search_request_def Let_def shift_requests_eq)
  qed
  have "map rs [0..?n - 1 - 1] = take (nat i) (searches c) @ drop (nat i + 1) (searches c)"
    by (rule nth_equalityI) (use assms(1,2) eq in \<open>auto simp: searches_def nth_append min_def nat_add_distrib add.commute\<close>)
  with rs show ?thesis by (auto simp: searches_def)
qed

definition three_searches :: "(demo_world, demo_table) conn" where
  "three_searches = demo_conn\<lparr>n_read_requests := 2, n_search_requests := 3,
     search_requests := (\<lambda>i. \<lparr>search_msgid = i + 10, on_search_operation = Some PRINT_SEARCH_CALLBACK,
                              search_user_data = NO_DATA\<rparr>)\<rparr>"

lemma remove_search_request_removes_witness:
  "\<exists>c'. connection_remove_search_request three_searches 0 = Some c' \<and>
        map search_msgid (searches c') = [11, 12]"
  using remove_search_request_removes [of 0 three_searches]
  by (auto simp: three_searches_def searches_def upto_rec1)

text \<open>
  Otherwise, at an index that happens to be the last read request but not the last search request,
  the code zeroes that slot, shortens the table and so forgets its last search request instead.
\<close>

theorem remove_search_request_loses_last:
  assumes "0 \<le> i" and "i < n_search_requests c - 1" and "n_search_requests c < MAX_REQUESTS"
    and "i = n_read_requests c - 1"
  shows "\<exists>c'. connection_remove_search_request c i = Some c' \<and>
    searches c' = butlast ((searches c)[nat i := no_search_request])"
proof -
  let ?c = "c\<lparr>n_search_requests := n_search_requests c - 1,
             search_requests := (search_requests c)(i := no_search_request)\<rparr>"
  have "searches ?c = butlast ((searches c)[nat i := no_search_request])"
    by (rule nth_equalityI)
      (use assms(1,2) in \<open>auto simp: searches_def nth_butlast nth_list_update\<close>)
  then show ?thesis
    using assms by (auto simp: connection_remove_search_request_def)
qed

lemma remove_search_request_loses_last_witness:
  "\<exists>c'. connection_remove_search_request three_searches 1 = Some c' \<and>
        map search_msgid (searches c') = [10, 0]"
  using remove_search_request_loses_last [of 1 three_searches]
  by (auto simp: three_searches_def searches_def upto_rec1 no_search_request_def)

section \<open>What an answer means\<close>

text \<open>\<open>quiet E c\<close>: no error callback, or one that returns.\<close>

definition callback_returns :: "('w, 'h) ext \<Rightarrow> ('w, 'h) conn \<Rightarrow> bool" where
  "callback_returns E c \<longleftrightarrow>
     (case on_error_operation c of None \<Rightarrow> True
      | Some f \<Rightarrow> \<forall>rc msg w. app_error_callback E f rc msg (c\<lparr>world := w\<rparr>) \<noteq> None)"

lemma call_error_operation_returns:
  "callback_returns E c \<Longrightarrow> \<exists>c'. call_error_operation E rc msg (c\<lparr>world := w\<rparr>) = Some c'"
  by (auto simp: callback_returns_def call_error_operation_def split: option.splits)

lemma answer_failed_fails:
  assumes "ldap c = Valid ld" and "callback_returns E c"
  shows "\<exists>c'. answer_failed E rc msg c = Some (RETURN_CODE_FAILURE, c')"
proof -
  obtain c1 where d: "get_diagnostics E c = Some c1"
    using get_diagnostics_Some assms(1) by blast
  obtain w where "c1 = c\<lparr>world := w\<rparr>"
    using get_diagnostics_same [OF d] by auto
  then show ?thesis
    using d call_error_operation_returns [OF assms(2), of rc msg w] by (auto simp: answer_failed_def)
qed

lemma update_on_read_result:
  assumes "ldap c = Valid ld" and "callback_returns E c"
  shows "\<exists>c'. update_on_read tag good E rc msg c =
    Some (if rc = tag \<and> (case fst (ldap_parse_result E ld msg (world c)) of None \<Rightarrow> LDAP_SUCCESS | Some e \<Rightarrow> e) \<in> set good
          then RETURN_CODE_SUCCESS else RETURN_CODE_FAILURE, c')"
proof (cases "rc = tag")
  case True
  obtain code w where "ldap_parse_result E ld msg (world c) = (code, w)" by fastforce
  then show ?thesis
    using True assms(1) call_error_operation_returns [OF assms(2), of rc msg w]
    by (auto simp: update_on_read_def with_ldap_def Let_def)
next
  case False
  then show ?thesis
    using answer_failed_fails [OF assms] by (simp add: update_on_read_def)
qed

text \<open>
  C35: The answer handlers of add, modify, delete and rename succeed exactly when the answer has the tag
  of their operation and carries the result code \<open>success\<close> (for add also \<open>entryAlreadyExists\<close>), or
  cannot be parsed at all, since the result of \<open>ldap_parse_result\<close> is not looked at; they fail otherwise.
\<close>

theorem answers_of_updates:
  assumes "ldap c = Valid ld" and "callback_returns E c"
    and code: "code = (case fst (ldap_parse_result E ld msg (world c)) of None \<Rightarrow> LDAP_SUCCESS | Some e \<Rightarrow> e)"
  shows "map_option fst (add_on_read E rc msg c) =
           Some (if rc = LDAP_RES_ADD \<and> (code = LDAP_SUCCESS \<or> code = LDAP_ALREADY_EXISTS)
                 then RETURN_CODE_SUCCESS else RETURN_CODE_FAILURE)
       \<and> map_option fst (modify_on_read E rc msg c) =
           Some (if rc = LDAP_RES_MODIFY \<and> code = LDAP_SUCCESS then RETURN_CODE_SUCCESS else RETURN_CODE_FAILURE)
       \<and> map_option fst (delete_on_read E rc msg c) =
           Some (if rc = LDAP_RES_DELETE \<and> code = LDAP_SUCCESS then RETURN_CODE_SUCCESS else RETURN_CODE_FAILURE)
       \<and> map_option fst (rename_on_read E rc msg c) =
           Some (if rc = LDAP_RES_RENAME \<and> code = LDAP_SUCCESS then RETURN_CODE_SUCCESS else RETURN_CODE_FAILURE)"
proof -
  have main: "map_option fst (update_on_read tag good E rc msg c) =
      Some (if rc = tag \<and> code \<in> set good then RETURN_CODE_SUCCESS else RETURN_CODE_FAILURE)" for tag good
    using update_on_read_result [OF assms(1,2), of tag good rc msg] unfolding code by force
  show ?thesis
    unfolding add_on_read_def modify_on_read_def delete_on_read_def rename_on_read_def main by simp
qed

lemma answers_of_updates_witness:
  "map_option fst (add_on_read (demo_ext\<lparr>ldap_parse_result := (\<lambda>_ _ w. (Some 68, w))\<rparr>) 105 [] demo_conn)
     = Some RETURN_CODE_SUCCESS"
  using answers_of_updates [of demo_conn 1 "demo_ext\<lparr>ldap_parse_result := (\<lambda>_ _ w. (Some 68, w))\<rparr>" 68 "[]" 105]
  by (simp add: callback_returns_def)

lemma whoami_on_read_never_fails:
  "ldap c = Valid ld \<Longrightarrow> map_option fst (whoami_on_read E rc msg c) = Some RETURN_CODE_SUCCESS"
  using get_diagnostics_Some [of c ld E] by (auto simp: whoami_on_read_def with_ldap_def)

section \<open>Entries as maps\<close>

text \<open>\<open>memory_ok\<close>: allocations succeed. \<open>holds_attributes\<close>: the table of an entry binds names to attributes.\<close>

definition memory_ok :: "('w, 'h) ext \<Rightarrow> bool" where
  "memory_ok E \<longleftrightarrow> (\<forall>w. fst (talloc E w)) \<and> (\<forall>w. fst (g_hash_table_new E w) \<noteq> None)"

lemma demo_memory_ok [simp]: "memory_ok demo_ext"
  by (simp add: memory_ok_def)

lemma memory_ok_alloc: "memory_ok E \<Longrightarrow> \<exists>w. alloc E c = (True, c\<lparr>world := w\<rparr>)"
  by (auto simp: memory_ok_def alloc_def split: prod.splits) (metis fst_conv)

lemma memory_ok_allocs: "memory_ok E \<Longrightarrow> \<exists>w. allocs E n c = (True, c\<lparr>world := w\<rparr>)"
proof (induction n arbitrary: c)
  case 0
  show ?case by (rule exI [of _ "world c"]) simp
next
  case (Suc n)
  obtain w where w: "alloc E c = (True, c\<lparr>world := w\<rparr>)"
    using memory_ok_alloc [OF Suc.prems] by blast
  obtain w' where "allocs E n (c\<lparr>world := w\<rparr>) = (True, c\<lparr>world := w\<rparr>\<lparr>world := w'\<rparr>)"
    using Suc.IH [OF Suc.prems] by blast
  with w show ?case by auto
qed

fun attr_binding :: "string \<times> gvalue \<Rightarrow> bool" where
  "attr_binding (k, AttributeValue a) \<longleftrightarrow> attr_name a = Some k"
| "attr_binding (k, _) \<longleftrightarrow> False"

fun attr_of :: "gvalue \<Rightarrow> ld_attribute" where
  "attr_of (AttributeValue a) = a"
| "attr_of _ = \<lparr>attr_name = None, attr_values = None\<rparr>"

lemma attr_bindingE:
  assumes "attr_binding kv"
  obtains k a where "kv = (k, AttributeValue a)" and "attr_name a = Some k"
  using assms by (cases kv rule: attr_binding.cases) auto

lemma attr_binding_name: "attr_binding (k, v) \<Longrightarrow> attr_name (attr_of v) = Some k"
  and attr_binding_of: "attr_binding (k, v) \<Longrightarrow> AttributeValue (attr_of v) = v"
  by (cases v; simp)+

definition holds_attributes :: "('w, 'h) ext \<Rightarrow> 'h ld_entry \<Rightarrow> bool" where
  "holds_attributes E e \<longleftrightarrow>
     (case entry_attributes e of
        None \<Rightarrow> False
      | Some t \<Rightarrow> list_all attr_binding (g_hash_table_entries E t))"

lemma holds_attributes_lookup:
  assumes "glib_ok E" and "holds_attributes E e" and "entry_attributes e = Some t"
  shows "g_hash_table_lookup E t n = map_option AttributeValue (ld_entry_get_attribute E (Some e) n)"
proof (cases "g_hash_table_lookup E t n")
  case None
  then show ?thesis using assms by (simp add: ld_entry_get_attribute_def)
next
  case (Some v)
  then have "(n, v) \<in> set (g_hash_table_entries E t)"
    by (simp add: glib_lookup_iff [OF assms(1)])
  then show ?thesis
    using assms(2,3) Some
    by (cases v) (auto simp: holds_attributes_def list_all_iff ld_entry_get_attribute_def dest!: bspec)
qed

lemma add_attribute_binds:
  assumes "glib_ok E" and "holds_attributes E e" and "attr_name a = Some n"
  shows "\<exists>e'. ld_entry_add_attribute E (Some e) (Some a) =
      (if ld_entry_get_attribute E (Some e) n = None then RETURN_CODE_SUCCESS else RETURN_CODE_FAILURE, Some e') \<and>
    entry_dn e' = entry_dn e \<and> holds_attributes E e' \<and>
    (\<forall>m. ld_entry_get_attribute E (Some e') m =
         (if m = n then Some a else ld_entry_get_attribute E (Some e) m))"
proof -
  obtain t where t: "entry_attributes e = Some t"
    using assms(2) by (auto simp: holds_attributes_def split: option.splits)
  obtain fresh t' where ins: "g_hash_table_insert E t n (AttributeValue a) = (fresh, t')" by fastforce
  have fresh: "fresh \<longleftrightarrow> ld_entry_get_attribute E (Some e) n = None"
    using glib_insert_new [OF assms(1), of t n "AttributeValue a"] ins
      holds_attributes_lookup [OF assms(1,2) t, of n] by simp
  have look: "g_hash_table_lookup E t' m = (if m = n then Some (AttributeValue a) else g_hash_table_lookup E t m)" for m
    using glib_lookup_insert [OF assms(1), of t n "AttributeValue a" m] ins by simp
  have "attr_binding (k, v)" if "(k, v) \<in> set (g_hash_table_entries E t')" for k v
  proof -
    have "g_hash_table_lookup E t' k = Some v"
      using that by (simp add: glib_lookup_iff [OF assms(1)])
    then consider "k = n" "v = AttributeValue a" | "(k, v) \<in> set (g_hash_table_entries E t)"
      using look [of k] by (auto simp: glib_lookup_iff [OF assms(1)] split: if_splits)
    then show ?thesis
      using assms(2,3) t by cases (simp, force simp: holds_attributes_def list_all_iff)
  qed
  then have hold: "holds_attributes E (e\<lparr>entry_attributes := Some t'\<rparr>)"
    by (auto simp: holds_attributes_def list_all_iff)
  then have "ld_entry_get_attribute E (Some (e\<lparr>entry_attributes := Some t'\<rparr>)) m =
      (if m = n then Some a else ld_entry_get_attribute E (Some e) m)" for m
    using look [of m] t by (simp add: ld_entry_get_attribute_def)
  with hold show ?thesis
    using t ins assms(3) fresh by (simp add: ld_entry_add_attribute_def)
qed

text \<open>
  Adding an attribute binds its name: looking the name up returns it, other names are unaffected.
  The return code is a success only for a new name; replacing an attribute happens and is reported as a
  failure. Without entry, attribute or name nothing happens.
\<close>

theorem entry_add_then_get:
  assumes "glib_ok E" and "holds_attributes E e" and "attr_name a = Some n"
  shows "\<exists>e'. ld_entry_add_attribute E (Some e) (Some a) =
      (if ld_entry_get_attribute E (Some e) n = None then RETURN_CODE_SUCCESS else RETURN_CODE_FAILURE, Some e') \<and>
    entry_dn e' = entry_dn e \<and> holds_attributes E e' \<and>
    (\<forall>m. ld_entry_get_attribute E (Some e') m =
         (if m = n then Some a else ld_entry_get_attribute E (Some e) m))"
  by (rule add_attribute_binds [OF assms])

definition demo_entry :: "demo_table ld_entry" where
  "demo_entry = \<lparr>entry_dn = Some ''dc=b'', entry_attributes = Some DAList.empty\<rparr>"

lemma demo_entry_holds [simp]: "holds_attributes demo_ext demo_entry"
  by (simp add: holds_attributes_def demo_entry_def empty.rep_eq)

lemma entry_add_then_get_witness:
  "\<exists>e'. ld_entry_add_attribute demo_ext (Some demo_entry)
      (Some \<lparr>attr_name = Some ''cn'', attr_values = Some [''x'']\<rparr>) = (RETURN_CODE_SUCCESS, Some e') \<and>
    ld_entry_get_attribute demo_ext (Some e') ''cn'' =
      Some \<lparr>attr_name = Some ''cn'', attr_values = Some [''x'']\<rparr>"
proof -
  have "ld_entry_get_attribute demo_ext (Some demo_entry) ''cn'' = None"
    by (simp add: ld_entry_get_attribute_def demo_entry_def)
  then show ?thesis
    using entry_add_then_get [of demo_ext demo_entry "\<lparr>attr_name = Some ''cn'', attr_values = Some [''x'']\<rparr>" "''cn''"]
    by auto
qed

lemma fill_all_ok:
  assumes mem: "memory_ok E"
    and "list_all attr_binding kvs"
  shows "\<exists>w. fill_all E kvs c = Some (Some (map (attr_of \<circ> snd) kvs), c\<lparr>world := w\<rparr>)"
  using assms(2)
proof (induction kvs arbitrary: c)
  case Nil
  show ?case by (rule exI [of _ "world c"]) simp
next
  case (Cons kv kvs)
  have "attr_binding kv" using Cons.prems by simp
  then obtain k a where kv: "kv = (k, AttributeValue a)" and k: "attr_name a = Some k"
    by (rule attr_bindingE)
  obtain w1 where w1: "alloc E c = (True, c\<lparr>world := w1\<rparr>)"
    using memory_ok_alloc [OF mem] by blast
  have "\<exists>w. copy_values E n d = (True, d\<lparr>world := w\<rparr>)" for n d
  proof -
    obtain w where w: "alloc E d = (True, d\<lparr>world := w\<rparr>)"
      using memory_ok_alloc [OF mem] by blast
    obtain w' where "allocs E n (d\<lparr>world := w\<rparr>) = (True, d\<lparr>world := w\<rparr>\<lparr>world := w'\<rparr>)"
      using memory_ok_allocs [OF mem] by blast
    with w show ?thesis by (auto simp: copy_values_def)
  qed
  then obtain w2 where "copy_values E (length (the (attr_values a))) (c\<lparr>world := w1\<rparr>) = (True, c\<lparr>world := w1\<rparr>\<lparr>world := w2\<rparr>)"
    by blast
  then have "\<exists>w. fill_attribute E k (AttributeValue a) (c\<lparr>world := w1\<rparr>) = Some (a, c\<lparr>world := w\<rparr>)"
    using k by (cases a) (auto simp: fill_attribute_def split: option.splits)
  then obtain w3 where w3: "fill_attribute E k (AttributeValue a) (c\<lparr>world := w1\<rparr>) = Some (a, c\<lparr>world := w3\<rparr>)"
    by blast
  obtain w4 where "fill_all E kvs (c\<lparr>world := w3\<rparr>) =
      Some (Some (map (attr_of \<circ> snd) kvs), c\<lparr>world := w3\<rparr>\<lparr>world := w4\<rparr>)"
    using Cons.IH [of "c\<lparr>world := w3\<rparr>"] Cons.prems by auto
  then show ?case using kv w1 w3 by auto
qed

lemma attributes_returned:
  assumes "glib_ok E" and "memory_ok E" and "holds_attributes E e"
  shows "\<exists>as w. ld_entry_get_attributes E (Some e) c = Some (Some as, c\<lparr>world := w\<rparr>) \<and>
    distinct (map attr_name as) \<and>
    (\<forall>a. a \<in> set as \<longleftrightarrow> (\<exists>n. ld_entry_get_attribute E (Some e) n = Some a))"
proof -
  obtain t where t: "entry_attributes e = Some t"
    and wf: "list_all attr_binding (g_hash_table_entries E t)"
    using assms(3) by (auto simp: holds_attributes_def split: option.splits)
  let ?as = "map (attr_of \<circ> snd) (g_hash_table_entries E t)"
  obtain w where w: "alloc E c = (True, c\<lparr>world := w\<rparr>)"
    using memory_ok_alloc [OF assms(2)] by blast
  obtain w' where "fill_all E (g_hash_table_entries E t) (c\<lparr>world := w\<rparr>) = Some (Some ?as, c\<lparr>world := w\<rparr>\<lparr>world := w'\<rparr>)"
    using fill_all_ok [OF assms(2) wf] by blast
  then have res: "ld_entry_get_attributes E (Some e) c = Some (Some ?as, c\<lparr>world := w'\<rparr>)"
    using t w by (simp add: ld_entry_get_attributes_def)
  have "map attr_name ?as = map (Some \<circ> fst) (g_hash_table_entries E t)"
    using wf by (auto simp: list_all_iff attr_binding_name)
  moreover have "distinct (map (Some \<circ> fst) (g_hash_table_entries E t))"
    using glib_entries [OF assms(1), of t] by (simp add: distinct_map comp_inj_on)
  ultimately have "distinct (map attr_name ?as)" by (simp only:)
  moreover have "a \<in> set ?as \<longleftrightarrow> (\<exists>n. ld_entry_get_attribute E (Some e) n = Some a)" for a
  proof -
    have "ld_entry_get_attribute E (Some e) n = Some a \<longleftrightarrow> (n, AttributeValue a) \<in> set (g_hash_table_entries E t)" for n
      using holds_attributes_lookup [OF assms(1,3) t, of n] glib_lookup_iff [OF assms(1), of t n "AttributeValue a"]
      by (cases "ld_entry_get_attribute E (Some e) n") auto
    moreover have "a \<in> set ?as \<longleftrightarrow> (\<exists>n. (n, AttributeValue a) \<in> set (g_hash_table_entries E t))"
      using wf by (force simp: list_all_iff dest: attr_binding_of)
    ultimately show ?thesis by simp
  qed
  ultimately show ?thesis using res by blast
qed

text \<open>
  C36: With enough memory \<open>ld_entry_get_attributes\<close> returns every attribute of the entry exactly once,
  name and values copied unchanged.
\<close>

theorem get_attributes_returns_all:
  assumes "glib_ok E" and "memory_ok E" and "holds_attributes E e"
  shows "\<exists>as w. ld_entry_get_attributes E (Some e) c = Some (Some as, c\<lparr>world := w\<rparr>) \<and>
    distinct (map attr_name as) \<and>
    (\<forall>a. a \<in> set as \<longleftrightarrow> (\<exists>n. ld_entry_get_attribute E (Some e) n = Some a))"
  by (rule attributes_returned [OF assms])

lemma get_attributes_returns_all_witness:
  "\<exists>as w. ld_entry_get_attributes demo_ext
      (snd (ld_entry_add_attribute demo_ext (Some demo_entry)
        (Some \<lparr>attr_name = Some ''cn'', attr_values = Some [''x'', ''y'']\<rparr>))) demo_conn =
    Some (Some as, demo_conn\<lparr>world := w\<rparr>) \<and> distinct (map attr_name as)"
proof -
  let ?e = "demo_entry\<lparr>entry_attributes := Some (DAList.update ''cn''
      (AttributeValue \<lparr>attr_name = Some ''cn'', attr_values = Some [''x'', ''y'']\<rparr>) DAList.empty)\<rparr>"
  have "holds_attributes demo_ext ?e"
    by (simp add: holds_attributes_def update.rep_eq empty.rep_eq)
  then show ?thesis
    using get_attributes_returns_all [of demo_ext ?e demo_conn]
    by (auto simp: ld_entry_add_attribute_def demo_entry_def)
qed

section \<open>Searches deliver their entries\<close>

text \<open>
  \<open>entry_of_message E m e\<close>: \<open>e\<close> has the DN of the message and, under every name, the values the message
  lists last for it, each cut at its first NUL byte.
\<close>

definition entry_of_message :: "('w, 'h) ext \<Rightarrow> ldap_message \<Rightarrow> 'h ld_entry \<Rightarrow> bool" where
  "entry_of_message E m e \<longleftrightarrow>
     entry_dn e = message_dn m \<and> holds_attributes E e \<and>
     (\<forall>n. ld_entry_get_attribute E (Some e) n =
        map_option (\<lambda>vs. \<lparr>attr_name = Some n, attr_values = Some (map c_str vs)\<rparr>)
          (map_of (rev (message_attributes m)) n))"

text \<open>Adding an attribute, as a step on the entry alone.\<close>

lemma add_attribute_step:
  assumes "glib_ok E" and "holds_attributes E e" and "attr_name a = Some n"
  obtains e' where "snd (ld_entry_add_attribute E (Some e) (Some a)) = Some e'"
    and "holds_attributes E e'" and "entry_dn e' = entry_dn e"
    and "\<And>m. ld_entry_get_attribute E (Some e') m =
         (if m = n then Some a else ld_entry_get_attribute E (Some e) m)"
  using add_attribute_binds [OF assms] by (auto simp: prod_eq_iff)

lemma read_attributes_ok:
  assumes glib: "glib_ok E" and mem: "memory_ok E" and "holds_attributes E e"
  shows "\<exists>e' w. read_attributes E attrs e c = (Some e', c\<lparr>world := w\<rparr>) \<and>
    entry_dn e' = entry_dn e \<and> holds_attributes E e' \<and>
    (\<forall>n. ld_entry_get_attribute E (Some e') n =
       (case map_of (rev attrs) n of
          Some vs \<Rightarrow> Some \<lparr>attr_name = Some n, attr_values = Some (map c_str vs)\<rparr>
        | None \<Rightarrow> ld_entry_get_attribute E (Some e) n))"
  using assms(3)
proof (induction attrs arbitrary: e c)
  case Nil
  have "c = c\<lparr>world := world c\<rparr>" by simp
  with Nil show ?case by (intro exI [of _ e] exI [of _ "world c"]) simp
next
  case (Cons nv attrs)
  obtain n vs where nv: "nv = (n, vs)" by fastforce
  let ?a = "\<lparr>attr_name = Some n, attr_values = Some (map c_str vs)\<rparr>"
  obtain w1 where w1: "allocs E (3 + length vs) c = (True, c\<lparr>world := w1\<rparr>)"
    using memory_ok_allocs [OF mem] by blast
  obtain e1 where e1: "snd (ld_entry_add_attribute E (Some e) (Some ?a)) = Some e1"
      "holds_attributes E e1" "entry_dn e1 = entry_dn e"
    and get: "\<And>m. ld_entry_get_attribute E (Some e1) m =
         (if m = n then Some ?a else ld_entry_get_attribute E (Some e) m)"
    using add_attribute_step [OF glib Cons.prems, of ?a n] by auto
  obtain e' w where rest: "read_attributes E attrs e1 (c\<lparr>world := w1\<rparr>) = (Some e', c\<lparr>world := w1\<rparr>\<lparr>world := w\<rparr>)"
    "entry_dn e' = entry_dn e1" "holds_attributes E e'"
    "\<And>m. ld_entry_get_attribute E (Some e') m =
       (case map_of (rev attrs) m of
          Some vs \<Rightarrow> Some \<lparr>attr_name = Some m, attr_values = Some (map c_str vs)\<rparr>
        | None \<Rightarrow> ld_entry_get_attribute E (Some e1) m)"
    using Cons.IH [OF e1(2), of "c\<lparr>world := w1\<rparr>"] by blast
  have "read_attributes E (nv # attrs) e c = (Some e', c\<lparr>world := w\<rparr>)"
    using w1 e1(1) rest(1) nv by (cases "ld_entry_add_attribute E (Some e) (Some ?a)") simp
  with rest e1(3) show ?case
    by (intro exI [of _ e'] exI [of _ w]) (simp add: get nv map_add_def split: option.splits)
qed

lemma ld_entry_new_ok:
  assumes "glib_ok E" and mem: "memory_ok E"
  shows "\<exists>e w. ld_entry_new E True (Some d) c = (Some e, c\<lparr>world := w\<rparr>) \<and> entry_dn e = Some d \<and>
    holds_attributes E e \<and> (\<forall>n. ld_entry_get_attribute E (Some e) n = None)"
proof -
  obtain w1 where w1: "alloc E c = (True, c\<lparr>world := w1\<rparr>)"
    using memory_ok_alloc [OF mem] by blast
  obtain w2 where w2: "alloc E (c\<lparr>world := w1\<rparr>) = (True, c\<lparr>world := w1\<rparr>\<lparr>world := w2\<rparr>)"
    using memory_ok_alloc [OF mem] by blast
  obtain t w3 where t: "g_hash_table_new E w2 = (Some t, w3)"
    using mem by (metis memory_ok_def not_None_eq prod.exhaust_sel)
  have empty: "g_hash_table_entries E t = []"
    using assms(1) t unfolding glib_ok_def by blast
  have look: "g_hash_table_lookup E t n = None" for n
    using glib_lookup_new [OF assms(1) t] .
  have "ld_entry_new E True (Some d) c =
      (Some \<lparr>entry_dn = Some d, entry_attributes = Some t\<rparr>, c\<lparr>world := w3\<rparr>)"
    using w1 w2 t by (simp add: ld_entry_new_def)
  then show ?thesis
    using empty look by (auto simp: holds_attributes_def ld_entry_get_attribute_def)
qed

lemma read_messages_ok:
  assumes glib: "glib_ok E" and mem: "memory_ok E" and "\<forall>m \<in> set ms. message_dn m \<noteq> None"
  shows "\<exists>new w. read_messages E ms es len c = (Some (es @ new), c\<lparr>world := w\<rparr>) \<and>
    list_all2 (entry_of_message E) ms new"
  using assms(3)
proof (induction ms arbitrary: es len c)
  case Nil
  have "c = c\<lparr>world := world c\<rparr>" by simp
  then show ?case by (intro exI [of _ "[]"] exI [of _ "world c"]) simp
next
  case (Cons m ms)
  obtain d where d: "message_dn m = Some d" using Cons.prems by auto
  have "\<exists>w. (if length es + 2 \<ge> len then alloc E c else (True, c)) = (True, c\<lparr>world := w\<rparr>)"
    using memory_ok_alloc [OF mem, of c] by (cases "length es + 2 \<ge> len") (auto intro: exI [of _ "world c"])
  then obtain w0 where w0: "(if length es + 2 \<ge> len then alloc E c else (True, c)) = (True, c\<lparr>world := w0\<rparr>)"
    by blast
  obtain e w1 where new: "ld_entry_new E True (Some d) (c\<lparr>world := w0\<rparr>) = (Some e, c\<lparr>world := w0\<rparr>\<lparr>world := w1\<rparr>)"
      "entry_dn e = Some d" "holds_attributes E e"
    and none: "\<And>n. ld_entry_get_attribute E (Some e) n = None"
    using ld_entry_new_ok [OF glib mem, of d "c\<lparr>world := w0\<rparr>"] by blast
  obtain e' w2 where attrs: "read_attributes E (message_attributes m) e (c\<lparr>world := w1\<rparr>) =
        (Some e', c\<lparr>world := w1\<rparr>\<lparr>world := w2\<rparr>)"
      "entry_dn e' = entry_dn e" "holds_attributes E e'"
    and get: "\<And>n. ld_entry_get_attribute E (Some e') n =
       (case map_of (rev (message_attributes m)) n of
          Some vs \<Rightarrow> Some \<lparr>attr_name = Some n, attr_values = Some (map c_str vs)\<rparr>
        | None \<Rightarrow> ld_entry_get_attribute E (Some e) n)"
    using read_attributes_ok [OF glib mem new(3), of "message_attributes m" "c\<lparr>world := w1\<rparr>"] by blast
  have this_entry: "entry_of_message E m e'"
    using attrs(2,3) new(2) d by (auto simp: entry_of_message_def get none split: option.splits)
  let ?len = "if length es + 2 \<ge> len then len * 2 else len"
  obtain news w3 where rest: "read_messages E ms (es @ [e']) ?len (c\<lparr>world := w2\<rparr>) =
        (Some ((es @ [e']) @ news), c\<lparr>world := w2\<rparr>\<lparr>world := w3\<rparr>)"
      "list_all2 (entry_of_message E) ms news"
    using Cons.IH [of "es @ [e']" ?len "c\<lparr>world := w2\<rparr>"] Cons.prems by auto
  have "read_messages E (m # ms) es len c = (Some (es @ e' # news), c\<lparr>world := w3\<rparr>)"
    unfolding read_messages.simps(2) w0 Let_def prod.case using d new(1) attrs(1) rest(1) by simp
  with this_entry rest(2) show ?case by (intro exI [of _ "e' # news"] exI [of _ w3]) simp
qed

lemma search_delivered:
  assumes "glib_ok E" and "memory_ok E" and "has_handle c" and "message \<noteq> []"
    and "\<forall>m \<in> set message. message_dn m \<noteq> None"
    and "rc = LDAP_RES_SEARCH_ENTRY \<or> rc = LDAP_RES_SEARCH_RESULT"
    and "find (\<lambda>i. search_msgid (search_requests c i) = message_id (hd message)) [0..n_search_requests c - 1] = Some i"
    and "on_search_operation (search_requests c i) = Some callback"
  shows "\<exists>entries w. list_all2 (entry_of_message E) message entries \<and>
    search_on_read call E rc message c =
      do { (r, c1) \<leftarrow> call callback entries (search_user_data (search_requests c i)) (c\<lparr>world := w\<rparr>);
           c2 \<leftarrow> connection_remove_search_request c1 i;
           Some (r, c2) }"
proof -
  obtain w0 where w0: "alloc E c = (True, c\<lparr>world := w0\<rparr>)"
    using memory_ok_alloc [OF assms(2)] by blast
  obtain entries w where read: "read_messages E message [] 256 (c\<lparr>world := w0\<rparr>) =
        (Some ([] @ entries), c\<lparr>world := w0\<rparr>\<lparr>world := w\<rparr>)"
      "list_all2 (entry_of_message E) message entries"
    using read_messages_ok [OF assms(1,2,5), of "[]" 256 "c\<lparr>world := w0\<rparr>"] by blast
  then show ?thesis
    using assms(3,4,6-8) w0 by (intro exI [of _ entries] exI [of _ w]) (auto simp: search_on_read_def)
qed

text \<open>
  C11: The answer to a search reaches the callback of the first search request with its message id: every
  message of the answer becomes an entry, in order, with the DN and the attributes of that message. The
  callback's return code is the result, and that search request is removed after the callback.
\<close>

theorem search_answer_delivered:
  assumes "glib_ok E" and "memory_ok E" and "has_handle c" and "message \<noteq> []"
    and "\<forall>m \<in> set message. message_dn m \<noteq> None"
    and "rc = LDAP_RES_SEARCH_ENTRY \<or> rc = LDAP_RES_SEARCH_RESULT"
    and "find (\<lambda>i. search_msgid (search_requests c i) = message_id (hd message)) [0..n_search_requests c - 1] = Some i"
    and "on_search_operation (search_requests c i) = Some callback"
  shows "\<exists>entries w. list_all2 (entry_of_message E) message entries \<and>
    search_on_read call E rc message c =
      do { (r, c1) \<leftarrow> call callback entries (search_user_data (search_requests c i)) (c\<lparr>world := w\<rparr>);
           c2 \<leftarrow> connection_remove_search_request c1 i;
           Some (r, c2) }"
  by (rule search_delivered [OF assms])

lemma search_answer_delivered_witness:
  "\<exists>entries w. list_all2 (entry_of_message demo_ext)
      [\<lparr>message_id = 11, message_dn = Some ''dc=b'', message_attributes = [(''cn'', [''x''])]\<rparr>] entries \<and>
    search_on_read (\<lambda>_ _ _ c. Some (RETURN_CODE_SUCCESS, c)) demo_ext 100
      [\<lparr>message_id = 11, message_dn = Some ''dc=b'', message_attributes = [(''cn'', [''x''])]\<rparr>] three_searches =
    do { c2 \<leftarrow> connection_remove_search_request (three_searches\<lparr>world := w\<rparr>) 1; Some (RETURN_CODE_SUCCESS, c2) }"
  using search_answer_delivered [of demo_ext three_searches
      "[\<lparr>message_id = 11, message_dn = Some ''dc=b'', message_attributes = [(''cn'', [''x''])]\<rparr>]" 100 1
      PRINT_SEARCH_CALLBACK "\<lambda>_ _ _ c. Some (RETURN_CODE_SUCCESS, c)"]
  by (simp add: three_searches_def upto_rec1)

text \<open>
  An answer that cannot be delivered fails: with no matching search request the application's error
  callback is told, with a removed callback or with a message that has no DN it is not, and the search
  request stays in the table.
\<close>

theorem search_answer_not_delivered:
  assumes "message = m # ms" and "rc = LDAP_RES_SEARCH_ENTRY \<or> rc = LDAP_RES_SEARCH_RESULT"
    and "callback_returns E c" and "has_handle c"
  shows "case find (\<lambda>i. search_msgid (search_requests c i) = message_id m) [0..n_search_requests c - 1] of
      None \<Rightarrow> map_option fst (search_on_read call E rc message c) = Some RETURN_CODE_FAILURE
    | Some i \<Rightarrow>
        on_search_operation (search_requests c i) = None \<or> message_dn m = None \<longrightarrow>
        (\<exists>w. search_on_read call E rc message c = Some (RETURN_CODE_FAILURE, c\<lparr>world := w\<rparr>))"
proof (cases "find (\<lambda>i. search_msgid (search_requests c i) = message_id m) [0..n_search_requests c - 1]")
  case None
  then show ?thesis
    using assms call_error_operation_returns [OF assms(3), of rc message "world c"]
    by (auto simp: search_on_read_def)
next
  case (Some i)
  have free: "\<exists>w. frees E n (d\<lparr>world := w'\<rparr>) = d\<lparr>world := w\<rparr>" for n and d :: "('a, 'b) conn" and w'
    by (induction n arbitrary: w') (auto simp: free_block_def split: prod.splits)
  have "\<exists>w. read_messages E message [] 256 (c\<lparr>world := w'\<rparr>) = (None, c\<lparr>world := w\<rparr>)" if "message_dn m = None" for w'
    using assms(1) that free [of 1 w' c] by (simp add: ld_entry_new_def)
  then obtain w2 where read: "\<And>w'. message_dn m = None \<Longrightarrow>
      read_messages E message [] 256 (c\<lparr>world := w'\<rparr>) = (None, c\<lparr>world := w2 w'\<rparr>)"
    by metis
  obtain ok w1 where w1: "alloc E c = (ok, c\<lparr>world := w1\<rparr>)"
    by (cases "talloc E (world c)") (auto simp: alloc_def)
  show ?thesis
  proof (cases "on_search_operation (search_requests c i)")
    case None
    have "search_on_read call E rc message c = Some (RETURN_CODE_FAILURE, c\<lparr>world := world c\<rparr>)"
      using assms(1,2) Some None by (auto simp: search_on_read_def)
    then have "\<exists>w. search_on_read call E rc message c = Some (RETURN_CODE_FAILURE, c\<lparr>world := w\<rparr>)" ..
    then show ?thesis using Some by simp
  next
    case callback: (Some cb)
    have "search_on_read call E rc message c =
        Some (RETURN_CODE_FAILURE, c\<lparr>world := if ok then w2 w1 else w1\<rparr>)" if "message_dn m = None"
      using assms(1,2,4) Some callback w1 read [OF that, of w1] by (auto simp: search_on_read_def)
    then show ?thesis using Some callback by auto
  qed
qed

lemma search_answer_not_delivered_witness:
  "map_option fst (search_on_read (\<lambda>_ _ _ c. Some (RETURN_CODE_SUCCESS, c)) demo_ext 101
     [\<lparr>message_id = 7, message_dn = None, message_attributes = []\<rparr>] demo_conn) = Some RETURN_CODE_FAILURE"
  using search_answer_not_delivered [of "[\<lparr>message_id = 7, message_dn = None, message_attributes = []\<rparr>]" _ "[]"
      101 demo_ext demo_conn "\<lambda>_ _ _ c. Some (RETURN_CODE_SUCCESS, c)"]
  by (simp add: callback_returns_def)

end
