(* ===== verification/Schema.thy ===== *)
theory Schema
  imports Entry
begin

text \<open>
  The schema store of \<open>src/src/schema.c\<close>: four hash tables, attribute types and object classes by OID
  and by name. Schemas live in the connection's store \<open>schemas\<close>; the operations here work on one
  schema. The lemmas describe appending and looking up, the return codes included.
\<close>

section \<open>Creation\<close>

text \<open>
  \<open>ldap_schema_new\<close>: \<open>None\<close> is NULL. The first two tables are created and tested together, then the
  other two.
\<close>

definition new_table :: "('w, 'h) ext \<Rightarrow> ('w, 'h) conn \<Rightarrow> 'h option \<times> ('w, 'h) conn" where
  "new_table E c = (let (h, w) = g_hash_table_new E (world c) in (h, c\<lparr>world := w\<rparr>))"

definition ldap_schema_new ::
  "('w, 'h) ext \<Rightarrow> bool \<Rightarrow> ('w, 'h) conn \<Rightarrow> 'h ldap_schema option \<times> ('w, 'h) conn" where
  "ldap_schema_new E ctx c =
     (if \<not> ctx then (None, c)
      else let (ok, c1) = alloc E c in
        if \<not> ok then (None, c1)
        else let (at_oids, c2) = new_table E c1; (at_nms, c3) = new_table E c2 in
          if at_oids = None \<or> at_nms = None then (None, snd (free_block E c3))
          else let (oc_oids, c4) = new_table E c3; (oc_nms, c5) = new_table E c4 in
            if oc_oids = None \<or> oc_nms = None then (None, snd (free_block E c5))
            else (Some \<lparr>object_classes_by_oid = oc_oids, object_classes_by_name = oc_nms,
                        attribute_types_by_oid = at_oids, attribute_types_by_name = at_nms\<rparr>, c5))"

section \<open>Lists of all elements\<close>

definition table_values :: "('w, 'h) ext \<Rightarrow> 'h \<Rightarrow> gvalue list" where
  "table_values E t = map snd (g_hash_table_entries E t)"

definition ldap_schema_object_classes ::
  "('w, 'h) ext \<Rightarrow> 'h ldap_schema option \<Rightarrow> ('w, 'h) conn \<Rightarrow> gvalue list option \<times> ('w, 'h) conn" where
  "ldap_schema_object_classes E sch c =
     (case sch of
        None \<Rightarrow> (None, c)
      | Some s \<Rightarrow> (case object_classes_by_oid s of
            None \<Rightarrow> (None, c)
          | Some t \<Rightarrow> let (ok, c1) = alloc E c in (if ok then Some (table_values E t) else None, c1)))"

definition ldap_schema_attribute_types ::
  "('w, 'h) ext \<Rightarrow> 'h ldap_schema option \<Rightarrow> ('w, 'h) conn \<Rightarrow> gvalue list option \<times> ('w, 'h) conn" where
  "ldap_schema_attribute_types E sch c =
     (case sch of
        None \<Rightarrow> (None, c)
      | Some s \<Rightarrow> (case attribute_types_by_oid s of
            None \<Rightarrow> (None, c)
          | Some t \<Rightarrow> let (ok, c1) = alloc E c in (if ok then Some (table_values E t) else None, c1)))"

section \<open>Lookup\<close>

definition class_in :: "('w, 'h) ext \<Rightarrow> 'h option \<Rightarrow> string \<Rightarrow> ldap_object_class option" where
  "class_in E table key =
     (case table of
        None \<Rightarrow> None
      | Some t \<Rightarrow> (case g_hash_table_lookup E t key of Some (ClassValue oc) \<Rightarrow> Some oc | _ \<Rightarrow> None))"

definition type_in :: "('w, 'h) ext \<Rightarrow> 'h option \<Rightarrow> string \<Rightarrow> ldap_attribute_type option" where
  "type_in E table key =
     (case table of
        None \<Rightarrow> None
      | Some t \<Rightarrow> (case g_hash_table_lookup E t key of Some (TypeValue ty) \<Rightarrow> Some ty | _ \<Rightarrow> None))"

definition ldap_schema_get_objectclass_by_oid ::
  "('w, 'h) ext \<Rightarrow> 'h ldap_schema option \<Rightarrow> string \<Rightarrow> ldap_object_class option" where
  "ldap_schema_get_objectclass_by_oid E sch oid =
     (case sch of None \<Rightarrow> None | Some s \<Rightarrow> class_in E (object_classes_by_oid s) oid)"

definition ldap_schema_get_objectclass_by_name ::
  "('w, 'h) ext \<Rightarrow> 'h ldap_schema option \<Rightarrow> string \<Rightarrow> ldap_object_class option" where
  "ldap_schema_get_objectclass_by_name E sch name =
     (case sch of None \<Rightarrow> None | Some s \<Rightarrow> class_in E (object_classes_by_name s) name)"

definition ldap_schema_get_attributetype_by_oid ::
  "('w, 'h) ext \<Rightarrow> 'h ldap_schema option \<Rightarrow> string \<Rightarrow> ldap_attribute_type option" where
  "ldap_schema_get_attributetype_by_oid E sch oid =
     (case sch of None \<Rightarrow> None | Some s \<Rightarrow> type_in E (attribute_types_by_oid s) oid)"

definition ldap_schema_get_attributetype_by_name ::
  "('w, 'h) ext \<Rightarrow> 'h ldap_schema option \<Rightarrow> string \<Rightarrow> ldap_attribute_type option" where
  "ldap_schema_get_attributetype_by_name E sch name =
     (case sch of None \<Rightarrow> None | Some s \<Rightarrow> type_in E (attribute_types_by_name s) name)"

section \<open>Appending\<close>

text \<open>
  Inserting one value under every name: the result of the last insertion is kept, as in the loop of
  \<open>ldap_schema_append_attributetype\<close>, where \<open>result\<close> is overwritten each time.
\<close>

fun insert_names :: "('w, 'h) ext \<Rightarrow> string list \<Rightarrow> gvalue \<Rightarrow> bool \<Rightarrow> 'h \<Rightarrow> bool \<times> 'h" where
  "insert_names E [] v result t = (result, t)"
| "insert_names E (n # ns) v result t =
     (let (fresh, t') = g_hash_table_insert E t n v in insert_names E ns v fresh t')"

text \<open>
  The parameters can be NULL and so can the OID and the array of names. The tables of the schema are
  not tested; inserting into a NULL table is undefined.
\<close>

definition ldap_schema_append_attributetype ::
  "('w, 'h) ext \<Rightarrow> 'h ldap_schema option \<Rightarrow> ldap_attribute_type option \<Rightarrow> (bool \<times> 'h ldap_schema option) option"
where
  "ldap_schema_append_attributetype E sch ty =
     (case (sch, ty) of
        (Some s, Some a) \<Rightarrow>
          (case (at_names a, at_oid a) of
             (Some names, Some oid) \<Rightarrow>
               do { oids \<leftarrow> attribute_types_by_oid s;
                    let (result, oids') = g_hash_table_insert E oids oid (TypeValue a);
                    if names = [] then Some (result, Some (s\<lparr>attribute_types_by_oid := Some oids'\<rparr>))
                    else do { nms \<leftarrow> attribute_types_by_name s;
                              let (result', nms') = insert_names E names (TypeValue a) result nms;
                              Some (result', Some (s\<lparr>attribute_types_by_oid := Some oids',
                                                     attribute_types_by_name := Some nms'\<rparr>)) } }
           | _ \<Rightarrow> Some (False, sch))
      | _ \<Rightarrow> Some (False, sch))"

definition ldap_schema_append_objectclass ::
  "('w, 'h) ext \<Rightarrow> 'h ldap_schema option \<Rightarrow> ldap_object_class option \<Rightarrow> (bool \<times> 'h ldap_schema option) option"
where
  "ldap_schema_append_objectclass E sch cls =
     (case (sch, cls) of
        (Some s, Some a) \<Rightarrow>
          (case (oc_names a, oc_oid a) of
             (Some names, Some oid) \<Rightarrow>
               do { oids \<leftarrow> object_classes_by_oid s;
                    let (result, oids') = g_hash_table_insert E oids oid (ClassValue a);
                    if names = [] then Some (result, Some (s\<lparr>object_classes_by_oid := Some oids'\<rparr>))
                    else do { nms \<leftarrow> object_classes_by_name s;
                              let (result', nms') = insert_names E names (ClassValue a) result nms;
                              Some (result', Some (s\<lparr>object_classes_by_oid := Some oids',
                                                     object_classes_by_name := Some nms'\<rparr>)) } }
           | _ \<Rightarrow> Some (False, sch))
      | _ \<Rightarrow> Some (False, sch))"

text \<open>\<open>ldap_schema_ready\<close>: only an OpenLDAP directory is asked for a non-empty schema.\<close>

definition ldap_schema_ready :: "('w, 'h) ext \<Rightarrow> ('w, 'h) conn \<Rightarrow> bool option" where
  "ldap_schema_ready E c =
     (if directory_type c = LDAP_TYPE_OPENLDAP then
        do { p \<leftarrow> schema c;
             s \<leftarrow> schemas c p;
             oc \<leftarrow> object_classes_by_oid s;
             if g_hash_table_size E oc > 0
             then do { ty \<leftarrow> attribute_types_by_oid s; Some (g_hash_table_size E ty > 0) }
             else Some False }
      else Some True)"

section \<open>The schema as two pairs of maps\<close>

definition has_tables :: "'h ldap_schema \<Rightarrow> bool" where
  "has_tables s \<longleftrightarrow> object_classes_by_oid s \<noteq> None \<and> object_classes_by_name s \<noteq> None \<and>
     attribute_types_by_oid s \<noteq> None \<and> attribute_types_by_name s \<noteq> None"

definition unbound :: "('w, 'h) ext \<Rightarrow> 'h option \<Rightarrow> string \<Rightarrow> bool" where
  "unbound E table key \<longleftrightarrow> (case table of None \<Rightarrow> True | Some t \<Rightarrow> g_hash_table_lookup E t key = None)"

lemma insert_names_spec:
  assumes "glib_ok E" and "insert_names E ns v r t = (r', t')"
  shows "(\<forall>n. g_hash_table_lookup E t' n = (if n \<in> set ns then Some v else g_hash_table_lookup E t n)) \<and>
    r' = (if ns = [] then r else last ns \<notin> set (butlast ns) \<and> g_hash_table_lookup E t (last ns) = None)"
  using assms(2)
proof (induction ns arbitrary: r t)
  case Nil
  then show ?case by simp
next
  case (Cons n ns)
  obtain fresh t1 where ins: "g_hash_table_insert E t n v = (fresh, t1)" by fastforce
  have look: "g_hash_table_lookup E t1 k = (if k = n then Some v else g_hash_table_lookup E t k)" for k
    using glib_lookup_insert [OF assms(1), of t n v k] ins by simp
  have fresh: "fresh \<longleftrightarrow> g_hash_table_lookup E t n = None"
    using glib_insert_new [OF assms(1), of t n v] ins by simp
  have "insert_names E ns v fresh t1 = (r', t')"
    using Cons.prems ins by simp
  note IH = Cons.IH [OF this]
  show ?case
    using IH look fresh by (cases "ns = []") auto
qed

lemma ldap_schema_new_ok:
  assumes "ldap_schema_new E ctx c = (Some s, c')"
  shows "has_tables s"
  using assms by (auto simp: ldap_schema_new_def has_tables_def Let_def split: prod.splits if_splits)

lemma class_in_unbound: "unbound E t k \<Longrightarrow> class_in E t k = None"
  by (auto simp: unbound_def class_in_def split: option.splits)

definition type_key :: "ldap_attribute_type option \<Rightarrow> (string \<times> string list) option" where
  "type_key ty = do { a \<leftarrow> ty; oid \<leftarrow> at_oid a; names \<leftarrow> at_names a; Some (oid, names) }"

definition class_key :: "ldap_object_class option \<Rightarrow> (string \<times> string list) option" where
  "class_key cls = do { a \<leftarrow> cls; oid \<leftarrow> oc_oid a; names \<leftarrow> oc_names a; Some (oid, names) }"

definition demo_schema :: "demo_table ldap_schema" where
  "demo_schema = \<lparr>object_classes_by_oid = Some DAList.empty, object_classes_by_name = Some DAList.empty,
     attribute_types_by_oid = Some DAList.empty, attribute_types_by_name = Some DAList.empty\<rparr>"

lemma append_attributetype_spec:
  assumes glib: "glib_ok E" and tables: "has_tables s"
  shows "\<exists>r s'. ldap_schema_append_attributetype E (Some s) ty = Some (r, Some s') \<and>
    (case type_key ty of
       Some (oid, names) \<Rightarrow>
         (\<forall>k. ldap_schema_get_attributetype_by_oid E (Some s') k =
            (if k = oid then ty else ldap_schema_get_attributetype_by_oid E (Some s) k)) \<and>
         (\<forall>k. ldap_schema_get_attributetype_by_name E (Some s') k =
            (if k \<in> set names then ty else ldap_schema_get_attributetype_by_name E (Some s) k)) \<and>
         object_classes_by_oid s' = object_classes_by_oid s \<and>
         object_classes_by_name s' = object_classes_by_name s \<and>
         has_tables s' \<and>
         (\<forall>k. unbound E (attribute_types_by_name s') k \<longleftrightarrow> k \<notin> set names \<and> unbound E (attribute_types_by_name s) k) \<and>
         r = (if names = [] then unbound E (attribute_types_by_oid s) oid
              else last names \<notin> set (butlast names) \<and> unbound E (attribute_types_by_name s) (last names))
     | None \<Rightarrow> \<not> r \<and> s' = s)"
proof -
  obtain oids nms where t: "attribute_types_by_oid s = Some oids" "attribute_types_by_name s = Some nms"
    using tables by (auto simp: has_tables_def)
  show ?thesis
  proof (cases "type_key ty")
    case None
    then show ?thesis
      by (auto simp: ldap_schema_append_attributetype_def type_key_def split: option.splits)
  next
    case key: (Some on)
    obtain oid names a where given: "on = (oid, names)" "ty = Some a" "at_oid a = Some oid" "at_names a = Some names"
      using key by (auto simp: type_key_def elim!: bind_SomeE)
    obtain f oids' where ins: "g_hash_table_insert E oids oid (TypeValue (the ty)) = (f, oids')" by fastforce
    obtain f' nms' where nins: "insert_names E names (TypeValue (the ty)) f nms = (f', nms')" by fastforce
    have look: "g_hash_table_lookup E oids' k = (if k = oid then Some (TypeValue (the ty)) else g_hash_table_lookup E oids k)" for k
      using glib_lookup_insert [OF glib, of oids oid "TypeValue (the ty)" k] ins by simp
    have fresh: "f \<longleftrightarrow> g_hash_table_lookup E oids oid = None"
      using glib_insert_new [OF glib, of oids oid "TypeValue (the ty)"] ins by simp
    note names = insert_names_spec [OF glib nins]
    show ?thesis
      using tables key given t ins nins look fresh names
      by (cases "names = []")
        (auto simp: ldap_schema_append_attributetype_def ldap_schema_get_attributetype_by_oid_def
          ldap_schema_get_attributetype_by_name_def type_in_def unbound_def has_tables_def)
  qed
qed

text \<open>
  Appending an attribute type makes it the one found under its OID and under each of its names, and
  changes no other binding and no object class. The result says only whether the \<^emph>\<open>last\<close> insertion met
  an unbound key: a second description with a known last name replaces the first and is reported as an
  error. A NULL type, or one without OID or names, is refused and changes nothing.
\<close>

theorem append_attributetype_then_get:
  assumes glib: "glib_ok E" and tables: "has_tables s"
  shows "\<exists>r s'. ldap_schema_append_attributetype E (Some s) ty = Some (r, Some s') \<and>
    (case type_key ty of
       Some (oid, names) \<Rightarrow>
         (\<forall>k. ldap_schema_get_attributetype_by_oid E (Some s') k =
            (if k = oid then ty else ldap_schema_get_attributetype_by_oid E (Some s) k)) \<and>
         (\<forall>k. ldap_schema_get_attributetype_by_name E (Some s') k =
            (if k \<in> set names then ty else ldap_schema_get_attributetype_by_name E (Some s) k)) \<and>
         object_classes_by_oid s' = object_classes_by_oid s \<and>
         object_classes_by_name s' = object_classes_by_name s \<and>
         r = (if names = [] then unbound E (attribute_types_by_oid s) oid
              else last names \<notin> set (butlast names) \<and> unbound E (attribute_types_by_name s) (last names))
     | None \<Rightarrow> \<not> r \<and> s' = s)"
  using append_attributetype_spec [OF assms, of ty] by (fastforce split: option.splits)

lemma append_attributetype_then_get_witness:
  "\<exists>s'. ldap_schema_append_attributetype demo_ext (Some demo_schema)
      (Some (zero_attribute_type\<lparr>at_oid := Some ''2.5.4.3'', at_names := Some [''cn'', ''commonName'']\<rparr>)) = Some (True, Some s') \<and>
    ldap_schema_get_attributetype_by_name demo_ext (Some s') ''commonName'' =
      Some (zero_attribute_type\<lparr>at_oid := Some ''2.5.4.3'', at_names := Some [''cn'', ''commonName'']\<rparr>)"
proof -
  have "has_tables demo_schema" by (simp add: has_tables_def demo_schema_def)
  then show ?thesis
    using append_attributetype_then_get [of demo_ext demo_schema
        "Some (zero_attribute_type\<lparr>at_oid := Some ''2.5.4.3'', at_names := Some [''cn'', ''commonName'']\<rparr>)"]
    by (auto simp: type_key_def unbound_def demo_schema_def)
qed

lemma append_objectclass_spec:
  assumes glib: "glib_ok E" and tables: "has_tables s"
  shows "\<exists>r s'. ldap_schema_append_objectclass E (Some s) cls = Some (r, Some s') \<and>
    (case class_key cls of
       Some (oid, names) \<Rightarrow>
         (\<forall>k. ldap_schema_get_objectclass_by_oid E (Some s') k =
            (if k = oid then cls else ldap_schema_get_objectclass_by_oid E (Some s) k)) \<and>
         (\<forall>k. ldap_schema_get_objectclass_by_name E (Some s') k =
            (if k \<in> set names then cls else ldap_schema_get_objectclass_by_name E (Some s) k)) \<and>
         attribute_types_by_oid s' = attribute_types_by_oid s \<and>
         attribute_types_by_name s' = attribute_types_by_name s \<and>
         has_tables s' \<and>
         (\<forall>k. unbound E (object_classes_by_name s') k \<longleftrightarrow> k \<notin> set names \<and> unbound E (object_classes_by_name s) k) \<and>
         r = (if names = [] then unbound E (object_classes_by_oid s) oid
              else last names \<notin> set (butlast names) \<and> unbound E (object_classes_by_name s) (last names))
     | None \<Rightarrow> \<not> r \<and> s' = s)"
proof -
  obtain oids nms where t: "object_classes_by_oid s = Some oids" "object_classes_by_name s = Some nms"
    using tables by (auto simp: has_tables_def)
  show ?thesis
  proof (cases "class_key cls")
    case None
    then show ?thesis
      by (auto simp: ldap_schema_append_objectclass_def class_key_def split: option.splits)
  next
    case key: (Some on)
    obtain oid names a where given: "on = (oid, names)" "cls = Some a" "oc_oid a = Some oid" "oc_names a = Some names"
      using key by (auto simp: class_key_def elim!: bind_SomeE)
    obtain f oids' where ins: "g_hash_table_insert E oids oid (ClassValue (the cls)) = (f, oids')" by fastforce
    obtain f' nms' where nins: "insert_names E names (ClassValue (the cls)) f nms = (f', nms')" by fastforce
    have look: "g_hash_table_lookup E oids' k = (if k = oid then Some (ClassValue (the cls)) else g_hash_table_lookup E oids k)" for k
      using glib_lookup_insert [OF glib, of oids oid "ClassValue (the cls)" k] ins by simp
    have fresh: "f \<longleftrightarrow> g_hash_table_lookup E oids oid = None"
      using glib_insert_new [OF glib, of oids oid "ClassValue (the cls)"] ins by simp
    note names = insert_names_spec [OF glib nins]
    show ?thesis
      using tables key given t ins nins look fresh names
      by (cases "names = []")
        (auto simp: ldap_schema_append_objectclass_def ldap_schema_get_objectclass_by_oid_def
          ldap_schema_get_objectclass_by_name_def class_in_def unbound_def has_tables_def)
  qed
qed

text \<open>
  Appending an object class does the same to the two tables of object classes and leaves the
  attribute types alone.
\<close>

theorem append_objectclass_then_get:
  assumes glib: "glib_ok E" and tables: "has_tables s"
  shows "\<exists>r s'. ldap_schema_append_objectclass E (Some s) cls = Some (r, Some s') \<and>
    (case class_key cls of
       Some (oid, names) \<Rightarrow>
         (\<forall>k. ldap_schema_get_objectclass_by_oid E (Some s') k =
            (if k = oid then cls else ldap_schema_get_objectclass_by_oid E (Some s) k)) \<and>
         (\<forall>k. ldap_schema_get_objectclass_by_name E (Some s') k =
            (if k \<in> set names then cls else ldap_schema_get_objectclass_by_name E (Some s) k)) \<and>
         attribute_types_by_oid s' = attribute_types_by_oid s \<and>
         attribute_types_by_name s' = attribute_types_by_name s \<and>
         r = (if names = [] then unbound E (object_classes_by_oid s) oid
              else last names \<notin> set (butlast names) \<and> unbound E (object_classes_by_name s) (last names))
     | None \<Rightarrow> \<not> r \<and> s' = s)"
  using append_objectclass_spec [OF assms, of cls] by (fastforce split: option.splits)

lemma append_objectclass_then_get_witness:
  "\<exists>s'. ldap_schema_append_objectclass demo_ext (Some demo_schema)
      (Some (zero_object_class\<lparr>oc_oid := Some ''2.5.6.6'', oc_names := Some [''person'', ''person2'']\<rparr>)) = Some (True, Some s') \<and>
    ldap_schema_get_objectclass_by_name demo_ext (Some s') ''person2'' =
      Some (zero_object_class\<lparr>oc_oid := Some ''2.5.6.6'', oc_names := Some [''person'', ''person2'']\<rparr>)"
proof -
  have "has_tables demo_schema" by (simp add: has_tables_def demo_schema_def)
  then show ?thesis
    using append_objectclass_then_get [of demo_ext demo_schema
        "Some (zero_object_class\<lparr>oc_oid := Some ''2.5.6.6'', oc_names := Some [''person'', ''person2'']\<rparr>)"]
    by (auto simp: class_key_def unbound_def demo_schema_def)
qed

text \<open>
  The schema of an OpenLDAP directory counts as ready exactly when at least one object class and at
  least one attribute type have been stored; for every other kind of directory it always does.
\<close>

theorem schema_ready_iff:
  assumes "glib_ok E" and "schema c = Some p" and "schemas c p = Some s" and "has_tables s"
  shows "ldap_schema_ready E c = Some
    (directory_type c \<noteq> LDAP_TYPE_OPENLDAP \<or>
     (\<exists>k. \<not> unbound E (object_classes_by_oid s) k) \<and> (\<exists>k. \<not> unbound E (attribute_types_by_oid s) k))"
proof -
  obtain oc ty where t: "object_classes_by_oid s = Some oc" "attribute_types_by_oid s = Some ty"
    using assms(4) by (auto simp: has_tables_def)
  have "g_hash_table_size E h > 0 \<longleftrightarrow> (\<exists>k. \<not> unbound E (Some h) k)" for h
    using glib_size_0 [OF assms(1), of h] by (auto simp: unbound_def)
  then show ?thesis
    using assms(2,3) t by (auto simp: ldap_schema_ready_def)
qed

lemma schema_ready_iff_witness:
  "ldap_schema_ready demo_ext (demo_conn\<lparr>directory_type := LDAP_TYPE_OPENLDAP\<rparr>) = Some False"
proof -
  have "schema (demo_conn\<lparr>directory_type := LDAP_TYPE_OPENLDAP\<rparr>) = Some 0"
    "schemas (demo_conn\<lparr>directory_type := LDAP_TYPE_OPENLDAP\<rparr>) 0 = Some demo_schema" "has_tables demo_schema"
    by (simp_all add: demo_conn_def demo_schema_def has_tables_def)
  then show ?thesis
    using schema_ready_iff [of demo_ext "demo_conn\<lparr>directory_type := LDAP_TYPE_OPENLDAP\<rparr>" 0 demo_schema]
    by (simp add: unbound_def demo_schema_def)
qed

section \<open>The contract of one half of the store\<close>

text \<open>
  Attribute types and object classes are kept in the same way. \<open>element_store\<close> is the contract of one half:
  appending a complete element, one with an OID and at least one name, makes it the one found under its OID
  and its names, keeps the other half (\<open>others\<close>), and reports whether the last name was new.
\<close>

definition oid_of :: "ldap_attribute_type \<Rightarrow> string" where "oid_of ty = the (at_oid ty)"

definition names_of :: "ldap_attribute_type \<Rightarrow> string list" where "names_of ty = the (at_names ty)"

definition complete_type :: "ldap_attribute_type \<Rightarrow> bool" where
  "complete_type ty \<longleftrightarrow> at_oid ty \<noteq> None \<and> at_names ty \<noteq> None \<and> names_of ty \<noteq> []"

definition class_oid_of :: "ldap_object_class \<Rightarrow> string" where "class_oid_of cls = the (oc_oid cls)"

definition class_names_of :: "ldap_object_class \<Rightarrow> string list" where "class_names_of cls = the (oc_names cls)"

definition complete_class :: "ldap_object_class \<Rightarrow> bool" where
  "complete_class cls \<longleftrightarrow> oc_oid cls \<noteq> None \<and> oc_names cls \<noteq> None \<and> class_names_of cls \<noteq> []"

lemma type_key_complete: "complete_type ty \<Longrightarrow> type_key (Some ty) = Some (oid_of ty, names_of ty)"
  by (auto simp: complete_type_def type_key_def oid_of_def names_of_def)

lemma class_key_complete: "complete_class cls \<Longrightarrow> class_key (Some cls) = Some (class_oid_of cls, class_names_of cls)"
  by (auto simp: complete_class_def class_key_def class_oid_of_def class_names_of_def)

locale element_store =
  fixes E :: "('w, 'h) ext"
    and append :: "'h ldap_schema \<Rightarrow> 'a \<Rightarrow> (bool \<times> 'h ldap_schema option) option"
    and complete :: "'a \<Rightarrow> bool" and oid :: "'a \<Rightarrow> string" and names :: "'a \<Rightarrow> string list"
    and by_oid by_name :: "'h ldap_schema \<Rightarrow> string \<Rightarrow> 'a option"
    and name_free :: "'h ldap_schema \<Rightarrow> string \<Rightarrow> bool"
    and others :: "'h ldap_schema \<Rightarrow> 'h option \<times> 'h option"
  assumes named: "complete x \<Longrightarrow> names x \<noteq> []"
    and append: "glib_ok E \<Longrightarrow> has_tables s \<Longrightarrow> complete x \<Longrightarrow>
      \<exists>s'. append s x = Some (last (names x) \<notin> set (butlast (names x)) \<and> name_free s (last (names x)), Some s') \<and>
        has_tables s' \<and> others s' = others s \<and>
        (\<forall>k. by_oid s' k = (if k = oid x then Some x else by_oid s k)) \<and>
        (\<forall>k. by_name s' k = (if k \<in> set (names x) then Some x else by_name s k)) \<and>
        (\<forall>k. name_free s' k \<longleftrightarrow> k \<notin> set (names x) \<and> name_free s k)"
begin

text \<open>An element whose names are all new and different is stored and reported as such.\<close>

lemma append_new:
  assumes "glib_ok E" and "has_tables s" and "complete x"
    and "distinct (names x)" and "\<forall>n \<in> set (names x). name_free s n"
  obtains s' where "append s x = Some (True, Some s')" and "has_tables s'" and "others s' = others s"
    and "\<And>k. by_oid s' k = (if k = oid x then Some x else by_oid s k)"
    and "\<And>k. by_name s' k = (if k \<in> set (names x) then Some x else by_name s k)"
    and "\<And>k. name_free s' k \<longleftrightarrow> k \<notin> set (names x) \<and> name_free s k"
proof -
  obtain ns n where "names x = ns @ [n]"
    using named [OF assms(3)] by (cases "names x" rule: rev_exhaust) auto
  then have "last (names x) \<notin> set (butlast (names x)) \<and> name_free s (last (names x))"
    using assms(4,5) by auto
  then show thesis using append [OF assms(1-3)] that by auto
qed

end

interpretation types: element_store E "\<lambda>s ty. ldap_schema_append_attributetype E (Some s) (Some ty)"
    complete_type oid_of names_of "\<lambda>s. ldap_schema_get_attributetype_by_oid E (Some s)"
    "\<lambda>s. ldap_schema_get_attributetype_by_name E (Some s)" "\<lambda>s. unbound E (attribute_types_by_name s)"
    "\<lambda>s. (object_classes_by_oid s, object_classes_by_name s)"
  for E :: "('w, 'h) ext"
proof unfold_locales
  show "names_of ty \<noteq> []" if "complete_type ty" for ty
    using that by (simp add: complete_type_def)
  show "\<exists>s'. ldap_schema_append_attributetype E (Some s) (Some ty) =
        Some (last (names_of ty) \<notin> set (butlast (names_of ty)) \<and> unbound E (attribute_types_by_name s) (last (names_of ty)), Some s') \<and>
      has_tables s' \<and>
      (object_classes_by_oid s', object_classes_by_name s') = (object_classes_by_oid s, object_classes_by_name s) \<and>
      (\<forall>k. ldap_schema_get_attributetype_by_oid E (Some s') k =
        (if k = oid_of ty then Some ty else ldap_schema_get_attributetype_by_oid E (Some s) k)) \<and>
      (\<forall>k. ldap_schema_get_attributetype_by_name E (Some s') k =
        (if k \<in> set (names_of ty) then Some ty else ldap_schema_get_attributetype_by_name E (Some s) k)) \<and>
      (\<forall>k. unbound E (attribute_types_by_name s') k \<longleftrightarrow> k \<notin> set (names_of ty) \<and> unbound E (attribute_types_by_name s) k)"
    if "glib_ok E" "has_tables s" "complete_type ty" for s ty
    using append_attributetype_spec [OF that(1,2), of "Some ty"] type_key_complete [OF that(3)] that(3)
    by (auto simp: complete_type_def)
qed

interpretation classes: element_store E "\<lambda>s cls. ldap_schema_append_objectclass E (Some s) (Some cls)"
    complete_class class_oid_of class_names_of "\<lambda>s. ldap_schema_get_objectclass_by_oid E (Some s)"
    "\<lambda>s. ldap_schema_get_objectclass_by_name E (Some s)" "\<lambda>s. unbound E (object_classes_by_name s)"
    "\<lambda>s. (attribute_types_by_oid s, attribute_types_by_name s)"
  for E :: "('w, 'h) ext"
proof unfold_locales
  show "class_names_of cls \<noteq> []" if "complete_class cls" for cls
    using that by (simp add: complete_class_def)
  show "\<exists>s'. ldap_schema_append_objectclass E (Some s) (Some cls) =
        Some (last (class_names_of cls) \<notin> set (butlast (class_names_of cls)) \<and> unbound E (object_classes_by_name s) (last (class_names_of cls)), Some s') \<and>
      has_tables s' \<and>
      (attribute_types_by_oid s', attribute_types_by_name s') = (attribute_types_by_oid s, attribute_types_by_name s) \<and>
      (\<forall>k. ldap_schema_get_objectclass_by_oid E (Some s') k =
        (if k = class_oid_of cls then Some cls else ldap_schema_get_objectclass_by_oid E (Some s) k)) \<and>
      (\<forall>k. ldap_schema_get_objectclass_by_name E (Some s') k =
        (if k \<in> set (class_names_of cls) then Some cls else ldap_schema_get_objectclass_by_name E (Some s) k)) \<and>
      (\<forall>k. unbound E (object_classes_by_name s') k \<longleftrightarrow> k \<notin> set (class_names_of cls) \<and> unbound E (object_classes_by_name s) k)"
    if "glib_ok E" "has_tables s" "complete_class cls" for s cls
    using append_objectclass_spec [OF that(1,2), of "Some cls"] class_key_complete [OF that(3)] that(3)
    by (auto simp: complete_class_def)
qed

end
