(* ===== verification/Description_Parsing.thy ===== *)
theory Description_Parsing
  imports Ragel_Actions Schema "HOL-Library.Sublist"
begin

text \<open>
  What the two parsers for schema descriptions of \<open>src/src/parsers\<close> have in common: the rules of the
  grammar that both files repeat, the ways their actions store a symbol, the run of a trace of
  actions, and a calculus for reading a description piece by piece.
\<close>

section \<open>The rules both files share\<close>

definition DIGIT :: rl where "DIGIT = RAlt (byte 48) (rng 49 57)"

definition LDIGIT :: rl where "LDIGIT = rng 49 57"

definition keystring :: rl where
  "keystring = RSeq (RCls [(65, 90), (97, 122)]) (RStar (alts [RCls [(65, 90), (97, 122)], DIGIT, byte 45]))"

definition whsp :: rl where "whsp = RStar (byte 32)"

definition number_rule :: rl where "number_rule = RAlt DIGIT (RSeq LDIGIT (rplus DIGIT))"

definition numericoid :: rl where "numericoid = RSeq number_rule (rplus (RSeq (byte 46) number_rule))"

text \<open>\<open>qdescr = whsp "'" %start descr %name_end "'" whsp\<close>, and lists of them.\<close>

definition qdescr :: "'a \<Rightarrow> 'a \<Rightarrow> 'a ra" where
  "qdescr start name_end =
     aseqs [APure whsp, ALeave start (APure (byte 39)), ALeave name_end (APure keystring), APure (byte 39), APure whsp]"

definition qdescrs :: "'a \<Rightarrow> 'a \<Rightarrow> 'a ra" where
  "qdescrs start name_end =
     (let q = qdescr start name_end
      in AAlt q (aseqs [APure whsp, APure (byte 40), aopt (ASeq q (AStar q)), APure (byte 41), APure whsp]))"

lemmas grammar_defs = qdescrs_def qdescr_def whsp_def numericoid_def number_rule_def keystring_def DIGIT_def LDIGIT_def
  Let_def

section \<open>Storing a symbol\<close>

definition strndup :: "('w, 'h) ext \<Rightarrow> string \<Rightarrow> nat \<Rightarrow> nat \<Rightarrow> ('w, 'h) conn \<Rightarrow> string option \<times> ('w, 'h) conn" where
  "strndup E inp start p c =
     (let (ok, c1) = alloc E c in (if ok then Some (take (p - start) (drop start inp)) else None, c1))"

text \<open>
  \<open>arr = talloc_realloc(..., index + 2); arr[index] = talloc_strndup(...); index++; arr[index] = NULL\<close>:
  undefined when the array cannot grow.
\<close>

definition push_symbol ::
  "('w, 'h) ext \<Rightarrow> string \<Rightarrow> nat \<Rightarrow> nat \<Rightarrow> string option list option \<Rightarrow> nat \<Rightarrow> ('w, 'h) conn \<Rightarrow>
     (string option list \<times> nat \<times> ('w, 'h) conn) option" where
  "push_symbol E inp start p slots index c =
     (let (ok, c1) = alloc E c
      in if \<not> ok then None
         else let (s, c2) = strndup E inp start p c1
              in Some (take index (case slots of None \<Rightarrow> [] | Some xs \<Rightarrow> xs) @ [s], index + 1, c2))"

definition c_strings :: "string option list option \<Rightarrow> string list option" where
  "c_strings slots = map_option (\<lambda>xs. map the (takeWhile (\<lambda>x. x \<noteq> None) xs)) slots"

lemma c_strings_full [simp]: "c_strings (Some (map Some ns)) = Some ns" and c_strings_None [simp]: "c_strings None = None"
  by (simp_all add: c_strings_def takeWhile_map comp_def)

fun exec_trace :: "('a \<Rightarrow> 's \<Rightarrow> 's option) \<Rightarrow> 'a list \<Rightarrow> 's \<Rightarrow> 's option" where
  "exec_trace ex [] s = Some s"
| "exec_trace ex (a # tr) s = do { s1 \<leftarrow> ex a s; exec_trace ex tr s1 }"

text \<open>Whatever memory does, storing symbols changes of the connection only the world.\<close>

lemma strndup_same: "strndup E inp start p c = (x, c') \<Longrightarrow> same_but_world c c'"
  by (auto simp: strndup_def dest: alloc_same split: prod.splits)

lemma push_symbol_same: "push_symbol E inp start p slots index c = Some (xs, k, c') \<Longrightarrow> same_but_world c c'"
  by (auto simp: push_symbol_def Let_def split: prod.splits if_splits
      intro: same_but_world_trans [OF alloc_same strndup_same])

lemma exec_trace_same:
  assumes "\<And>a s v c s' v' c'. ex a (s, v, c) = Some (s', v', c') \<Longrightarrow> same_but_world c c'"
    and "exec_trace ex tr (s, v, c) = Some (s', v', c')"
  shows "same_but_world c c'"
  using assms(2)
proof (induction tr arbitrary: s v c)
  case Nil
  then show ?case by simp
next
  case (Cons a tr)
  then obtain s1 v1 c1 where "ex a (s, v, c) = Some (s1, v1, c1)" "exec_trace ex tr (s1, v1, c1) = Some (s', v', c')"
    by (auto elim!: bind_SomeE)
  then show ?case using Cons.IH assms(1) same_but_world_trans by blast
qed

section \<open>Reading a description piece by piece\<close>

text \<open>
  \<open>reads ex S rest g\<close>: from the state \<open>S\<close>, at whatever position \<open>rest\<close> stands in the buffer, the machine
  accepts \<open>rest\<close>, and the actions it runs change the variables by \<open>g\<close> and of the connection only the
  world. \<open>stores ex en upd\<close>: \<open>en\<close> on a nonempty symbol \<open>w\<close> changes the variables by \<open>upd w\<close>.
\<close>

type_synonym ('a, 'v, 'w, 'h) action_exec =
  "string \<Rightarrow> 'a \<times> nat \<Rightarrow> nat \<times> 'v \<times> ('w, 'h) conn \<Rightarrow> (nat \<times> 'v \<times> ('w, 'h) conn) option"

definition reads ::
  "('a, 'v, 'w, 'h) action_exec \<Rightarrow> (nat \<times> 'a) ra list \<Rightarrow> string \<Rightarrow> ('v \<Rightarrow> 'v) \<Rightarrow> bool" where
  "reads ex S rest g \<longleftrightarrow> snd (ra_run S 0 rest) \<noteq> [] \<and>
     (\<forall>pre start v c. \<exists>k c'. same_but_world c c' \<and>
        exec_trace (ex (pre @ rest)) (fst (ra_run S (length pre) rest)) (start, v, c) = Some (k, g v, c'))"

definition stores :: "('a, 'v, 'w, 'h) action_exec \<Rightarrow> 'a \<Rightarrow> (string \<Rightarrow> 'v \<Rightarrow> 'v) \<Rightarrow> bool" where
  "stores ex en upd \<longleftrightarrow>
     (\<forall>pre w post v c. w \<noteq> [] \<longrightarrow> (\<exists>c'. same_but_world c c' \<and>
        ex (pre @ w @ post) (en, length pre + length w) (length pre, v, c) =
          Some (length pre + length w, upd w v, c')))"

definition sets :: "('a, 'v, 'w, 'h) action_exec \<Rightarrow> 'a \<Rightarrow> ('v \<Rightarrow> 'v) \<Rightarrow> bool" where
  "sets ex a u \<longleftrightarrow> (\<forall>inp p start v c. ex inp (a, p) (start, v, c) = Some (start, u v, c))"

lemma exec_trace_append:
  "exec_trace ex (xs @ ys) s = do { s1 \<leftarrow> exec_trace ex xs s; exec_trace ex ys s1 }"
proof (induction xs arbitrary: s)
  case (Cons x xs)
  then show ?case by (cases "ex x s") simp_all
qed simp

lemma snd_ra_run_any: "snd (ra_run S p s) = snd (ra_run S 0 s)"
  by (subst ra_run_shift) simp

lemma reads_end: "S \<noteq> [] \<Longrightarrow> reads ex S [] (\<lambda>v. v)"
  by (auto simp: reads_def intro: exI [where x = c for c])

lemma reads_trace:
  assumes run: "ra_run S 0 s = (tr, S')" and rest: "reads ex S' rest g"
    and tr: "\<And>pre start v c. \<exists>k c'. same_but_world c c' \<and>
      exec_trace (ex (pre @ s @ rest)) (map (\<lambda>(a, q). (a, length pre + q)) tr) (start, v, c) = Some (k, u v, c')"
  shows "reads ex S (s @ rest) (\<lambda>v. g (u v))"
  unfolding reads_def
proof (intro conjI allI)
  show "snd (ra_run S 0 (s @ rest)) \<noteq> []"
    using ra_run_piece [OF run, of 0 rest] rest snd_ra_run_any [of S' "length s"] by (simp add: reads_def)
  fix pre start v c
  obtain k1 c1 where 1: "same_but_world c c1"
    "exec_trace (ex (pre @ s @ rest)) (map (\<lambda>(a, q). (a, length pre + q)) tr) (start, v, c) = Some (k1, u v, c1)"
    using tr by blast
  obtain k2 c2 where 2: "same_but_world c1 c2"
    "exec_trace (ex ((pre @ s) @ rest)) (fst (ra_run S' (length (pre @ s)) rest)) (k1, u v, c1) = Some (k2, g (u v), c2)"
    using rest unfolding reads_def by blast
  show "\<exists>k c'. same_but_world c c' \<and>
      exec_trace (ex (pre @ s @ rest)) (fst (ra_run S (length pre) (s @ rest))) (start, v, c) = Some (k, g (u v), c')"
    using 1 2 by (auto simp: ra_run_piece [OF run] exec_trace_append intro: same_but_world_trans)
qed

lemma reads_piece:
  assumes "ra_run S 0 s = ([], S')" and "reads ex S' rest g"
  shows "reads ex S (s @ rest) g"
  using reads_trace [OF assms, of "\<lambda>v. v"] by (auto intro: exI [where x = c for c])

lemma reads_flag:
  assumes "ra_run S 0 s = ([(a, q)], S')" and "sets ex a u" and "reads ex S' rest g"
  shows "reads ex S (s @ rest) (\<lambda>v. g (u v))"
  by (rule reads_trace [OF assms(1,3)]) (use assms(2) in \<open>auto simp: sets_def intro: exI [where x = c for c]\<close>)

lemma strndup_ok:
  "memory_ok E \<Longrightarrow> \<exists>c'. same_but_world c c' \<and>
     strndup E (pre @ w @ post) (length pre) (length pre + length w) c = (Some w, c')"
  using memory_ok_alloc [of E c] by (auto simp: strndup_def)

lemma push_symbol_ok:
  assumes "memory_ok E"
  shows "\<exists>c'. same_but_world c c' \<and>
    push_symbol E (pre @ w @ post) (length pre) (length pre + length w) slots index c =
      Some (take index (case slots of None \<Rightarrow> [] | Some xs \<Rightarrow> xs) @ [Some w], index + 1, c')"
proof -
  obtain w1 where 1: "alloc E c = (True, c\<lparr>world := w1\<rparr>)" using memory_ok_alloc [OF assms] by blast
  obtain c' where "same_but_world (c\<lparr>world := w1\<rparr>) c'"
    "strndup E (pre @ w @ post) (length pre) (length pre + length w) (c\<lparr>world := w1\<rparr>) = (Some w, c')"
    using strndup_ok [OF assms] by blast
  with 1 show ?thesis
    by (auto simp: push_symbol_def intro: same_but_world_trans [OF alloc_same])
qed

text \<open>The two forms of actions that end a symbol.\<close>

lemma stores_strndup:
  assumes "memory_ok E"
    and "\<And>inp s p v c. s \<noteq> p \<Longrightarrow>
      ex inp (en, p) (s, v, c) = (let (x, c1) = strndup E inp s p c in Some (p, u x v, c1))"
  shows "stores ex en (\<lambda>w. u (Some w))"
  unfolding stores_def
proof (intro allI impI)
  fix pre w post :: string and v c assume "w \<noteq> []"
  obtain c' where "same_but_world c c'"
    "strndup E (pre @ w @ post) (length pre) (length pre + length w) c = (Some w, c')"
    using strndup_ok [OF assms(1)] by blast
  with \<open>w \<noteq> []\<close> show "\<exists>c'. same_but_world c c' \<and> ex (pre @ w @ post) (en, length pre + length w) (length pre, v, c) =
      Some (length pre + length w, u (Some w) v, c')"
    by (auto simp: assms(2))
qed

abbreviation (input) slot_added :: "string option list option \<Rightarrow> nat \<Rightarrow> string \<Rightarrow> string option list" where
  "slot_added slots index w \<equiv> take index (case slots of None \<Rightarrow> [] | Some xs \<Rightarrow> xs) @ [Some w]"

lemma stores_push:
  assumes "memory_ok E"
    and "\<And>inp s p v c. s \<noteq> p \<Longrightarrow> ex inp (en, p) (s, v, c) =
      do { (slots, index, c1) \<leftarrow> push_symbol E inp s p (sl v) (ix v) c; Some (p, u slots index v, c1) }"
  shows "stores ex en (\<lambda>w v. u (slot_added (sl v) (ix v) w) (ix v + 1) v)"
  unfolding stores_def
proof (intro allI impI)
  fix pre w post :: string and v c assume "w \<noteq> []"
  obtain c' where "same_but_world c c'"
    "push_symbol E (pre @ w @ post) (length pre) (length pre + length w) (sl v) (ix v) c =
      Some (slot_added (sl v) (ix v) w, ix v + 1, c')"
    using push_symbol_ok [OF assms(1)] by blast
  with \<open>w \<noteq> []\<close> show "\<exists>c'. same_but_world c c' \<and> ex (pre @ w @ post) (en, length pre + length w) (length pre, v, c) =
      Some (length pre + length w, u (slot_added (sl v) (ix v) w) (ix v + 1) v, c')"
    by (auto simp: assms(2))
qed

lemma reads_run:
  assumes "reads ex [fst (embed_order m 0)] inp g"
  shows "snd (ra_exec m inp)"
    and "\<exists>k c'. same_but_world c c' \<and> exec_trace (ex inp) (fst (ra_exec m inp)) (start, v, c) = Some (k, g v, c')"
proof -
  show "snd (ra_exec m inp)"
    using assms by (simp add: reads_def ra_exec_def split_beta)
  have "\<forall>pre start v c. \<exists>k c'. same_but_world c c' \<and>
      exec_trace (ex (pre @ inp)) (fst (ra_run [fst (embed_order m 0)] (length pre) inp)) (start, v, c) = Some (k, g v, c')"
    using assms unfolding reads_def by (rule conjunct2)
  from this [rule_format, of c "[]" start v]
  show "\<exists>k c'. same_but_world c c' \<and> exec_trace (ex inp) (fst (ra_exec m inp)) (start, v, c) = Some (k, g v, c')"
    by (simp add: ra_exec_def split_beta)
qed

lemma ragel_final_mem: "ragel_final r w \<Longrightarrow> w \<in> rl_lang r"
  by (simp add: ragel_final_lang)

text \<open>The contract between a parser's actions and the machine: \<open>start\<close> marks where a symbol begins.\<close>

locale symbol_actions =
  fixes ex :: "('a, 'v, 'w, 'h) action_exec" and start :: 'a
  assumes start_marks: "ex inp (start, p) (s, v, c) = Some (p, v, c)"
begin

lemma reads_symbol:
  assumes ok: "symbol_ok W r K d" and w: "w \<in> rl_lang r" and en: "stores ex en upd"
    and rest: "reads ex (remdups (map snd (ader d K))) rest g"
  shows "reads ex [ASeq (ALeave (i, start) (APure W)) (inside (j, en) K r)] (w @ d # rest) (\<lambda>v. g (upd w v))"
proof -
  have ne: "w \<noteq> []" using ok w by (auto simp: symbol_ok_def nullable_lang)
  have run: "ra_run [ASeq (ALeave (i, start) (APure W)) (inside (j, en) K r)] 0 (w @ [d]) =
      ([(start, 0), (en, length w)], remdups (map snd (ader d K)))"
    using ra_run_symbol [OF ok w, of "(i, start)" "(j, en)" 0] by simp
  have "\<exists>k c'. same_but_world c c' \<and>
      exec_trace (ex (pre @ (w @ [d]) @ rest)) (map (\<lambda>(a, q). (a, length pre + q)) [(start, 0), (en, length w)])
        (s, v, c) = Some (k, upd w v, c')" for pre s v c
  proof -
    obtain c' where "same_but_world c c'"
      "ex (pre @ w @ d # rest) (en, length pre + length w) (length pre, v, c) =
        Some (length pre + length w, upd w v, c')"
      using en ne unfolding stores_def by blast
    then show ?thesis by (simp add: start_marks)
  qed
  from reads_trace [OF run rest this] show ?thesis by simp
qed

lemma reads_framed:
  assumes frame: "frame C out" and w: "c # v \<in> rl_lang r"
    and enter: "ra_step c S = ([start], map C (rl_step c [r]))"
    and quiet: "\<And>x. x \<in> set v \<Longrightarrow> out x = []" and d: "\<not> in_cls (alphabet r) d"
    and as: "\<And>t. t \<in> set (out d) \<Longrightarrow> fst t = [(i, en), (j, ws)]" "out d \<noteq> []" "i \<le> j" "en \<noteq> ws"
    and en: "stores ex en upd" and ws: "sets ex ws u"
    and rest: "reads ex (remdups (map snd (out d))) rest g"
  shows "reads ex S ((c # v) @ d # rest) (\<lambda>x. g (u (upd (c # v) x)))"
proof -
  let ?w = "c # v"
  have run: "ra_run S 0 (?w @ [d]) = ([(start, 0), (en, length ?w), (ws, length ?w)], remdups (map snd (out d)))"
    using ra_run_framed [OF frame w enter quiet d as(1,2), of 0] as(3,4) by simp
  have "\<exists>k c'. same_but_world b c' \<and>
      exec_trace (ex (pre @ (?w @ [d]) @ rest))
        (map (\<lambda>(a, q). (a, length pre + q)) [(start, 0), (en, length ?w), (ws, length ?w)]) (s, x, b) =
      Some (k, u (upd ?w x), c')" for pre s x b
  proof -
    obtain c' where "same_but_world b c'"
      "ex (pre @ ?w @ d # rest) (en, length pre + length ?w) (length pre, x, b) =
        Some (length pre + length ?w, upd ?w x, c')"
      using en unfolding stores_def by blast
    then show ?thesis using ws by (simp add: start_marks sets_def)
  qed
  from reads_trace [OF run rest this] show ?thesis by simp
qed

end

section \<open>Printing names\<close>

definition quoted :: "string \<Rightarrow> string" where "quoted n = CHR 39 # n @ [CHR 39]"

fun print_names :: "string list option \<Rightarrow> string" where
  "print_names None = []"
| "print_names (Some [n]) = ''NAME '' @ quoted n @ '' ''"
| "print_names (Some ns) = ''NAME ( '' @ concat (map (\<lambda>n. quoted n @ '' '') ns) @ '') ''"

definition printable_names :: "string list option \<Rightarrow> bool" where
  "printable_names names \<longleftrightarrow>
     (case names of None \<Rightarrow> True | Some ns \<Rightarrow> ns \<noteq> [] \<and> list_all (ragel_final keystring) ns)"

text \<open>
  Both descriptions have names after their OID: one in quotes, or a list in parentheses. \<open>before\<close> and
  \<open>after\<close> are the states around the names, \<open>one\<close> and \<open>listed\<close> what follows a single and a listed name.
\<close>

definition add_names :: "(string \<Rightarrow> 'v \<Rightarrow> 'v) \<Rightarrow> string list \<Rightarrow> 'v \<Rightarrow> 'v" where
  "add_names put ns v = foldl (\<lambda>v n. put n v) v ns"

lemma add_names_slots:
  assumes "\<And>n v. sl (put n v) = Some (slot_added (sl v) (ix v) n)" and "\<And>n v. ix (put n v) = ix v + 1"
    and "sl v = None" and "ix v = 0" and "ns \<noteq> []"
  shows "sl (add_names put ns v) = Some (map Some ns) \<and> ix (add_names put ns v) = length ns"
  using assms(5)
proof (induction ns rule: rev_induct)
  case Nil
  then show ?case by simp
next
  case (snoc n ns)
  with assms(1-4) show ?case by (cases "ns = []") (simp_all add: add_names_def)
qed

lemma add_names_keeps: "(\<And>n v. f (put n v) = f v) \<Longrightarrow> f (add_names put ns v) = f v"
  by (induction ns rule: rev_induct) (simp_all add: add_names_def)

abbreviation (input) name_state ::
  "'a \<Rightarrow> 'a \<Rightarrow> nat \<Rightarrow> (nat \<times> 'a) ra \<Rightarrow> (nat \<times> 'a) ra list" where
  "name_state start name_end i K \<equiv> [ASeq (ALeave (i, start) (APure REps)) (inside (Suc i, name_end) K keystring)]"

locale named_description = symbol_actions ex start
  for ex :: "('a, 'v, 'w, 'h) action_exec" and start :: 'a +
  fixes name_end :: 'a and before after :: "(nat \<times> 'a) ra list" and one listed :: "(nat \<times> 'a) ra"
  assumes single_begins: "ra_run before 0 (''NAME '' @ [CHR 39]) = ([], name_state start name_end 2 one)"
    and list_begins: "ra_run before 0 (''NAME ( '' @ [CHR 39]) = ([], name_state start name_end 4 listed)"
    and single_symbol: "symbol_ok REps keystring one (CHR 39)"
    and listed_symbol: "symbol_ok REps keystring listed (CHR 39)"
    and single_ends: "ra_run (remdups (map snd (ader (CHR 39) one))) 0 '' '' = ([], after)"
    and list_goes_on: "ra_run (remdups (map snd (ader (CHR 39) listed))) 0 ('' '' @ [CHR 39]) =
      ([], name_state start name_end 6 listed)"
    and list_ends: "ra_run (remdups (map snd (ader (CHR 39) listed))) 0 '' ) '' = ([], after)"
begin

lemma reads_listed_names:
  assumes store: "stores ex name_end put" and n: "ragel_final keystring n" and ns: "list_all (ragel_final keystring) ns"
    and rest: "reads ex after rest g"
  shows "reads ex (name_state start name_end i listed)
    (n @ [CHR 39] @ '' '' @ concat (map (\<lambda>n. quoted n @ '' '') ns) @ '') '' @ rest)
    (\<lambda>v. g (add_names put (n # ns) v))"
  using n ns
proof (induction ns arbitrary: n i)
  case Nil
  have "reads ex (name_state start name_end i listed) (n @ CHR 39 # '' ) '' @ rest) (\<lambda>v. g (put n v))"
    by (rule reads_symbol [OF listed_symbol ragel_final_mem [OF Nil(1)] store reads_piece [OF list_ends rest]])
  then show ?case by (simp add: add_names_def)
next
  case (Cons m ns)
  have "reads ex (name_state start name_end 6 listed)
      (m @ [CHR 39] @ '' '' @ concat (map (\<lambda>n. quoted n @ '' '') ns) @ '') '' @ rest)
      (\<lambda>v. g (add_names put (m # ns) v))"
    by (rule Cons.IH) (use Cons.prems(2) in simp_all)
  from reads_symbol [OF listed_symbol ragel_final_mem [OF Cons.prems(1)] store reads_piece [OF list_goes_on this]]
  show ?case by (simp add: add_names_def quoted_def)
qed

lemma reads_names:
  assumes store: "stores ex name_end put" and ns: "ns \<noteq> []" "list_all (ragel_final keystring) ns"
    and rest: "reads ex after rest g"
  shows "reads ex before (print_names (Some ns) @ rest) (\<lambda>v. g (add_names put ns v))"
proof -
  consider n where "ns = [n]" | n m ms where "ns = n # m # ms"
    using ns(1) by (metis list.exhaust)
  then show ?thesis
  proof cases
    case (1 n)
    have "ragel_final keystring n" using ns(2) 1 by simp
    note sym = reads_symbol [OF single_symbol ragel_final_mem [OF this] store reads_piece [OF single_ends rest]]
    have "reads ex before ((''NAME '' @ [CHR 39]) @ n @ CHR 39 # '' '' @ rest) (\<lambda>v. g (put n v))"
      by (rule reads_piece [OF single_begins sym])
    with 1 show ?thesis by (simp add: add_names_def quoted_def)
  next
    case (2 n m ms)
    have "reads ex (name_state start name_end 4 listed)
        (n @ [CHR 39] @ '' '' @ concat (map (\<lambda>n. quoted n @ '' '') (m # ms)) @ '') '' @ rest)
        (\<lambda>v. g (add_names put (n # m # ms) v))"
      by (rule reads_listed_names [OF store _ _ rest]) (use ns(2) 2 in simp_all)
    from reads_piece [OF list_begins this] 2 show ?thesis
      by (simp add: quoted_def)
  qed
qed

end

section \<open>Every run of the actions\<close>

text \<open>
  The positions of a trace do not go back and lie inside the buffer. An invariant of the variables that
  every action keeps when it runs at or behind \<open>symbol_start\<close> therefore holds after every run, and
  every run is defined when every action is.
\<close>

lemma exec_trace_inv:
  assumes "sorted (map snd tr)" and "\<forall>a \<in> set tr. start \<le> snd a \<and> snd a < length inp \<and> P (fst a)"
    and "I v"
    and "\<And>a p start v c. P a \<Longrightarrow> start \<le> p \<Longrightarrow> p < length inp \<Longrightarrow> I v \<Longrightarrow>
      \<exists>start' v' c'. ex inp (a, p) (start, v, c) = Some (start', v', c') \<and> start' \<le> p \<and> I v' \<and> same_but_world c c'"
  shows "\<exists>start' v' c'. exec_trace (ex inp) tr (start, v, c) = Some (start', v', c') \<and> I v' \<and> same_but_world c c'"
  using assms(1-3)
proof (induction tr arbitrary: start v c)
  case Nil
  then show ?case by auto
next
  case (Cons a tr)
  obtain s1 v1 c1 where 1: "ex inp a (start, v, c) = Some (s1, v1, c1)" "s1 \<le> snd a" "I v1" "same_but_world c c1"
    using assms(4) [of "fst a" start "snd a" v c] Cons.prems by auto
  have "\<forall>b \<in> set tr. s1 \<le> snd b \<and> snd b < length inp \<and> P (fst b)" and "sorted (map snd tr)"
    using Cons.prems 1(2) by auto
  from Cons.IH [OF this(2,1) 1(3), of c1] 1 show ?case
    by (auto intro: same_but_world_trans)
qed

lemma exec_inv:
  assumes "I v"
    and "\<And>a p start v c. a \<in> set (actions m) \<Longrightarrow> start \<le> p \<Longrightarrow> p < length s \<Longrightarrow> I v \<Longrightarrow>
      \<exists>start' v' c'. ex s (a, p) (start, v, c) = Some (start', v', c') \<and> start' \<le> p \<and> I v' \<and> same_but_world c c'"
  shows "\<exists>start' v' c'. exec_trace (ex s) (fst (ra_exec m s)) (0, v, c) = Some (start', v', c') \<and> I v' \<and> same_but_world c c'"
proof (rule exec_trace_inv [where ex = ex and inp = s and P = "\<lambda>a. a \<in> set (actions m)" and I = I, OF _ _ assms])
  have "fst (ra_exec m s) = fst (ra_run [fst (embed_order m 0)] 0 s)"
    by (simp add: ra_exec_def split_beta)
  then show "sorted (map snd (fst (ra_exec m s)))"
    and "\<forall>a \<in> set (fst (ra_exec m s)). 0 \<le> snd a \<and> snd a < length s \<and> fst a \<in> set (actions m)"
    using ra_run_positions [of "[fst (embed_order m 0)]" 0 s] ra_exec_actions [of _ m s] by simp_all
qed

text \<open>A symbol taken from the buffer.\<close>

definition piece :: "string \<Rightarrow> string \<Rightarrow> bool" where
  "piece s x \<longleftrightarrow> x \<noteq> [] \<and> sublist x s"

lemma piece_take: "start < p \<Longrightarrow> p < length s \<Longrightarrow> piece s (take (p - start) (drop start s))"
proof -
  assume "start < p" "p < length s"
  moreover have "s = take start s @ take (p - start) (drop start s) @ drop (p - start) (drop start s)"
    by (metis append_take_drop_id)
  ultimately show ?thesis unfolding piece_def sublist_def by auto
qed

definition pieces_ok :: "string \<Rightarrow> string option list option \<Rightarrow> nat \<Rightarrow> bool" where
  "pieces_ok s slots index \<longleftrightarrow>
     (slots = None \<and> index = 0) \<or>
     (\<exists>ns. slots = Some (map Some ns) \<and> index = length ns \<and> ns \<noteq> [] \<and> list_all (piece s) ns)"

definition names_ok :: "string \<Rightarrow> string list option \<Rightarrow> bool" where
  "names_ok s names \<longleftrightarrow> (case names of None \<Rightarrow> True | Some ns \<Rightarrow> ns \<noteq> [] \<and> list_all (piece s) ns)"

lemma pieces_ok_names: "pieces_ok s slots index \<Longrightarrow> names_ok s (c_strings slots)"
  by (auto simp: pieces_ok_def names_ok_def)

lemma strndup_piece:
  assumes "memory_ok E" and "start < p" and "p < length s"
  obtains x c' where "strndup E s start p c = (Some x, c')" "piece s x" "same_but_world c c'"
proof -
  obtain w where "alloc E c = (True, c\<lparr>world := w\<rparr>)" using memory_ok_alloc [OF assms(1)] by blast
  then show ?thesis using piece_take [OF assms(2,3)] that by (auto simp: strndup_def)
qed

lemma push_symbol_piece:
  assumes "memory_ok E" and "start < p" and "p < length s" and "pieces_ok s slots index"
  obtains slots' index' c' where "push_symbol E s start p slots index c = Some (slots', index', c')"
    "pieces_ok s (Some slots') index'" "same_but_world c c'"
proof -
  obtain w where w: "alloc E c = (True, c\<lparr>world := w\<rparr>)" using memory_ok_alloc [OF assms(1)] by blast
  obtain x c' where x: "strndup E s start p (c\<lparr>world := w\<rparr>) = (Some x, c')" "piece s x" "same_but_world (c\<lparr>world := w\<rparr>) c'"
    using strndup_piece [OF assms(1-3)] by blast
  have "pieces_ok s (Some (take index (case slots of None \<Rightarrow> [] | Some xs \<Rightarrow> xs) @ [Some x])) (index + 1)"
    using assms(4) x(2) by (fastforce simp: pieces_ok_def intro: exI [of _ "[x]"] exI [of _ "ns @ [x]" for ns])
  then show ?thesis
    using w x that same_but_world_trans [OF alloc_same [OF w] x(3)] by (simp add: push_symbol_def)
qed

end
