(* ===== verification/Attribute_Type_Parser.thy ===== *)
theory Attribute_Type_Parser
  imports Description_Parsing
begin

text \<open>
  \<open>src/src/parsers/attribute_type_description.rl\<close> and its entry point in \<open>src/src/ldap_parsers.c\<close>: the
  machine of the file, rule by rule, and one function per action on the variables of the C function.
  The result is undefined (\<open>None\<close>) when \<open>talloc_realloc\<close> fails, because the actions write through the
  array without a test.
\<close>

section \<open>The machine\<close>

datatype at_action = At_start | At_oid_end | At_name_end | At_syntax_end | At_single_value | At_no_user_modification

definition syntax_value :: rl where "syntax_value = RAlt numericoid (lit_i ''OctetString'')"

definition syntaxoid :: "at_action ra" where
  "syntaxoid =
     aseqs [ALeave At_start (APure (byte 39)),
            ALeave At_syntax_end (APure syntax_value), APure (byte 39)]"

text \<open>The parts of \<open>AttributeTypeDescription\<close> in their order.\<close>

definition at_parts :: "at_action ra list" where
  "at_parts =
     [APure (lit ''(''), ALeave At_start (APure whsp), ALeave At_oid_end (APure numericoid), APure whsp,
      aopt (aseqs [APure (lit_i ''NAME''), qdescrs At_start At_name_end]),
      aopt (aseqs [APure (lit_i ''SYNTAX''), APure whsp, syntaxoid, APure whsp]),
      aopt (aseqs [ALeave At_single_value (APure (lit_i ''SINGLE-VALUE'')), APure whsp]),
      aopt (aseqs [ALeave At_no_user_modification (APure (lit_i ''NO-USER-MODIFICATION'')), APure whsp]),
      APure whsp, APure (lit '')'')]"

definition attribute_type_machine :: "at_action ra" where
  "attribute_type_machine =
     ASeq (aopt (aseqs [APure (lit_i ''attributeTypes''), APure (lit '':''), APure whsp])) (aseqs at_parts)"

text \<open>The parts written out, for evaluation.\<close>

lemmas at_parts_eval [code] = at_parts_def [simplified syntaxoid_def syntax_value_def grammar_defs, simplified,
    simplified letter_classes_def, simplified]

section \<open>The actions\<close>

text \<open>
  The variables of the generated function that actions use, beside \<open>symbol_start\<close>. An array of names is
  kept as its slots; readers stop at the first NULL.
\<close>

record at_vars =
  at_result :: ldap_attribute_type
  at_name_slots :: "string option list option"
  at_name_index :: nat

fun at_exec ::
  "('w, 'h) ext \<Rightarrow> string \<Rightarrow> at_action \<times> nat \<Rightarrow> nat \<times> at_vars \<times> ('w, 'h) conn \<Rightarrow>
     (nat \<times> at_vars \<times> ('w, 'h) conn) option" where
  "at_exec E inp (At_start, p) (start, v, c) = Some (p, v, c)"
| "at_exec E inp (At_oid_end, p) (start, v, c) =
     (if start \<noteq> p
      then let (s, c1) = strndup E inp start p c
           in Some (p, v\<lparr>at_result := (at_result v)\<lparr>at_oid := s\<rparr>\<rparr>, c1)
      else Some (p, v, c))"
| "at_exec E inp (At_name_end, p) (start, v, c) =
     (if start \<noteq> p
      then do { (slots, index, c1) \<leftarrow> push_symbol E inp start p (at_name_slots v) (at_name_index v) c;
                Some (p, v\<lparr>at_name_slots := Some slots, at_name_index := index\<rparr>, c1) }
      else Some (p, v, c))"
| "at_exec E inp (At_syntax_end, p) (start, v, c) =
     (if start \<noteq> p
      then let (s, c1) = strndup E inp start p c
           in Some (p, v\<lparr>at_result := (at_result v)\<lparr>at_syntax_oid := s\<rparr>\<rparr>, c1)
      else Some (p, v, c))"
| "at_exec E inp (At_single_value, p) (start, v, c) =
     Some (start, v\<lparr>at_result := (at_result v)\<lparr>at_single_value := 1\<rparr>\<rparr>, c)"
| "at_exec E inp (At_no_user_modification, p) (start, v, c) =
     Some (start, v\<lparr>at_result := (at_result v)\<lparr>at_no_user_mod := 1\<rparr>\<rparr>, c)"

definition at_value :: "at_vars \<Rightarrow> ldap_attribute_type" where
  "at_value v = (at_result v)\<lparr>at_names := c_strings (at_name_slots v)\<rparr>"

text \<open>The generated function; \<open>in\<close> is a C string of length \<open>len\<close>.\<close>

definition parse_attribute_type_description ::
  "('w, 'h) ext \<Rightarrow> nat option \<Rightarrow> string option \<Rightarrow> ('w, 'h) conn \<Rightarrow>
     (ldap_attribute_type option \<times> ('w, 'h) conn) option" where
  "parse_attribute_type_description E talloc_ctx inp c =
     (case (talloc_ctx, inp) of
        (Some _, Some s) \<Rightarrow>
          let (ok, c1) = alloc E c
          in if \<not> ok then Some (None, c1)
             else let (tr, accepted) = ra_exec attribute_type_machine s
                  in do { (start, v, c2) \<leftarrow> exec_trace (at_exec E s) tr
                            (0, \<lparr>at_result = zero_attribute_type, at_name_slots = None, at_name_index = 0\<rparr>, c1);
                          Some (if accepted then Some (at_value v) else None, c2) }
      | _ \<Rightarrow> Some (None, c))"

definition parse_attribute_type ::
  "('w, 'h) ext \<Rightarrow> nat option \<Rightarrow> string option \<Rightarrow> ('w, 'h) conn \<Rightarrow>
     (ldap_attribute_type option \<times> ('w, 'h) conn) option" where
  "parse_attribute_type E talloc_ctx value c =
     (case value of None \<Rightarrow> Some (None, c)
      | Some s \<Rightarrow> if length s = 0 then Some (None, c) else parse_attribute_type_description E talloc_ctx (Some s) c)"

interpretation at_actions: symbol_actions "at_exec E" At_start for E :: "('w, 'h) ext"
  by unfold_locales simp

lemma at_exec_same: "at_exec E inp a (s, v, c) = Some (s', v', c') \<Longrightarrow> same_but_world c c'"
  by (cases a; cases "fst a")
    (auto split: if_splits prod.splits elim!: bind_SomeE dest: strndup_same push_symbol_same)

lemma at_trace_same:
  "exec_trace (at_exec E inp) tr (s, v, c) = Some (s', v', c') \<Longrightarrow> same_but_world c c'"
  by (rule exec_trace_same [OF at_exec_same])

lemma parse_attribute_type_same [conn_frame]:
  "parse_attribute_type E ctx value c = Some (r, c') \<Longrightarrow> same_but_world c c'"
  by (auto simp: parse_attribute_type_def parse_attribute_type_description_def Let_def
      split: option.splits if_splits prod.splits elim!: bind_SomeE
      dest!: alloc_same at_trace_same intro: same_but_world_trans)

section \<open>Printing and parsing attribute types\<close>

text \<open>
  Descriptions as RFC 4512 writes them, of the fields the machine knows. A printable type has a
  numeric OID, names that are key strings, and a syntax OID the machine reads.
\<close>

definition print_attribute_type :: "ldap_attribute_type \<Rightarrow> string" where
  "print_attribute_type ty =
     ''( '' @ the (at_oid ty) @ '' '' @ print_names (at_names ty) @
     (case at_syntax_oid ty of None \<Rightarrow> [] | Some s \<Rightarrow> ''SYNTAX '' @ quoted s @ '' '') @
     (if at_single_value ty \<noteq> 0 then ''SINGLE-VALUE '' else []) @
     (if at_no_user_mod ty \<noteq> 0 then ''NO-USER-MODIFICATION '' else []) @ '')''"

definition printable_type :: "ldap_attribute_type \<Rightarrow> bool" where
  "printable_type ty \<longleftrightarrow>
     (case at_oid ty of None \<Rightarrow> False | Some oid \<Rightarrow> ragel_final numericoid oid) \<and> printable_names (at_names ty) \<and>
     (case at_syntax_oid ty of None \<Rightarrow> True
      | Some s \<Rightarrow> ragel_final syntax_value s) \<and>
     at_single_value ty \<in> {0, 1} \<and> at_no_user_mod ty \<in> {0, 1}"

definition add_at_name :: "string \<Rightarrow> at_vars \<Rightarrow> at_vars" where
  "add_at_name w v =
     v\<lparr>at_name_slots := Some (slot_added (at_name_slots v) (at_name_index v) w), at_name_index := at_name_index v + 1\<rparr>"

lemma at_stores:
  assumes "memory_ok E"
  shows "stores (at_exec E) At_oid_end (\<lambda>w v. v\<lparr>at_result := (at_result v)\<lparr>at_oid := Some w\<rparr>\<rparr>)"
    and "stores (at_exec E) At_syntax_end (\<lambda>w v. v\<lparr>at_result := (at_result v)\<lparr>at_syntax_oid := Some w\<rparr>\<rparr>)"
    and "stores (at_exec E) At_name_end add_at_name"
proof -
  show "stores (at_exec E) At_oid_end (\<lambda>w v. v\<lparr>at_result := (at_result v)\<lparr>at_oid := Some w\<rparr>\<rparr>)"
    by (rule stores_strndup [OF assms, where u = "\<lambda>x v. v\<lparr>at_result := (at_result v)\<lparr>at_oid := x\<rparr>\<rparr>"]) simp
  show "stores (at_exec E) At_syntax_end (\<lambda>w v. v\<lparr>at_result := (at_result v)\<lparr>at_syntax_oid := Some w\<rparr>\<rparr>)"
    by (rule stores_strndup [OF assms, where u = "\<lambda>x v. v\<lparr>at_result := (at_result v)\<lparr>at_syntax_oid := x\<rparr>\<rparr>"]) simp
  let ?u = "\<lambda>slots index v. v\<lparr>at_name_slots := Some slots, at_name_index := index\<rparr>"
  have step: "at_exec E inp (At_name_end, p) (s, v, c) =
      do { (slots, index, c1) \<leftarrow> push_symbol E inp s p (at_name_slots v) (at_name_index v) c;
           Some (p, ?u slots index v, c1) }"
    if "s \<noteq> p" for inp s p v and c :: "('a, 'b) conn"
    using that by simp
  note stores_push [where ex = "at_exec E" and en = At_name_end and sl = at_name_slots and ix = at_name_index
      and u = ?u, OF assms step]
  then show "stores (at_exec E) At_name_end add_at_name"
    by (simp add: add_at_name_def [abs_def])
qed

lemma at_sets:
  "sets (at_exec E) At_single_value (\<lambda>v. v\<lparr>at_result := (at_result v)\<lparr>at_single_value := 1\<rparr>\<rparr>)"
  "sets (at_exec E) At_no_user_modification (\<lambda>v. v\<lparr>at_result := (at_result v)\<lparr>at_no_user_mod := 1\<rparr>\<rparr>)"
  by (simp_all add: sets_def)

text \<open>
  The states between the pieces: what follows part \<open>n\<close> of the description when \<open>k\<close> actions have been
  embedded before it. The last whitespace can already have begun.
\<close>

definition at_tail :: "nat \<Rightarrow> nat \<Rightarrow> (nat \<times> at_action) ra" where
  "at_tail n k = fst (embed_order (aseqs (drop n at_parts)) k)"

abbreviation (input) at_state :: "nat \<Rightarrow> nat \<Rightarrow> (nat \<times> at_action) ra list" where
  "at_state n k \<equiv> [ASeq (APure whsp) (at_tail n k), at_tail 8 12]"

definition after_name :: "(nat \<times> at_action) ra" where
  "after_name = aseqs [APure (byte 39), APure whsp, at_tail 5 8]"

definition after_listed_name :: "(nat \<times> at_action) ra" where
  "after_listed_name = aseqs [APure (byte 39), APure whsp,
     fst (embed_order (AStar (qdescr At_start At_name_end)) 6), APure (byte 41), APure whsp, at_tail 5 8]"

lemma at_oid_pieces:
  "ra_run [fst (embed_order attribute_type_machine 0)] 0 ''( '' =
    ([], [ASeq (ALeave (0, At_start) (APure whsp)) (inside (1, At_oid_end) (at_tail 3 2) numericoid)])"
  "symbol_ok whsp numericoid (at_tail 3 2) CHR '' ''"
  "remdups (map snd (ader CHR '' '' (at_tail 3 2))) = at_state 4 2"
  by code_simp+

lemma at_name_pieces:
  "ra_run (at_state 4 2) 0 (''NAME '' @ [CHR 39]) = ([], name_state At_start At_name_end 2 after_name)"
  "ra_run (at_state 4 2) 0 (''NAME ( '' @ [CHR 39]) = ([], name_state At_start At_name_end 4 after_listed_name)"
  "symbol_ok REps keystring after_name (CHR 39)"
  "symbol_ok REps keystring after_listed_name (CHR 39)"
  "ra_run (remdups (map snd (ader (CHR 39) after_name))) 0 '' '' = ([], at_state 5 8)"
  "ra_run (remdups (map snd (ader (CHR 39) after_listed_name))) 0 ('' '' @ [CHR 39]) =
    ([], name_state At_start At_name_end 6 after_listed_name)"
  "ra_run (remdups (map snd (ader (CHR 39) after_listed_name))) 0 '' ) '' = ([], at_state 5 8)"
  by code_simp+

interpretation at_names: named_description "at_exec E" At_start At_name_end "at_state 4 2" "at_state 5 8"
    after_name after_listed_name for E :: "('w, 'h) ext"
  by unfold_locales (fact at_name_pieces)+

lemma at_syntax_pieces:
  "ra_run (at_state 4 2) 0 (''SYNTAX '' @ [CHR 39]) = ra_run (at_state 5 8) 0 (''SYNTAX '' @ [CHR 39])"
  "ra_run (at_state 5 8) 0 (''SYNTAX '' @ [CHR 39]) =
    ([], [ASeq (ALeave (8, At_start) (APure REps))
           (inside (9, At_syntax_end) (aseqs [APure (byte 39), APure whsp, at_tail 6 10]) syntax_value)])"
  "symbol_ok REps syntax_value (aseqs [APure (byte 39), APure whsp, at_tail 6 10]) (CHR 39)"
  "ra_run (remdups (map snd (ader (CHR 39) (aseqs [APure (byte 39), APure whsp, at_tail 6 10])))) 0 '' '' =
    ([], at_state 6 10)"
  by code_simp+

abbreviation (input) in_single_value :: "(nat \<times> at_action) ra list" where
  "in_single_value \<equiv>
     [ASeq (ALeave (10, At_single_value) (APure (lit_i ''NGLE-VALUE''))) (ASeq (APure whsp) (at_tail 7 11))]"

abbreviation (input) in_no_user_mod :: "(nat \<times> at_action) ra list" where
  "in_no_user_mod \<equiv>
     [ASeq (ALeave (11, At_no_user_modification) (APure (lit_i ''-USER-MODIFICATION''))) (ASeq (APure whsp) (at_tail 8 12))]"

lemma at_flag_pieces:
  "ra_run (at_state 4 2) 0 ''SI'' = ([], in_single_value)"
  "ra_run (at_state 5 8) 0 ''SI'' = ([], in_single_value)"
  "ra_run (at_state 6 10) 0 ''SI'' = ([], in_single_value)"
  "ra_run (at_state 4 2) 0 ''NO'' = ([], in_no_user_mod)"
  "ra_run (at_state 5 8) 0 ''NO'' = ([], in_no_user_mod)"
  "ra_run (at_state 6 10) 0 ''NO'' = ([], in_no_user_mod)"
  "ra_run (at_state 7 11) 0 ''NO'' = ([], in_no_user_mod)"
  by code_simp+

lemma at_flag_ends:
  "ra_run in_single_value 0 ''NGLE-VALUE '' = ([(At_single_value, 10)], at_state 7 11)"
  "ra_run in_no_user_mod 0 ''-USER-MODIFICATION '' = ([(At_no_user_modification, 18)], at_state 8 12)"
  by code_simp+

lemma at_end_pieces:
  "ra_run (at_state 4 2) 0 '')'' = ([], [APure REps])"
  "ra_run (at_state 5 8) 0 '')'' = ([], [APure REps])"
  "ra_run (at_state 6 10) 0 '')'' = ([], [APure REps])"
  "ra_run (at_state 7 11) 0 '')'' = ([], [APure REps])"
  "ra_run (at_state 8 12) 0 '')'' = ([], [APure REps])"
  by code_simp+

section \<open>The round trip\<close>

definition at_flags :: "int \<Rightarrow> int \<Rightarrow> at_vars \<Rightarrow> at_vars" where
  "at_flags sv nu v =
     v\<lparr>at_result := (at_result v)
        \<lparr>at_single_value := (if sv = 0 then at_single_value (at_result v) else 1),
         at_no_user_mod := (if nu = 0 then at_no_user_mod (at_result v) else 1)\<rparr>\<rparr>"

abbreviation (input) flags_text :: "int \<Rightarrow> int \<Rightarrow> string" where
  "flags_text sv nu \<equiv>
     (if sv \<noteq> 0 then ''SINGLE-VALUE '' else []) @ (if nu \<noteq> 0 then ''NO-USER-MODIFICATION '' else []) @ '')''"

lemma reads_no_user_mod:
  assumes "S \<in> {at_state 4 2, at_state 5 8, at_state 6 10, at_state 7 11}"
  shows "reads (at_exec E) S ((if nu \<noteq> 0 then ''NO-USER-MODIFICATION '' else []) @ '')'') (at_flags 0 nu)"
proof (cases "nu = 0")
  case True
  have "reads (at_exec E) S ('')'' @ []) (\<lambda>v. v)"
    using assms at_end_pieces by (intro reads_piece [OF _ reads_end [of "[APure REps]"]]) auto
  with True show ?thesis by (simp add: at_flags_def [abs_def])
next
  case False
  have last: "reads (at_exec E) (at_state 8 12) ('')'' @ []) (\<lambda>v. v)"
    by (rule reads_piece [OF at_end_pieces(5) reads_end]) simp
  have "reads (at_exec E) S (''NO'' @ ''-USER-MODIFICATION '' @ '')'' @ [])
      (\<lambda>v. (v\<lparr>at_result := (at_result v)\<lparr>at_no_user_mod := 1\<rparr>\<rparr>))"
    using assms at_flag_pieces(4-7)
    by (intro reads_piece [OF _ reads_flag [OF at_flag_ends(2) at_sets(2) last]]) auto
  with False show ?thesis by (simp add: at_flags_def [abs_def])
qed

lemma reads_flags:
  assumes "S \<in> {at_state 4 2, at_state 5 8, at_state 6 10}"
  shows "reads (at_exec E) S (flags_text sv nu) (at_flags sv nu)"
proof (cases "sv = 0")
  case True
  have "reads (at_exec E) S ((if nu \<noteq> 0 then ''NO-USER-MODIFICATION '' else []) @ '')'') (at_flags 0 nu)"
    by (rule reads_no_user_mod) (use assms in auto)
  with True show ?thesis by simp
next
  case False
  have "reads (at_exec E) S (''SI'' @ ''NGLE-VALUE '' @ (if nu \<noteq> 0 then ''NO-USER-MODIFICATION '' else []) @ '')'')
      (\<lambda>v. at_flags 0 nu (v\<lparr>at_result := (at_result v)\<lparr>at_single_value := 1\<rparr>\<rparr>))"
    using assms at_flag_pieces(1-3)
    by (intro reads_piece [OF _ reads_flag [OF at_flag_ends(1) at_sets(1) reads_no_user_mod]]) auto
  with False show ?thesis by (cases "nu = 0") (simp_all add: at_flags_def [abs_def])
qed

definition at_syntax :: "string option \<Rightarrow> at_vars \<Rightarrow> at_vars" where
  "at_syntax syn v = (case syn of None \<Rightarrow> v | Some s \<Rightarrow> v\<lparr>at_result := (at_result v)\<lparr>at_syntax_oid := Some s\<rparr>\<rparr>)"

abbreviation (input) syntax_text :: "string option \<Rightarrow> string" where
  "syntax_text syn \<equiv> (case syn of None \<Rightarrow> [] | Some s \<Rightarrow> ''SYNTAX '' @ quoted s @ '' '')"

lemma reads_syntax:
  assumes mem: "memory_ok E" and S: "S \<in> {at_state 4 2, at_state 5 8}"
    and syn: "case syn of None \<Rightarrow> True | Some s \<Rightarrow> ragel_final syntax_value s"
  shows "reads (at_exec E) S (syntax_text syn @ flags_text sv nu) (\<lambda>v. at_flags sv nu (at_syntax syn v))"
proof (cases syn)
  case None
  have "reads (at_exec E) S (flags_text sv nu) (at_flags sv nu)"
    by (rule reads_flags) (use S in auto)
  with None show ?thesis by (simp add: at_syntax_def)
next
  case (Some s)
  then have s: "s \<in> rl_lang syntax_value"
    using syn ragel_final_mem by simp
  note rest = reads_piece [OF at_syntax_pieces(4) reads_flags [of "at_state 6 10" E sv nu]]
  note symbol = at_actions.reads_symbol [OF at_syntax_pieces(3) s at_stores(2) [OF mem] rest]
  have "reads (at_exec E) S ((''SYNTAX '' @ [CHR 39]) @ s @ CHR 39 # '' '' @ flags_text sv nu)
      (\<lambda>v. at_flags sv nu (v\<lparr>at_result := (at_result v)\<lparr>at_syntax_oid := Some s\<rparr>\<rparr>))"
    by (rule reads_piece [OF _ symbol]) (use S at_syntax_pieces(1,2) in auto)
  with Some show ?thesis by (simp add: at_syntax_def quoted_def)
qed

lemma at_names_value:
  assumes "ns \<noteq> []" and "at_name_slots v = None" and "at_name_index v = 0"
  shows "at_name_slots (add_names add_at_name ns v) = Some (map Some ns)"
    and "at_result (add_names add_at_name ns v) = at_result v"
  using add_names_slots [of at_name_slots add_at_name at_name_index v ns] assms
    add_names_keeps [of at_result add_at_name ns v]
  by (simp_all add: add_at_name_def)

definition at_rest :: "ldap_attribute_type \<Rightarrow> at_vars \<Rightarrow> at_vars" where
  "at_rest ty v = at_flags (at_single_value ty) (at_no_user_mod ty) (at_syntax (at_syntax_oid ty)
     (case at_names ty of None \<Rightarrow> v | Some ns \<Rightarrow> add_names add_at_name ns v))"

lemma reads_type:
  assumes mem: "memory_ok E" and ty: "printable_type ty" and oid: "at_oid ty = Some oid"
  shows "reads (at_exec E) [fst (embed_order attribute_type_machine 0)] (print_attribute_type ty)
    (\<lambda>v. at_rest ty (v\<lparr>at_result := (at_result v)\<lparr>at_oid := Some oid\<rparr>\<rparr>))"
proof -
  have syn: "case at_syntax_oid ty of None \<Rightarrow> True | Some s \<Rightarrow> ragel_final syntax_value s"
    and o: "oid \<in> rl_lang numericoid"
    using ty oid ragel_final_mem by (simp_all add: printable_type_def)
  note tail = reads_syntax [OF mem _ syn]
  let ?tail = "syntax_text (at_syntax_oid ty) @ flags_text (at_single_value ty) (at_no_user_mod ty)"
  have names: "reads (at_exec E) (at_state 4 2) (print_names (at_names ty) @ ?tail) (at_rest ty)"
  proof (cases "at_names ty")
    case None
    with tail [of "at_state 4 2"] show ?thesis by (simp add: at_rest_def [abs_def])
  next
    case (Some ns)
    then have "ns \<noteq> []" "list_all (ragel_final keystring) ns"
      using ty by (simp_all add: printable_type_def printable_names_def)
    from at_names.reads_names [OF at_stores(3) [OF mem] this tail [of "at_state 5 8"]] Some show ?thesis
      by (simp add: at_rest_def [abs_def])
  qed
  have "reads (at_exec E) (remdups (map snd (ader CHR '' '' (at_tail 3 2)))) (print_names (at_names ty) @ ?tail) (at_rest ty)"
    unfolding at_oid_pieces(3) by (rule names)
  from reads_piece [OF at_oid_pieces(1) at_actions.reads_symbol [OF at_oid_pieces(2) o at_stores(1) [OF mem] this]]
  show ?thesis
    by (simp add: print_attribute_type_def oid)
qed

lemma at_rest_fields:
  assumes "at_name_slots v = None" and "at_name_index v = 0" and "at_names ty \<noteq> Some []"
  shows "c_strings (at_name_slots (at_rest ty v)) = at_names ty"
    and "at_result (at_rest ty v) = (at_result v)
      \<lparr>at_syntax_oid := (case at_syntax_oid ty of None \<Rightarrow> at_syntax_oid (at_result v) | Some s \<Rightarrow> Some s),
       at_single_value := (if at_single_value ty = 0 then at_single_value (at_result v) else 1),
       at_no_user_mod := (if at_no_user_mod ty = 0 then at_no_user_mod (at_result v) else 1)\<rparr>"
proof -
  let ?w = "case at_names ty of None \<Rightarrow> v | Some ns \<Rightarrow> add_names add_at_name ns v"
  have w: "c_strings (at_name_slots ?w) = at_names ty \<and> at_result ?w = at_result v"
  proof (cases "at_names ty")
    case None
    with assms show ?thesis by simp
  next
    case (Some ns)
    with assms at_names_value [of ns v] show ?thesis by simp
  qed
  have "at_name_slots (at_rest ty v) = at_name_slots ?w"
    by (cases "at_syntax_oid ty") (simp_all add: at_rest_def at_flags_def at_syntax_def)
  with w show "c_strings (at_name_slots (at_rest ty v)) = at_names ty" by simp
  have "at_result (at_rest ty v) = (at_result ?w)
      \<lparr>at_syntax_oid := (case at_syntax_oid ty of None \<Rightarrow> at_syntax_oid (at_result ?w) | Some s \<Rightarrow> Some s),
       at_single_value := (if at_single_value ty = 0 then at_single_value (at_result ?w) else 1),
       at_no_user_mod := (if at_no_user_mod ty = 0 then at_no_user_mod (at_result ?w) else 1)\<rparr>"
    by (cases "at_syntax_oid ty") (simp_all add: at_rest_def at_flags_def at_syntax_def)
  then show "at_result (at_rest ty v) = (at_result v)
      \<lparr>at_syntax_oid := (case at_syntax_oid ty of None \<Rightarrow> at_syntax_oid (at_result v) | Some s \<Rightarrow> Some s),
       at_single_value := (if at_single_value ty = 0 then at_single_value (at_result v) else 1),
       at_no_user_mod := (if at_no_user_mod ty = 0 then at_no_user_mod (at_result v) else 1)\<rparr>"
    unfolding w [THEN conjunct2] .
qed

lemma attribute_type_eqI:
  "at_oid a = at_oid b \<Longrightarrow> at_names a = at_names b \<Longrightarrow> at_syntax_oid a = at_syntax_oid b \<Longrightarrow>
   at_single_value a = at_single_value b \<Longrightarrow> at_no_user_mod a = at_no_user_mod b \<Longrightarrow> (a :: ldap_attribute_type) = b"
  by simp

lemma at_rest_value:
  assumes "printable_type ty" and "at_oid ty = Some oid"
  shows "at_value (at_rest ty \<lparr>at_result = zero_attribute_type\<lparr>at_oid := Some oid\<rparr>, at_name_slots = None, at_name_index = 0\<rparr>) = ty"
proof -
  let ?v = "\<lparr>at_result = zero_attribute_type\<lparr>at_oid := Some oid\<rparr>, at_name_slots = None, at_name_index = 0\<rparr>"
  have flags: "at_single_value ty = 0 \<or> at_single_value ty = 1" "at_no_user_mod ty = 0 \<or> at_no_user_mod ty = 1"
    and names: "at_names ty \<noteq> Some []"
    using assms by (auto simp: printable_type_def printable_names_def)
  have "at_name_slots ?v = None" "at_name_index ?v = 0" by simp_all
  note fields = at_rest_fields [OF this names]
  show ?thesis
    unfolding at_value_def fields
    by (rule attribute_type_eqI)
      (use flags assms(2) in \<open>auto simp: zero_attribute_type_def split: option.splits\<close>)
qed

lemma attribute_type_parses:
  assumes "memory_ok E" and "printable_type ty"
  shows "\<exists>c'. same_but_world c c' \<and>
    parse_attribute_type E (Some p) (Some (print_attribute_type ty)) c = Some (Some ty, c')"
proof -
  obtain oid where oid: "at_oid ty = Some oid" using assms(2) by (auto simp: printable_type_def split: option.splits)
  let ?s = "print_attribute_type ty"
  let ?v = "\<lparr>at_result = zero_attribute_type, at_name_slots = None, at_name_index = 0\<rparr>"
  obtain c1 where c1: "alloc E c = (True, c1)" "same_but_world c c1"
    using memory_ok_alloc [OF assms(1)] by blast
  note r = reads_run [OF reads_type [OF assms oid]]
  obtain k c2 where c2: "same_but_world c1 c2"
    "exec_trace (at_exec E ?s) (fst (ra_exec attribute_type_machine ?s)) (0, ?v, c1) =
      Some (k, at_rest ty (?v\<lparr>at_result := (at_result ?v)\<lparr>at_oid := Some oid\<rparr>\<rparr>), c2)"
    using r(2) by metis
  have "parse_attribute_type_description E (Some p) (Some ?s) c = Some (Some ty, c2)"
    using c1 c2(2) r(1) at_rest_value [OF assms(2) oid]
    by (simp add: parse_attribute_type_description_def split_beta Let_def)
  moreover have "?s \<noteq> []" by (simp add: print_attribute_type_def)
  ultimately show ?thesis
    using c1(2) c2(1) by (auto simp: parse_attribute_type_def intro: same_but_world_trans)
qed

text \<open>
  C25: Parsing what a printable attribute type prints to gives back the attribute type, its OID, all its names,
  the syntax and both flags.
\<close>

theorem attribute_type_roundtrip:
  assumes "memory_ok E" and "printable_type ty"
  shows "\<exists>c'. same_but_world c c' \<and>
    parse_attribute_type E (Some p) (Some (print_attribute_type ty)) c = Some (Some ty, c')"
  by (rule attribute_type_parses [OF assms])

section \<open>What any input gives\<close>

definition at_vars_ok :: "string \<Rightarrow> at_vars \<Rightarrow> bool" where
  "at_vars_ok s v \<longleftrightarrow>
     pieces_ok s (at_name_slots v) (at_name_index v) \<and>
     list_all (piece s) (case at_oid (at_result v) of None \<Rightarrow> [] | Some x \<Rightarrow> [x]) \<and>
     list_all (piece s) (case at_syntax_oid (at_result v) of None \<Rightarrow> [] | Some x \<Rightarrow> [x]) \<and>
     at_single_value (at_result v) \<in> {0, 1} \<and> at_no_user_mod (at_result v) \<in> {0, 1}"

lemma at_exec_keeps:
  assumes mem: "memory_ok E" and p: "start \<le> p" "p < length s" and ok: "at_vars_ok s v"
  shows "\<exists>start' v' c'. at_exec E s (a, p) (start, v, c) = Some (start', v', c') \<and> start' \<le> p \<and>
    at_vars_ok s v' \<and> same_but_world c c'"
proof -
  have keep: ?thesis if "at_exec E s (a, p) (start, v, c) = Some (k, v, c)" "k \<le> p" for k
    using that ok by auto
  have "start = p \<or> start < p" using p(1) by linarith
  then consider "a = At_start" | "a = At_single_value" | "a = At_no_user_modification" | "start = p"
    | "start < p" "a = At_oid_end" | "start < p" "a = At_syntax_end" | "start < p" "a = At_name_end"
    by (cases a) blast+
  then show ?thesis
  proof cases
    case 4
    show ?thesis
    proof (cases "a = At_single_value \<or> a = At_no_user_modification")
      case True
      then show ?thesis using ok p by (auto simp: at_vars_ok_def)
    next
      case False
      then have "at_exec E s (a, p) (start, v, c) = Some (p, v, c)"
        using 4 by (cases a) simp_all
      then show ?thesis using keep by blast
    qed
  next
    case 5
    obtain x c' where "strndup E s start p c = (Some x, c')" "piece s x" "same_but_world c c'"
      using strndup_piece [OF mem 5(1) p(2)] by blast
    then show ?thesis using 5 ok by (auto simp: at_vars_ok_def)
  next
    case 6
    obtain x c' where "strndup E s start p c = (Some x, c')" "piece s x" "same_but_world c c'"
      using strndup_piece [OF mem 6(1) p(2)] by blast
    then show ?thesis using 6 ok by (auto simp: at_vars_ok_def)
  next
    case 7
    have "pieces_ok s (at_name_slots v) (at_name_index v)" using ok by (simp add: at_vars_ok_def)
    then obtain slots index c' where "push_symbol E s start p (at_name_slots v) (at_name_index v) c = Some (slots, index, c')"
      "pieces_ok s (Some slots) index" "same_but_world c c'"
      using push_symbol_piece [OF mem 7(1) p(2)] by blast
    then show ?thesis using 7 ok by (auto simp: at_vars_ok_def)
  qed (use keep ok p in \<open>auto simp: at_vars_ok_def\<close>)
qed

definition type_well_formed :: "string \<Rightarrow> ldap_attribute_type \<Rightarrow> bool" where
  "type_well_formed s ty \<longleftrightarrow>
     names_ok s (at_names ty) \<and>
     (\<forall>x. at_oid ty = Some x \<or> at_syntax_oid ty = Some x \<longrightarrow> piece s x) \<and>
     at_single_value ty \<in> {0, 1} \<and> at_no_user_mod ty \<in> {0, 1}"

lemma at_vars_ok_value: "at_vars_ok s v \<Longrightarrow> type_well_formed s (at_value v)"
  by (auto simp: at_vars_ok_def type_well_formed_def at_value_def pieces_ok_names)

lemma parse_attribute_type_total:
  assumes mem: "memory_ok E" and s: "s \<noteq> []"
  shows "\<exists>v c'. parse_attribute_type E (Some p) (Some s) c =
      Some (if snd (ra_exec attribute_type_machine s) then Some (at_value v) else None, c') \<and>
    at_vars_ok s v \<and> same_but_world c c'"
proof -
  let ?v = "\<lparr>at_result = zero_attribute_type, at_name_slots = None, at_name_index = 0\<rparr>"
  obtain c1 where c1: "alloc E c = (True, c1)" "same_but_world c c1"
    using memory_ok_alloc [OF mem] by blast
  have "at_vars_ok s ?v" by (simp add: at_vars_ok_def pieces_ok_def zero_attribute_type_def)
  from exec_inv [where ex = "at_exec E" and I = "at_vars_ok s", OF this at_exec_keeps [OF mem], of attribute_type_machine c1]
  obtain k v c2 where "exec_trace (at_exec E s) (fst (ra_exec attribute_type_machine s)) (0, ?v, c1) = Some (k, v, c2)"
    "at_vars_ok s v" "same_but_world c1 c2"
    by blast
  then show ?thesis
    using c1 s by (auto simp: parse_attribute_type_def parse_attribute_type_description_def split_beta
        intro: same_but_world_trans)
qed

text \<open>
  C26: Whatever the input, an attribute type the parser returns is well formed: an array of names is not
  empty, every string in it is a nonempty piece of the input, and the flags are 0 or 1.
\<close>

theorem parsed_attribute_types_are_well_formed:
  assumes "memory_ok E" and "parse_attribute_type E (Some p) (Some s) c = Some (Some ty, c')"
  shows "type_well_formed s ty \<and> same_but_world c c'"
proof -
  have "s \<noteq> []" using assms(2) by (auto simp: parse_attribute_type_def)
  from parse_attribute_type_total [OF assms(1) this, of p c] assms(2) at_vars_ok_value show ?thesis
    by (auto split: if_splits)
qed

text \<open>
  The parser returns an attribute type for exactly the nonempty inputs that can be extended to a
  description: it does not test for a final state, so a description cut short is accepted.
\<close>

lemma live_attribute_type_machine: "live (erase attribute_type_machine)"
  by code_simp

theorem attribute_types_accepted:
  assumes "memory_ok E"
  shows "(\<exists>ty c'. parse_attribute_type E (Some p) (Some s) c = Some (Some ty, c')) \<longleftrightarrow>
    s \<noteq> [] \<and> (\<exists>t. s @ t \<in> rl_lang (erase attribute_type_machine))"
proof (cases "s = []")
  case True
  then show ?thesis by (simp add: parse_attribute_type_def)
next
  case False
  from parse_attribute_type_total [OF assms this, of p c] show ?thesis
    using False ra_exec_viable_run [OF live_attribute_type_machine, of s] by auto
qed

definition demo_type :: ldap_attribute_type where
  "demo_type = zero_attribute_type
     \<lparr>at_oid := Some ''2.5.4.3'', at_names := Some [''cn'', ''commonName''],
      at_syntax_oid := Some ''1.3.6'', at_single_value := 1\<rparr>"

lemma demo_type_printable: "printable_type demo_type"
  by code_simp

lemma attribute_type_roundtrip_witness:
  "\<exists>c'. parse_attribute_type demo_ext (Some 0)
     (Some (''( 2.5.4.3 NAME ( '' @ quoted ''cn'' @ '' '' @ quoted ''commonName'' @ '' ) SYNTAX '' @ quoted ''1.3.6'' @
        '' SINGLE-VALUE )'')) demo_conn = Some (Some demo_type, c')"
  using attribute_type_roundtrip [of demo_ext demo_type demo_conn 0] demo_type_printable
  by (auto simp: print_attribute_type_def demo_type_def zero_attribute_type_def quoted_def)

lemma parsed_attribute_types_are_well_formed_witness:
  "\<exists>c'. parse_attribute_type demo_ext (Some 0) (Some (print_attribute_type demo_type)) demo_conn = Some (Some demo_type, c') \<and>
     type_well_formed (print_attribute_type demo_type) demo_type"
proof -
  obtain c' where "parse_attribute_type demo_ext (Some 0) (Some (print_attribute_type demo_type)) demo_conn = Some (Some demo_type, c')"
    using attribute_type_parses [of demo_ext demo_type demo_conn 0] demo_type_printable by auto
  with parsed_attribute_types_are_well_formed [OF _ this] show ?thesis by auto
qed

text \<open>A description that ends inside its OID is accepted, with nothing in it.\<close>

lemma truncated_description_is_accepted:
  "parse_attribute_type demo_ext (Some 0) (Some ''( 2.5.4'') demo_conn = Some (Some zero_attribute_type, demo_conn)"
proof -
  have "ra_exec attribute_type_machine ''( 2.5.4'' = ([(At_start, 2)], True)" by code_simp
  then show ?thesis
    by (simp add: parse_attribute_type_def parse_attribute_type_description_def at_value_def zero_attribute_type_def)
qed

end
