(* ===== verification/Object_Class_Parser.thy ===== *)
theory Object_Class_Parser
  imports Description_Parsing
begin

text \<open>
  \<open>src/src/parsers/object_class_description.rl\<close> and its entry point in \<open>src/src/ldap_parsers.c\<close>: the
  machine of the file, rule by rule, and one function per action on the variables of the C function.
  The result is undefined (\<open>None\<close>) when \<open>talloc_realloc\<close> fails, because the actions write through the
  array without a test. The actions \<open>write_must\<close> and \<open>write_may\<close> of the file are embedded in no rule.
\<close>

section \<open>The machine\<close>

datatype oc_action =
    Oc_start | Oc_numericoid_end | Oc_name_end | Oc_oid_end | Oc_write_sups | Oc_write_must | Oc_write_may
  | Oc_set_structural | Oc_set_auxiliary

definition any_oid :: rl where "any_oid = RAlt keystring numericoid"

definition oid_rule :: "oc_action ra" where
  "oid_rule = ALeave Oc_oid_end (AEnter Oc_start (APure any_oid))"

definition oidlist_rule :: "oc_action ra" where
  "oidlist_rule = ASeq oid_rule (AStar (aseqs [APure whsp, APure (lit ''$''), APure whsp, oid_rule]))"

definition oids_rule :: "oc_action ra" where
  "oids_rule = AAlt oid_rule (aseqs [APure (lit ''(''), APure whsp, oidlist_rule, APure whsp, APure (lit '')'')])"

text \<open>The parts of \<open>ObjectClassDescription\<close> in their order.\<close>

definition oc_parts :: "oc_action ra list" where
  "oc_parts =
     [APure (lit ''(''), ALeave Oc_start (APure whsp), ALeave Oc_numericoid_end (APure numericoid), APure whsp,
      aopt (aseqs [APure (lit_i ''NAME''), qdescrs Oc_start Oc_name_end]),
      aopt (aseqs [APure (lit_i ''SUP''), APure whsp, ALeave Oc_write_sups oids_rule, APure whsp]),
      aopt (aseqs [AAlt (APure (lit_i ''ABSTRACT''))
                    (AAlt (ALeave Oc_set_structural (APure (lit_i ''STRUCTURAL'')))
                      (ALeave Oc_set_auxiliary (APure (lit_i ''AUXILIARY'')))), APure whsp]),
      aopt (aseqs [APure (lit_i ''MUST''), APure whsp, oids_rule, APure whsp]),
      aopt (aseqs [APure (lit_i ''MAY''), APure whsp, oids_rule]),
      APure whsp, APure (lit '')'')]"

definition object_class_machine :: "oc_action ra" where
  "object_class_machine =
     ASeq (aopt (aseqs [APure (lit_i ''objectClasses''), APure (lit '':''), APure whsp])) (aseqs oc_parts)"

text \<open>The parts written out, for evaluation.\<close>

lemmas oc_parts_eval [code] = oc_parts_def [simplified oids_rule_def oidlist_rule_def oid_rule_def any_oid_def grammar_defs, simplified,
    simplified letter_classes_def, simplified]

section \<open>The actions\<close>

text \<open>
  The variables of the generated function that actions use, beside \<open>symbol_start\<close>; arrays are kept as
  their slots, readers stop at the first NULL. An array that has been handed to the result is the
  result's alone: \<open>oids\<close> is set to NULL.
\<close>

record oc_vars =
  oc_result :: ldap_object_class
  oc_name_slots :: "string option list option"
  oc_name_index :: nat
  oc_oid_slots :: "string option list option"
  oc_oid_index :: nat
  oc_sup_slots :: "string option list option"
  oc_must_slots :: "string option list option"
  oc_may_slots :: "string option list option"

fun oc_exec ::
  "('w, 'h) ext \<Rightarrow> string \<Rightarrow> oc_action \<times> nat \<Rightarrow> nat \<times> oc_vars \<times> ('w, 'h) conn \<Rightarrow>
     (nat \<times> oc_vars \<times> ('w, 'h) conn) option" where
  "oc_exec E inp (Oc_start, p) (start, v, c) = Some (p, v, c)"
| "oc_exec E inp (Oc_numericoid_end, p) (start, v, c) =
     (if start \<noteq> p
      then let (s, c1) = strndup E inp start p c
           in Some (p, v\<lparr>oc_result := (oc_result v)\<lparr>oc_oid := s\<rparr>\<rparr>, c1)
      else Some (p, v, c))"
| "oc_exec E inp (Oc_name_end, p) (start, v, c) =
     (if start \<noteq> p
      then do { (slots, index, c1) \<leftarrow> push_symbol E inp start p (oc_name_slots v) (oc_name_index v) c;
                Some (p, v\<lparr>oc_name_slots := Some slots, oc_name_index := index\<rparr>, c1) }
      else Some (p, v, c))"
| "oc_exec E inp (Oc_oid_end, p) (start, v, c) =
     (if start \<noteq> p
      then do { (slots, index, c1) \<leftarrow> push_symbol E inp start p (oc_oid_slots v) (oc_oid_index v) c;
                Some (p, v\<lparr>oc_oid_slots := Some slots, oc_oid_index := index\<rparr>, c1) }
      else Some (p, v, c))"
| "oc_exec E inp (Oc_write_sups, p) (start, v, c) =
     Some (start, if oc_oid_slots v \<noteq> None
                  then v\<lparr>oc_sup_slots := oc_oid_slots v, oc_oid_index := 0, oc_oid_slots := None\<rparr> else v, c)"
| "oc_exec E inp (Oc_write_must, p) (start, v, c) =
     Some (start, if oc_oid_slots v \<noteq> None
                  then v\<lparr>oc_must_slots := oc_oid_slots v, oc_oid_index := 0, oc_oid_slots := None\<rparr> else v, c)"
| "oc_exec E inp (Oc_write_may, p) (start, v, c) =
     Some (start, if oc_oid_slots v \<noteq> None
                  then v\<lparr>oc_may_slots := oc_oid_slots v, oc_oid_index := 0, oc_oid_slots := None\<rparr> else v, c)"
| "oc_exec E inp (Oc_set_structural, p) (start, v, c) =
     Some (start, v\<lparr>oc_result := (oc_result v)\<lparr>oc_kind := 1\<rparr>\<rparr>, c)"
| "oc_exec E inp (Oc_set_auxiliary, p) (start, v, c) =
     Some (start, v\<lparr>oc_result := (oc_result v)\<lparr>oc_kind := 2\<rparr>\<rparr>, c)"

definition oc_value :: "oc_vars \<Rightarrow> ldap_object_class" where
  "oc_value v = (oc_result v)
     \<lparr>oc_names := c_strings (oc_name_slots v), oc_sup_oids := c_strings (oc_sup_slots v),
      oc_at_oids_must := c_strings (oc_must_slots v), oc_at_oids_may := c_strings (oc_may_slots v)\<rparr>"

definition oc_vars0 :: oc_vars where
  "oc_vars0 = \<lparr>oc_result = zero_object_class, oc_name_slots = None, oc_name_index = 0, oc_oid_slots = None,
     oc_oid_index = 0, oc_sup_slots = None, oc_must_slots = None, oc_may_slots = None\<rparr>"

text \<open>The generated function; \<open>in\<close> is a C string of length \<open>len\<close>.\<close>

definition parse_object_class_description ::
  "('w, 'h) ext \<Rightarrow> nat option \<Rightarrow> string option \<Rightarrow> ('w, 'h) conn \<Rightarrow>
     (ldap_object_class option \<times> ('w, 'h) conn) option" where
  "parse_object_class_description E talloc_ctx inp c =
     (case (talloc_ctx, inp) of
        (Some _, Some s) \<Rightarrow>
          let (ok, c1) = alloc E c
          in if \<not> ok then Some (None, c1)
             else let (tr, accepted) = ra_exec object_class_machine s
                  in do { (start, v, c2) \<leftarrow> exec_trace (oc_exec E s) tr (0, oc_vars0, c1);
                          Some (if accepted then Some (oc_value v) else None, c2) }
      | _ \<Rightarrow> Some (None, c))"

definition parse_object_class ::
  "('w, 'h) ext \<Rightarrow> nat option \<Rightarrow> string option \<Rightarrow> ('w, 'h) conn \<Rightarrow>
     (ldap_object_class option \<times> ('w, 'h) conn) option" where
  "parse_object_class E talloc_ctx value c =
     (case value of None \<Rightarrow> Some (None, c)
      | Some s \<Rightarrow> if length s = 0 then Some (None, c) else parse_object_class_description E talloc_ctx (Some s) c)"

lemma oc_exec_same: "oc_exec E inp a (s, v, c) = Some (s', v', c') \<Longrightarrow> same_but_world c c'"
  by (cases a; cases "fst a")
    (auto split: if_splits prod.splits elim!: bind_SomeE dest: strndup_same push_symbol_same)

lemma oc_trace_same:
  "exec_trace (oc_exec E inp) tr (s, v, c) = Some (s', v', c') \<Longrightarrow> same_but_world c c'"
  by (rule exec_trace_same [OF oc_exec_same])

lemma parse_object_class_same [conn_frame]:
  "parse_object_class E ctx value c = Some (r, c') \<Longrightarrow> same_but_world c c'"
  by (auto simp: parse_object_class_def parse_object_class_description_def Let_def
      split: option.splits if_splits prod.splits elim!: bind_SomeE
      dest!: alloc_same oc_trace_same intro: same_but_world_trans)

interpretation oc_actions: symbol_actions "oc_exec E" Oc_start for E :: "('w, 'h) ext"
  by unfold_locales simp

section \<open>Printing and parsing object classes\<close>

text \<open>
  Descriptions with an OID, names, one superior and a kind. A printable superior has none of the
  letters A, S and M behind its first byte.
\<close>

definition print_object_class :: "ldap_object_class \<Rightarrow> string" where
  "print_object_class cls =
     ''( '' @ the (oc_oid cls) @ '' '' @ print_names (oc_names cls) @
     (case oc_sup_oids cls of Some [s] \<Rightarrow> ''SUP '' @ s @ '' '' | _ \<Rightarrow> []) @
     (if oc_kind cls = 1 then ''STRUCTURAL '' else if oc_kind cls = 2 then ''AUXILIARY '' else ''ABSTRACT '') @ '')''"

definition printable_superior :: "string \<Rightarrow> bool" where
  "printable_superior s \<longleftrightarrow> ragel_final any_oid s \<and> list_all (\<lambda>x. x \<notin> set ''aAsSmM'') (tl s)"

definition printable_class :: "ldap_object_class \<Rightarrow> bool" where
  "printable_class cls \<longleftrightarrow>
     (case oc_oid cls of None \<Rightarrow> False | Some x \<Rightarrow> ragel_final numericoid x) \<and> printable_names (oc_names cls) \<and>
     (case oc_sup_oids cls of None \<Rightarrow> True | Some ss \<Rightarrow> length ss = 1 \<and> list_all printable_superior ss) \<and>
     oc_kind cls \<in> {0, 1, 2} \<and> oc_at_oids_must cls = None \<and> oc_at_oids_may cls = None"

definition oc_tail :: "nat \<Rightarrow> nat \<Rightarrow> (nat \<times> oc_action) ra" where
  "oc_tail n k = fst (embed_order (aseqs (drop n oc_parts)) k)"

abbreviation (input) oc_state :: "nat \<Rightarrow> nat \<Rightarrow> (nat \<times> oc_action) ra list" where
  "oc_state n k \<equiv> [ASeq (APure whsp) (oc_tail n k), oc_tail 9 29]"

definition oc_after_name :: "(nat \<times> oc_action) ra" where
  "oc_after_name = aseqs [APure (byte 39), APure whsp, oc_tail 5 8]"

definition oc_after_listed_name :: "(nat \<times> oc_action) ra" where
  "oc_after_listed_name = aseqs [APure (byte 39), APure whsp,
     fst (embed_order (AStar (qdescr Oc_start Oc_name_end)) 6), APure (byte 41), APure whsp, oc_tail 5 8]"

abbreviation (input) after_superior :: "(nat \<times> oc_action) ra" where
  "after_superior \<equiv> ASeq (APure whsp) (oc_tail 6 15)"

abbreviation (input) oc_superior :: "(nat \<times> oc_action) ra list" where
  "oc_superior \<equiv> [aseqs [APure whsp, ALeave (14, Oc_write_sups) (fst (embed_order oids_rule 8)), after_superior]]"

lemma oc_oid_pieces:
  "ra_run [fst (embed_order object_class_machine 0)] 0 ''( '' =
    ([], [ASeq (ALeave (0, Oc_start) (APure whsp)) (inside (1, Oc_numericoid_end) (oc_tail 3 2) numericoid)])"
  "symbol_ok whsp numericoid (oc_tail 3 2) CHR '' ''"
  "remdups (map snd (ader CHR '' '' (oc_tail 3 2))) = oc_state 4 2"
  by code_simp+

lemma oc_name_pieces:
  "ra_run (oc_state 4 2) 0 (''NAME '' @ [CHR 39]) = ([], name_state Oc_start Oc_name_end 2 oc_after_name)"
  "ra_run (oc_state 4 2) 0 (''NAME ( '' @ [CHR 39]) = ([], name_state Oc_start Oc_name_end 4 oc_after_listed_name)"
  "symbol_ok REps keystring oc_after_name (CHR 39)"
  "symbol_ok REps keystring oc_after_listed_name (CHR 39)"
  "ra_run (remdups (map snd (ader (CHR 39) oc_after_name))) 0 '' '' = ([], oc_state 5 8)"
  "ra_run (remdups (map snd (ader (CHR 39) oc_after_listed_name))) 0 ('' '' @ [CHR 39]) =
    ([], name_state Oc_start Oc_name_end 6 oc_after_listed_name)"
  "ra_run (remdups (map snd (ader (CHR 39) oc_after_listed_name))) 0 '' ) '' = ([], oc_state 5 8)"
  by code_simp+

interpretation oc_names: named_description "oc_exec E" Oc_start Oc_name_end "oc_state 4 2" "oc_state 5 8"
    oc_after_name oc_after_listed_name for E :: "('w, 'h) ext"
  by unfold_locales (fact oc_name_pieces)+

lemma oc_superior_pieces:
  "ra_run (oc_state 5 8) 0 ''SUP '' = ([], oc_superior)"
  "ra_run (oc_state 4 2) 0 ''SUP '' = ([], oc_superior)"
  by code_simp+

lemma oc_superior_left:
  "map (\<lambda>(as, s). ((9, Oc_oid_end) # (14, Oc_write_sups) # as, s)) (ader CHR '' '' after_superior) =
     map (\<lambda>s. ([(9, Oc_oid_end), (14, Oc_write_sups)], s)) (oc_state 6 15)"
  by code_simp

text \<open>What can follow a superior begins with a space, a parenthesis or one of the letters A, S, M.\<close>

definition ends_superior :: string where "ends_superior = '' )aAsSmM''"

lemma oc_superior_firsts:
  "list_all (\<lambda>(lo, hi). lo = hi \<and> lo \<in> set (map of_char ends_superior)) (afirst after_superior)"
  by code_simp

abbreviation (input) in_kind :: "(nat \<times> oc_action) ra \<Rightarrow> (nat \<times> oc_action) ra list" where
  "in_kind r \<equiv> [ASeq r (ASeq (APure whsp) (oc_tail 7 17))]"

lemma oc_kind_pieces:
  "ra_run (oc_state 4 2) 0 ''AB'' = ([], in_kind (APure (lit_i ''STRACT'')))"
  "ra_run (oc_state 5 8) 0 ''AB'' = ([], in_kind (APure (lit_i ''STRACT'')))"
  "ra_run (oc_state 6 15) 0 ''AB'' = ([], in_kind (APure (lit_i ''STRACT'')))"
  "ra_run (oc_state 4 2) 0 ''ST'' = ([], in_kind (ALeave (15, Oc_set_structural) (APure (lit_i ''RUCTURAL''))))"
  "ra_run (oc_state 5 8) 0 ''ST'' = ([], in_kind (ALeave (15, Oc_set_structural) (APure (lit_i ''RUCTURAL''))))"
  "ra_run (oc_state 6 15) 0 ''ST'' = ([], in_kind (ALeave (15, Oc_set_structural) (APure (lit_i ''RUCTURAL''))))"
  "ra_run (oc_state 4 2) 0 ''AU'' = ([], in_kind (ALeave (16, Oc_set_auxiliary) (APure (lit_i ''XILIARY''))))"
  "ra_run (oc_state 5 8) 0 ''AU'' = ([], in_kind (ALeave (16, Oc_set_auxiliary) (APure (lit_i ''XILIARY''))))"
  "ra_run (oc_state 6 15) 0 ''AU'' = ([], in_kind (ALeave (16, Oc_set_auxiliary) (APure (lit_i ''XILIARY''))))"
  by code_simp+

lemma oc_kind_ends:
  "ra_run (in_kind (APure (lit_i ''STRACT''))) 0 ''STRACT )'' = ([], [APure REps])"
  "ra_run (in_kind (ALeave (15, Oc_set_structural) (APure (lit_i ''RUCTURAL'')))) 0 ''RUCTURAL )'' =
    ([(Oc_set_structural, 8)], [APure REps])"
  "ra_run (in_kind (ALeave (16, Oc_set_auxiliary) (APure (lit_i ''XILIARY'')))) 0 ''XILIARY )'' =
    ([(Oc_set_auxiliary, 7)], [APure REps])"
  by code_simp+

section \<open>The round trip\<close>

definition add_oc_name :: "string \<Rightarrow> oc_vars \<Rightarrow> oc_vars" where
  "add_oc_name w v =
     v\<lparr>oc_name_slots := Some (slot_added (oc_name_slots v) (oc_name_index v) w), oc_name_index := oc_name_index v + 1\<rparr>"

definition add_oid :: "string \<Rightarrow> oc_vars \<Rightarrow> oc_vars" where
  "add_oid w v =
     v\<lparr>oc_oid_slots := Some (slot_added (oc_oid_slots v) (oc_oid_index v) w), oc_oid_index := oc_oid_index v + 1\<rparr>"

definition written_sups :: "oc_vars \<Rightarrow> oc_vars" where
  "written_sups v = (if oc_oid_slots v \<noteq> None
     then v\<lparr>oc_sup_slots := oc_oid_slots v, oc_oid_index := 0, oc_oid_slots := None\<rparr> else v)"

lemma oc_stores:
  assumes "memory_ok E"
  shows "stores (oc_exec E) Oc_numericoid_end (\<lambda>w v. v\<lparr>oc_result := (oc_result v)\<lparr>oc_oid := Some w\<rparr>\<rparr>)"
    and "stores (oc_exec E) Oc_name_end add_oc_name" and "stores (oc_exec E) Oc_oid_end add_oid"
proof -
  show "stores (oc_exec E) Oc_numericoid_end (\<lambda>w v. v\<lparr>oc_result := (oc_result v)\<lparr>oc_oid := Some w\<rparr>\<rparr>)"
    by (rule stores_strndup [OF assms, where u = "\<lambda>x v. v\<lparr>oc_result := (oc_result v)\<lparr>oc_oid := x\<rparr>\<rparr>"]) simp
  let ?u = "\<lambda>slots index v. v\<lparr>oc_name_slots := Some slots, oc_name_index := index\<rparr>"
  have step: "oc_exec E inp (Oc_name_end, p) (s, v, c) =
      do { (slots, index, c1) \<leftarrow> push_symbol E inp s p (oc_name_slots v) (oc_name_index v) c;
           Some (p, ?u slots index v, c1) }"
    if "s \<noteq> p" for inp s p v and c :: "('a, 'b) conn"
    using that by simp
  note stores_push [where ex = "oc_exec E" and en = Oc_name_end and sl = oc_name_slots and ix = oc_name_index
      and u = ?u, OF assms step]
  then show "stores (oc_exec E) Oc_name_end add_oc_name"
    by (simp add: add_oc_name_def [abs_def])
  let ?w = "\<lambda>slots index v. v\<lparr>oc_oid_slots := Some slots, oc_oid_index := index\<rparr>"
  have step: "oc_exec E inp (Oc_oid_end, p) (s, v, c) =
      do { (slots, index, c1) \<leftarrow> push_symbol E inp s p (oc_oid_slots v) (oc_oid_index v) c;
           Some (p, ?w slots index v, c1) }"
    if "s \<noteq> p" for inp s p v and c :: "('a, 'b) conn"
    using that by simp
  note stores_push [where ex = "oc_exec E" and en = Oc_oid_end and sl = oc_oid_slots and ix = oc_oid_index
      and u = ?w, OF assms step]
  then show "stores (oc_exec E) Oc_oid_end add_oid"
    by (simp add: add_oid_def [abs_def])
qed

lemma oc_sets:
  "sets (oc_exec E) Oc_write_sups written_sups"
  "sets (oc_exec E) Oc_set_structural (\<lambda>v. v\<lparr>oc_result := (oc_result v)\<lparr>oc_kind := 1\<rparr>\<rparr>)"
  "sets (oc_exec E) Oc_set_auxiliary (\<lambda>v. v\<lparr>oc_result := (oc_result v)\<lparr>oc_kind := 2\<rparr>\<rparr>)"
  by (simp_all add: sets_def written_sups_def)

abbreviation (input) kind_text :: "int \<Rightarrow> string" where
  "kind_text k \<equiv> (if k = 1 then ''STRUCTURAL '' else if k = 2 then ''AUXILIARY '' else ''ABSTRACT '') @ '')''"

definition oc_kind_set :: "int \<Rightarrow> oc_vars \<Rightarrow> oc_vars" where
  "oc_kind_set k v = (if k = 0 then v else v\<lparr>oc_result := (oc_result v)\<lparr>oc_kind := k\<rparr>\<rparr>)"

lemma reads_kind:
  assumes S: "S \<in> {oc_state 4 2, oc_state 5 8, oc_state 6 15}" and k: "k \<in> {0, 1, 2}"
  shows "reads (oc_exec E) S (kind_text k) (oc_kind_set k)"
proof -
  have accept: "reads (oc_exec E) [APure REps] [] (\<lambda>v. v)" by (rule reads_end) simp
  from k consider "k = 0" | "k = 1" | "k = 2" by auto
  then show ?thesis
  proof cases
    case 1
    have "reads (oc_exec E) S (''AB'' @ ''STRACT )'' @ []) (\<lambda>v. v)"
      by (rule reads_piece [OF _ reads_piece [OF oc_kind_ends(1) accept]]) (use S oc_kind_pieces(1-3) in auto)
    with 1 show ?thesis by (simp add: oc_kind_set_def [abs_def])
  next
    case 2
    have "reads (oc_exec E) S (''ST'' @ ''RUCTURAL )'' @ []) (\<lambda>v. v\<lparr>oc_result := (oc_result v)\<lparr>oc_kind := 1\<rparr>\<rparr>)"
      by (rule reads_piece [OF _ reads_flag [OF oc_kind_ends(2) oc_sets(2) accept]]) (use S oc_kind_pieces(4-6) in auto)
    with 2 show ?thesis by (simp add: oc_kind_set_def [abs_def])
  next
    case 3
    have "reads (oc_exec E) S (''AU'' @ ''XILIARY )'' @ []) (\<lambda>v. v\<lparr>oc_result := (oc_result v)\<lparr>oc_kind := 2\<rparr>\<rparr>)"
      by (rule reads_piece [OF _ reads_flag [OF oc_kind_ends(3) oc_sets(3) accept]]) (use S oc_kind_pieces(7-9) in auto)
    with 3 show ?thesis by (simp add: oc_kind_set_def [abs_def])
  qed
qed

section \<open>Superiors\<close>

abbreviation (input) superior_thread :: "rl \<Rightarrow> (nat \<times> oc_action) ra" where
  "superior_thread \<equiv> inside2 (9, Oc_oid_end) (14, Oc_write_sups) after_superior"

lemma superior_numbered:
  "fst (embed_order oids_rule 8) = AAlt (ALeave (9, Oc_oid_end) (AEnter (8, Oc_start) (APure any_oid)))
     (aseqs [APure (lit ''(''), APure whsp, fst (embed_order oidlist_rule 10), APure whsp, APure (lit '')'')])"
  by code_simp

lemma any_oid_alphabet: "x \<in> {CHR '' '', CHR ''('', CHR '')''} \<Longrightarrow> \<not> in_cls (alphabet any_oid) x"
  by (elim insertE emptyE; hypsubst; code_simp)

lemma in_points: "in_cls rs x \<Longrightarrow> list_all (\<lambda>(lo, hi). lo = hi \<and> lo \<in> A) rs \<Longrightarrow> of_char x \<in> A"
  by (induction rs) (auto simp: in_cls_def)

lemma of_char_mem: "(of_char x :: nat) \<in> set (map of_char s) \<longleftrightarrow> x \<in> set s"
  by auto

lemma superior_quiet:
  assumes "w \<in> rl_lang any_oid" and "x \<in> set w" and "x \<notin> set ''aAsSmM''"
  shows "ader x after_superior = []"
proof (rule ader_afirst, rule notI)
  assume "in_cls (afirst after_superior) x"
  then have "of_char x \<in> set (map of_char ends_superior :: nat list)"
    using oc_superior_firsts by (rule in_points)
  then have "x \<in> set ends_superior" unfolding of_char_mem .
  with assms(3) have "x = CHR '' '' \<or> x = CHR '')''" by (auto simp: ends_superior_def)
  with lang_alphabet [OF assms(1,2)] any_oid_alphabet show False by blast
qed

lemma superior_enter:
  assumes "c # v \<in> rl_lang any_oid"
  shows "ra_step c oc_superior = ([Oc_start], map superior_thread (rl_step c [any_oid]))"
proof -
  have ne: "pder c any_oid \<noteq> []"
    using pder_lang [of c any_oid v] assms by auto
  have "in_cls (alphabet any_oid) c" by (rule lang_alphabet [OF assms]) simp
  then have "c \<noteq> CHR '' ''" "c \<noteq> CHR ''(''" using any_oid_alphabet by blast+
  then have "of_char c \<noteq> (32 :: nat)" "of_char c \<noteq> (40 :: nat)"
    using of_char_eq_iff [of c "CHR '' ''"] of_char_eq_iff [of c "CHR ''(''"] by simp_all
  then have noW: "pder c whsp = []" and noP: "\<And>X. ader c (ASeq (APure (lit ''('')) X) = []"
    by (auto simp: whsp_def in_cls_def)
  have "\<not> nullable any_oid" by code_simp
  have "ader c (aseqs [APure whsp, ALeave (14, Oc_write_sups) (fst (embed_order oids_rule 8)), after_superior]) =
      map (\<lambda>r'. ([(8, Oc_start)], superior_thread r')) (pder c any_oid)"
    using noW noP \<open>\<not> nullable any_oid\<close> unfolding superior_numbered
    by (simp add: whsp_def comp_def)
  then have "ra_step c oc_superior = (merge_actions (concat (map (\<lambda>_. [(8, Oc_start)]) (pder c any_oid))),
      remdups (map superior_thread (pder c any_oid)))"
    by (simp add: ra_step_def comp_def)
  also have "merge_actions (concat (map (\<lambda>_. [(8, Oc_start)]) (pder c any_oid))) = [Oc_start]"
    using merge_actions_copies [of "pder c any_oid" "\<lambda>_. [(8, Oc_start)]" "[(8, Oc_start)]"] ne by simp
  also have "remdups (map superior_thread (pder c any_oid)) = map superior_thread (rl_step c [any_oid])"
    by (subst remdups_map_inj) (simp_all add: inj_def rl_step_def)
  finally show ?thesis .
qed

definition oc_superior_set :: "string list option \<Rightarrow> oc_vars \<Rightarrow> oc_vars" where
  "oc_superior_set sups v = (case sups of Some [s] \<Rightarrow> written_sups (add_oid s v) | _ \<Rightarrow> v)"

abbreviation (input) superior_text :: "string list option \<Rightarrow> string" where
  "superior_text sups \<equiv> (case sups of Some [s] \<Rightarrow> ''SUP '' @ s @ '' '' | _ \<Rightarrow> [])"

lemma reads_superior:
  assumes mem: "memory_ok E" and S: "S \<in> {oc_state 4 2, oc_state 5 8}" and k: "k \<in> {0, 1, 2}"
    and sups: "case sups of None \<Rightarrow> True | Some ss \<Rightarrow> length ss = 1 \<and> list_all printable_superior ss"
  shows "reads (oc_exec E) S (superior_text sups @ kind_text k) (\<lambda>v. oc_kind_set k (oc_superior_set sups v))"
proof (cases sups)
  case None
  have "reads (oc_exec E) S (kind_text k) (oc_kind_set k)"
    by (rule reads_kind) (use S k in auto)
  with None show ?thesis by (simp add: oc_superior_set_def)
next
  case (Some ss)
  then obtain s where ss: "ss = [s]" "printable_superior s"
    using sups by (auto simp: length_Suc_conv)
  have mem_s: "s \<in> rl_lang any_oid" and tl: "\<forall>x \<in> set (tl s). x \<notin> set ''aAsSmM''"
    using ss(2) ragel_final_mem by (auto simp: printable_superior_def list_all_iff)
  moreover have "\<not> nullable any_oid" by code_simp
  ultimately obtain c v where cv: "s = c # v" by (cases s) (auto simp: nullable_lang)
  let ?out = "\<lambda>c. map (\<lambda>(as, s). ((9, Oc_oid_end) # (14, Oc_write_sups) # as, s)) (ader c after_superior)"
  have quiet: "?out x = []" if "x \<in> set v" for x
    using superior_quiet [OF mem_s, of x] tl cv that by simp
  have rest: "reads (oc_exec E) (remdups (map snd (?out CHR '' ''))) (kind_text k) (oc_kind_set k)"
  proof -
    have "oc_tail 9 29 \<noteq> ASeq (APure whsp) (oc_tail 6 15)" by code_simp
    then have eq: "remdups (map snd (?out CHR '' '')) = oc_state 6 15"
      unfolding oc_superior_left by simp
    show ?thesis unfolding eq by (rule reads_kind) (use k in auto)
  qed
  have w: "c # v \<in> rl_lang any_oid" using mem_s cv by simp
  have d: "\<not> in_cls (alphabet any_oid) CHR '' ''" by (rule any_oid_alphabet) simp
  have acts: "fst t = [(9, Oc_oid_end), (14, Oc_write_sups)]" if "t \<in> set (?out CHR '' '')" for t
    using that unfolding oc_superior_left by auto
  have ne: "?out CHR '' '' \<noteq> []" unfolding oc_superior_left by simp
  have "reads (oc_exec E) oc_superior ((c # v) @ CHR '' '' # kind_text k)
      (\<lambda>x. oc_kind_set k (written_sups (add_oid (c # v) x)))"
    by (rule oc_actions.reads_framed [OF frame_inside2 w superior_enter [OF w] quiet d acts ne _ _
          oc_stores(3) [OF mem] oc_sets(1) rest]) simp_all
  then have "reads (oc_exec E) S (''SUP '' @ s @ CHR '' '' # kind_text k)
      (\<lambda>x. oc_kind_set k (written_sups (add_oid s x)))"
    unfolding cv by (rule reads_piece [rotated]) (use S oc_superior_pieces in auto)
  with Some ss(1) show ?thesis by (simp add: oc_superior_set_def)
qed

definition oc_rest :: "ldap_object_class \<Rightarrow> oc_vars \<Rightarrow> oc_vars" where
  "oc_rest cls v = oc_kind_set (oc_kind cls) (oc_superior_set (oc_sup_oids cls)
     (case oc_names cls of None \<Rightarrow> v | Some ns \<Rightarrow> add_names add_oc_name ns v))"

lemma reads_class_head:
  assumes mem: "memory_ok E" and names: "printable_names names" and x: "ragel_final numericoid x"
    and tail: "\<And>S. S \<in> {oc_state 4 2, oc_state 5 8} \<Longrightarrow> reads (oc_exec E) S t g"
  shows "reads (oc_exec E) [fst (embed_order object_class_machine 0)] (''( '' @ x @ '' '' @ print_names names @ t)
    (\<lambda>v. g (case names of None \<Rightarrow> v\<lparr>oc_result := (oc_result v)\<lparr>oc_oid := Some x\<rparr>\<rparr>
           | Some ns \<Rightarrow> add_names add_oc_name ns (v\<lparr>oc_result := (oc_result v)\<lparr>oc_oid := Some x\<rparr>\<rparr>)))"
proof -
  let ?g = "\<lambda>v. g (case names of None \<Rightarrow> v | Some ns \<Rightarrow> add_names add_oc_name ns v)"
  have "reads (oc_exec E) (oc_state 4 2) (print_names names @ t) ?g"
  proof (cases names)
    case None
    with tail [of "oc_state 4 2"] show ?thesis by simp
  next
    case (Some ns)
    then have "ns \<noteq> []" "list_all (ragel_final keystring) ns"
      using names by (simp_all add: printable_names_def)
    from oc_names.reads_names [OF oc_stores(2) [OF mem] this tail [of "oc_state 5 8"]] Some show ?thesis by simp
  qed
  then have "reads (oc_exec E) (remdups (map snd (ader CHR '' '' (oc_tail 3 2)))) (print_names names @ t) ?g"
    unfolding oc_oid_pieces(3) .
  from reads_piece [OF oc_oid_pieces(1) oc_actions.reads_symbol [OF oc_oid_pieces(2) ragel_final_mem [OF x] oc_stores(1) [OF mem] this]]
  show ?thesis by simp
qed

lemma reads_class:
  assumes mem: "memory_ok E" and cls: "printable_class cls" and oid: "oc_oid cls = Some x"
  shows "reads (oc_exec E) [fst (embed_order object_class_machine 0)] (print_object_class cls)
    (\<lambda>v. oc_rest cls (v\<lparr>oc_result := (oc_result v)\<lparr>oc_oid := Some x\<rparr>\<rparr>))"
proof -
  have sups: "case oc_sup_oids cls of None \<Rightarrow> True | Some ss \<Rightarrow> length ss = 1 \<and> list_all printable_superior ss"
    and k: "oc_kind cls \<in> {0, 1, 2}" and o: "ragel_final numericoid x" and names: "printable_names (oc_names cls)"
    using cls oid by (simp_all add: printable_class_def)
  from reads_class_head [OF mem names o reads_superior [OF mem _ k sups]] show ?thesis
    by (simp add: print_object_class_def oid oc_rest_def)
qed

lemma oc_names_value:
  assumes "ns \<noteq> []" and "oc_name_slots v = None" and "oc_name_index v = 0"
  shows "oc_name_slots (add_names add_oc_name ns v) = Some (map Some ns)"
    and "oc_result (add_names add_oc_name ns v) = oc_result v"
    and "oc_oid_slots (add_names add_oc_name ns v) = oc_oid_slots v"
    and "oc_oid_index (add_names add_oc_name ns v) = oc_oid_index v"
    and "oc_sup_slots (add_names add_oc_name ns v) = oc_sup_slots v"
    and "oc_must_slots (add_names add_oc_name ns v) = oc_must_slots v"
    and "oc_may_slots (add_names add_oc_name ns v) = oc_may_slots v"
  using add_names_slots [of oc_name_slots add_oc_name oc_name_index v ns] assms
    add_names_keeps [of oc_result add_oc_name ns v] add_names_keeps [of oc_oid_slots add_oc_name ns v]
    add_names_keeps [of oc_oid_index add_oc_name ns v] add_names_keeps [of oc_sup_slots add_oc_name ns v]
    add_names_keeps [of oc_must_slots add_oc_name ns v] add_names_keeps [of oc_may_slots add_oc_name ns v]
  by (simp_all add: add_oc_name_def)

lemma object_class_eqI:
  "oc_oid a = oc_oid b \<Longrightarrow> oc_names a = oc_names b \<Longrightarrow> oc_sup_oids a = oc_sup_oids b \<Longrightarrow> oc_kind a = oc_kind b \<Longrightarrow>
   oc_at_oids_must a = oc_at_oids_must b \<Longrightarrow> oc_at_oids_may a = oc_at_oids_may b \<Longrightarrow> (a :: ldap_object_class) = b"
  by simp

lemma oc_rest_value:
  assumes "printable_class cls" and oid: "oc_oid cls = Some x"
  shows "oc_value (oc_rest cls (oc_vars0\<lparr>oc_result := (oc_result oc_vars0)\<lparr>oc_oid := Some x\<rparr>\<rparr>)) = cls"
proof -
  let ?v = "oc_vars0\<lparr>oc_result := (oc_result oc_vars0)\<lparr>oc_oid := Some x\<rparr>\<rparr>"
  let ?w = "case oc_names cls of None \<Rightarrow> ?v | Some ns \<Rightarrow> add_names add_oc_name ns ?v"
  let ?s = "oc_superior_set (oc_sup_oids cls) ?w"
  have w: "c_strings (oc_name_slots ?w) = oc_names cls \<and> oc_result ?w = zero_object_class\<lparr>oc_oid := Some x\<rparr> \<and>
      oc_oid_slots ?w = None \<and> oc_oid_index ?w = 0 \<and> oc_sup_slots ?w = None \<and>
      oc_must_slots ?w = None \<and> oc_may_slots ?w = None"
  proof (cases "oc_names cls")
    case None
    then show ?thesis by (simp add: oc_vars0_def)
  next
    case (Some ns)
    then have "ns \<noteq> []" using assms(1) by (simp add: printable_class_def printable_names_def)
    moreover have "oc_name_slots ?v = None" "oc_name_index ?v = 0" by (simp_all add: oc_vars0_def)
    ultimately show ?thesis
      using oc_names_value [of ns ?v] Some by (simp add: oc_vars0_def)
  qed
  obtain w where weq: "w = ?w" by blast
  note w = w [folded weq]
  have sup: "c_strings (oc_sup_slots (oc_superior_set (oc_sup_oids cls) w)) = oc_sup_oids cls \<and>
      oc_name_slots (oc_superior_set (oc_sup_oids cls) w) = oc_name_slots w \<and>
      oc_result (oc_superior_set (oc_sup_oids cls) w) = oc_result w \<and>
      oc_must_slots (oc_superior_set (oc_sup_oids cls) w) = None \<and> oc_may_slots (oc_superior_set (oc_sup_oids cls) w) = None"
  proof (cases "oc_sup_oids cls")
    case None
    with w show ?thesis by (simp add: oc_superior_set_def)
  next
    case (Some ss)
    then obtain s where "ss = [s]" using assms(1) by (auto simp: printable_class_def length_Suc_conv)
    with Some w c_strings_full [of "[s]"] show ?thesis
      by (simp add: oc_superior_set_def written_sups_def add_oid_def)
  qed
  obtain s where seq: "s = oc_superior_set (oc_sup_oids cls) w" by blast
  note sup = sup [folded seq]
  have k: "oc_kind cls \<in> {0, 1, 2}" "oc_at_oids_must cls = None" "oc_at_oids_may cls = None"
    using assms(1) by (simp_all add: printable_class_def)
  have "oc_value (oc_kind_set (oc_kind cls) s) = cls"
    by (rule object_class_eqI)
      (use w sup k oid in \<open>auto simp: oc_value_def oc_kind_set_def zero_object_class_def\<close>)
  then show ?thesis
    unfolding oc_rest_def weq [symmetric] seq [symmetric] .
qed

lemma object_class_parses:
  assumes "memory_ok E" and "printable_class cls"
  shows "\<exists>c'. same_but_world c c' \<and>
    parse_object_class E (Some p) (Some (print_object_class cls)) c = Some (Some cls, c')"
proof -
  obtain x where oid: "oc_oid cls = Some x" using assms(2) by (auto simp: printable_class_def split: option.splits)
  let ?s = "print_object_class cls"
  obtain c1 where c1: "alloc E c = (True, c1)" "same_but_world c c1"
    using memory_ok_alloc [OF assms(1)] by blast
  note r = reads_run [OF reads_class [OF assms oid]]
  obtain k c2 where c2: "same_but_world c1 c2"
    "exec_trace (oc_exec E ?s) (fst (ra_exec object_class_machine ?s)) (0, oc_vars0, c1) =
      Some (k, oc_rest cls (oc_vars0\<lparr>oc_result := (oc_result oc_vars0)\<lparr>oc_oid := Some x\<rparr>\<rparr>), c2)"
    using r(2) by metis
  have "parse_object_class_description E (Some p) (Some ?s) c = Some (Some cls, c2)"
    using c1 c2(2) r(1) oc_rest_value [OF assms(2) oid]
    by (simp add: parse_object_class_description_def split_beta Let_def)
  moreover have "?s \<noteq> []" by (simp add: print_object_class_def)
  ultimately show ?thesis
    using c1(2) c2(1) by (auto simp: parse_object_class_def intro: same_but_world_trans)
qed

text \<open>
  C27: Parsing what a printable object class prints to gives back the object class: its OID, all its names,
  the superior and the kind.
\<close>

theorem object_class_roundtrip:
  assumes "memory_ok E" and "printable_class cls"
  shows "\<exists>c'. same_but_world c c' \<and>
    parse_object_class E (Some p) (Some (print_object_class cls)) c = Some (Some cls, c')"
  by (rule object_class_parses [OF assms])

definition demo_class :: ldap_object_class where
  "demo_class = zero_object_class
     \<lparr>oc_oid := Some ''2.5.6.6'', oc_names := Some [''person''], oc_sup_oids := Some [''top''], oc_kind := 1\<rparr>"

lemma demo_class_printable: "printable_class demo_class"
  by code_simp

lemma object_class_roundtrip_witness:
  "\<exists>c'. parse_object_class demo_ext (Some 0)
     (Some (''( 2.5.6.6 NAME '' @ quoted ''person'' @ '' SUP top STRUCTURAL )'')) demo_conn = Some (Some demo_class, c')"
  using object_class_roundtrip [of demo_ext demo_class demo_conn 0] demo_class_printable
  by (auto simp: print_object_class_def demo_class_def zero_object_class_def quoted_def)

section \<open>A superior that is cut in two\<close>

text \<open>
  Behind the superior the machine allows no space and the next keyword, so the letter \<open>s\<close> of \<open>person\<close>
  both continues the name and begins \<open>STRUCTURAL\<close>: the actions at the end of the name run there.
\<close>

lemma oc_person_piece:
  "ra_run oc_superior 0 ''person '' =
    ([(Oc_start, 0), (Oc_oid_end, 3), (Oc_write_sups, 3), (Oc_oid_end, 6), (Oc_write_sups, 6)], oc_state 6 15)"
  by code_simp

lemma reads_person:
  assumes mem: "memory_ok E" and S: "S \<in> {oc_state 4 2, oc_state 5 8}" and k: "k \<in> {0, 1, 2}"
  shows "reads (oc_exec E) S (''SUP person '' @ kind_text k)
    (\<lambda>v. oc_kind_set k (written_sups (add_oid ''son'' (written_sups (add_oid ''per'' v)))))"
proof -
  let ?u = "\<lambda>v. written_sups (add_oid ''son'' (written_sups (add_oid ''per'' v)))"
  let ?tr = "[(Oc_start, 0), (Oc_oid_end, 3), (Oc_write_sups, 3), (Oc_oid_end, 6), (Oc_write_sups, 6)]"
  have run: "\<exists>k c'. same_but_world c c' \<and>
      exec_trace (oc_exec E (pre @ ''person '' @ rest)) (map (\<lambda>(a, q). (a, length pre + q)) ?tr) (start, v, c) =
        Some (k, ?u v, c')" for pre rest start v and c :: "('a, 'b) conn"
  proof -
    have st: "\<exists>c'. same_but_world c c' \<and> oc_exec E (pre @ w @ post) (Oc_oid_end, length pre + length w) (length pre, v, c) =
        Some (length pre + length w, add_oid w v, c')" if "w \<noteq> []" for pre w post v and c :: "('a, 'b) conn"
      using oc_stores(3) [OF mem] that unfolding stores_def by blast
    obtain c1 where 1: "same_but_world c c1" "oc_exec E (pre @ ''per'' @ ''son '' @ rest)
        (Oc_oid_end, length pre + length ''per'') (length pre, v, c) = Some (length pre + length ''per'', add_oid ''per'' v, c1)"
      using st [of "''per''" c pre "''son '' @ rest" v] by blast
    let ?v = "written_sups (add_oid ''per'' v)"
    obtain c2 where 2: "same_but_world c1 c2" "oc_exec E ((pre @ ''per'') @ ''son'' @ '' '' @ rest)
        (Oc_oid_end, length (pre @ ''per'') + length ''son'') (length (pre @ ''per''), ?v, c1) =
          Some (length (pre @ ''per'') + length ''son'', add_oid ''son'' ?v, c2)"
      using st [of "''son''" c1 "pre @ ''per''" "'' '' @ rest" ?v] by blast
    have ws: "oc_exec E inp (Oc_write_sups, p) (k, v, c) = Some (k, written_sups v, c)" for inp p k v and c :: "('a, 'b) conn"
      using oc_sets(1) [of E] unfolding sets_def by blast
    from 1 2 show ?thesis
      by (auto simp: ws eval_nat_numeral intro: same_but_world_trans simp del: oc_exec.simps(4,5))
  qed
  have "reads (oc_exec E) oc_superior (''person '' @ kind_text k) (\<lambda>v. oc_kind_set k (?u v))"
    by (rule reads_trace [OF oc_person_piece reads_kind run]) (use k in auto)
  then have "reads (oc_exec E) S (''SUP '' @ ''person '' @ kind_text k) (\<lambda>v. oc_kind_set k (?u v))"
    by (rule reads_piece [rotated]) (use S oc_superior_pieces in auto)
  then show ?thesis by simp
qed

text \<open>
  C29: An object class whose superior is \<open>person\<close> is read as one whose superior is \<open>son\<close>.
\<close>

theorem superior_person_is_read_as_son:
  assumes "memory_ok E" and "printable_class cls" and "oc_sup_oids cls = Some [''son'']"
  shows "\<exists>c'. same_but_world c c' \<and>
    parse_object_class E (Some p) (Some (print_object_class (cls\<lparr>oc_sup_oids := Some [''person'']\<rparr>))) c = Some (Some cls, c')"
proof -
  let ?s = "print_object_class (cls\<lparr>oc_sup_oids := Some [''person'']\<rparr>)"
  obtain x where oid: "oc_oid cls = Some x" using assms(2) by (auto simp: printable_class_def split: option.splits)
  have k: "oc_kind cls \<in> {0, 1, 2}" and o: "ragel_final numericoid x" and names: "printable_names (oc_names cls)"
    using assms(2) oid by (simp_all add: printable_class_def)
  let ?v = "oc_vars0\<lparr>oc_result := (oc_result oc_vars0)\<lparr>oc_oid := Some x\<rparr>\<rparr>"
  let ?w = "case oc_names cls of None \<Rightarrow> ?v | Some ns \<Rightarrow> add_names add_oc_name ns ?v"
  let ?u = "\<lambda>v. written_sups (add_oid ''son'' (written_sups (add_oid ''per'' v)))"
  have "oc_oid_slots ?w = None \<and> oc_oid_index ?w = 0"
  proof (cases "oc_names cls")
    case None
    then show ?thesis by (simp add: oc_vars0_def)
  next
    case (Some ns)
    then have "ns \<noteq> []" using names by (simp add: printable_names_def)
    moreover have "oc_name_slots ?v = None" "oc_name_index ?v = 0" by (simp_all add: oc_vars0_def)
    ultimately show ?thesis using oc_names_value [of ns ?v] Some by (simp add: oc_vars0_def)
  qed
  then have w: "?u w = oc_superior_set (oc_sup_oids cls) w" if "w = ?w" for w
    using that assms(3) by (simp add: written_sups_def add_oid_def oc_superior_set_def)
  note r = reads_run [OF reads_class_head [OF assms(1) names o reads_person [OF assms(1) _ k]]]
  have s: "''( '' @ x @ '' '' @ print_names (oc_names cls) @ ''SUP person '' @ kind_text (oc_kind cls) = ?s"
    by (simp add: print_object_class_def oid)
  obtain c1 where c1: "alloc E c = (True, c1)" "same_but_world c c1"
    using memory_ok_alloc [OF assms(1)] by blast
  obtain k c2 where c2: "same_but_world c1 c2"
    "exec_trace (oc_exec E ?s) (fst (ra_exec object_class_machine ?s)) (0, oc_vars0, c1) =
      Some (k, oc_kind_set (oc_kind cls) (?u ?w), c2)"
    using r(2) [of c1 0 oc_vars0] unfolding s by blast
  have "oc_kind_set (oc_kind cls) (?u ?w) = oc_rest cls ?v"
    unfolding w [OF refl] oc_rest_def ..
  then have "parse_object_class_description E (Some p) (Some ?s) c = Some (Some cls, c2)"
    using c1 c2(2) r(1) oc_rest_value [OF assms(2) oid] unfolding s
    by (simp add: parse_object_class_description_def split_beta Let_def)
  moreover have "?s \<noteq> []" by (simp add: print_object_class_def)
  ultimately show ?thesis
    using c1(2) c2(1) by (auto simp: parse_object_class_def intro: same_but_world_trans)
qed

lemma superior_person_is_read_as_son_witness:
  "\<exists>c'. parse_object_class demo_ext (Some 0)
     (Some (''( 2.5.6.6 NAME '' @ quoted ''person'' @ '' SUP person STRUCTURAL )'')) demo_conn =
     Some (Some (demo_class\<lparr>oc_sup_oids := Some [''son'']\<rparr>), c')"
proof -
  have "printable_class (demo_class\<lparr>oc_sup_oids := Some [''son'']\<rparr>)" by code_simp
  from superior_person_is_read_as_son [OF _ this, of demo_ext demo_conn 0] show ?thesis
    by (auto simp: print_object_class_def demo_class_def zero_object_class_def quoted_def)
qed

section \<open>What any input gives\<close>

definition oc_vars_ok :: "string \<Rightarrow> oc_vars \<Rightarrow> bool" where
  "oc_vars_ok s v \<longleftrightarrow>
     pieces_ok s (oc_name_slots v) (oc_name_index v) \<and> pieces_ok s (oc_oid_slots v) (oc_oid_index v) \<and>
     (\<exists>n. pieces_ok s (oc_sup_slots v) n) \<and> oc_must_slots v = None \<and> oc_may_slots v = None \<and>
     list_all (piece s) (case oc_oid (oc_result v) of None \<Rightarrow> [] | Some x \<Rightarrow> [x]) \<and>
     oc_kind (oc_result v) \<in> {0, 1, 2}"

lemma oc_exec_keeps:
  assumes mem: "memory_ok E" and a: "a \<in> set (actions object_class_machine)"
    and p: "start \<le> p" "p < length s" and ok: "oc_vars_ok s v"
  shows "\<exists>start' v' c'. oc_exec E s (a, p) (start, v, c) = Some (start', v', c') \<and> start' \<le> p \<and>
    oc_vars_ok s v' \<and> same_but_world c c'"
proof -
  have "a \<noteq> Oc_write_must" "a \<noteq> Oc_write_may"
    using a by (auto simp: object_class_machine_def oc_parts_def oids_rule_def oidlist_rule_def oid_rule_def qdescrs_def qdescr_def Let_def)
  moreover have "start = p \<or> start < p" using p(1) by linarith
  ultimately consider "a = Oc_start" | "a = Oc_write_sups" | "a = Oc_set_structural" | "a = Oc_set_auxiliary"
    | "start = p" "a \<in> {Oc_numericoid_end, Oc_name_end, Oc_oid_end}"
    | "start < p" "a = Oc_numericoid_end" | "start < p" "a = Oc_name_end" | "start < p" "a = Oc_oid_end"
    by (cases a) blast+
  then show ?thesis
  proof cases
    case 5
    then have "oc_exec E s (a, p) (start, v, c) = Some (p, v, c)" by auto
    with ok show ?thesis by auto
  next
    case 6
    obtain x c' where "strndup E s start p c = (Some x, c')" "piece s x" "same_but_world c c'"
      using strndup_piece [OF mem 6(1) p(2)] by blast
    then show ?thesis using 6 ok by (auto simp: oc_vars_ok_def)
  next
    case 7
    have "pieces_ok s (oc_name_slots v) (oc_name_index v)" using ok by (simp add: oc_vars_ok_def)
    then obtain slots index c' where "push_symbol E s start p (oc_name_slots v) (oc_name_index v) c = Some (slots, index, c')"
      "pieces_ok s (Some slots) index" "same_but_world c c'"
      using push_symbol_piece [OF mem 7(1) p(2)] by blast
    then show ?thesis using 7 ok by (auto simp: oc_vars_ok_def)
  next
    case 8
    have "pieces_ok s (oc_oid_slots v) (oc_oid_index v)" using ok by (simp add: oc_vars_ok_def)
    then obtain slots index c' where "push_symbol E s start p (oc_oid_slots v) (oc_oid_index v) c = Some (slots, index, c')"
      "pieces_ok s (Some slots) index" "same_but_world c c'"
      using push_symbol_piece [OF mem 8(1) p(2)] by blast
    then show ?thesis using 8 ok by (auto simp: oc_vars_ok_def)
  next
    case 2
    have "pieces_ok s None 0" by (simp add: pieces_ok_def)
    with 2 ok p show ?thesis by (auto simp: oc_vars_ok_def)
  qed (use ok p in \<open>auto simp: oc_vars_ok_def\<close>)
qed

definition class_well_formed :: "string \<Rightarrow> ldap_object_class \<Rightarrow> bool" where
  "class_well_formed s cls \<longleftrightarrow>
     names_ok s (oc_names cls) \<and> names_ok s (oc_sup_oids cls) \<and>
     (\<forall>x. oc_oid cls = Some x \<longrightarrow> piece s x) \<and> oc_kind cls \<in> {0, 1, 2} \<and>
     oc_at_oids_must cls = None \<and> oc_at_oids_may cls = None"

lemma oc_vars_ok_value: "oc_vars_ok s v \<Longrightarrow> class_well_formed s (oc_value v)"
  by (auto simp: oc_vars_ok_def class_well_formed_def oc_value_def pieces_ok_names)

lemma parse_object_class_total:
  assumes mem: "memory_ok E" and s: "s \<noteq> []"
  shows "\<exists>v c'. parse_object_class E (Some p) (Some s) c =
      Some (if snd (ra_exec object_class_machine s) then Some (oc_value v) else None, c') \<and>
    oc_vars_ok s v \<and> same_but_world c c'"
proof -
  obtain c1 where c1: "alloc E c = (True, c1)" "same_but_world c c1"
    using memory_ok_alloc [OF mem] by blast
  have "oc_vars_ok s oc_vars0"
    by (simp add: oc_vars_ok_def pieces_ok_def zero_object_class_def oc_vars0_def)
  from exec_inv [where ex = "oc_exec E" and I = "oc_vars_ok s" and m = object_class_machine and s = s and c = c1,
      OF this oc_exec_keeps [OF mem]]
  obtain k v c2 where "exec_trace (oc_exec E s) (fst (ra_exec object_class_machine s)) (0, oc_vars0, c1) = Some (k, v, c2)"
    "oc_vars_ok s v" "same_but_world c1 c2"
    by blast
  then show ?thesis
    using c1 s by (auto simp: parse_object_class_def parse_object_class_description_def split_beta
        intro: same_but_world_trans)
qed

text \<open>
  C28: Whatever the input, an object class the parser returns is well formed: arrays are not empty, every
  string is a nonempty piece of the input, and the kind is one of three. The lists of mandatory and
  optional attributes are always missing: no rule embeds the actions that write them.
\<close>

theorem parsed_object_classes_are_well_formed:
  assumes "memory_ok E" and "parse_object_class E (Some p) (Some s) c = Some (Some cls, c')"
  shows "class_well_formed s cls \<and> same_but_world c c'"
proof -
  have "s \<noteq> []" using assms(2) by (auto simp: parse_object_class_def)
  from parse_object_class_total [OF assms(1) this, of p c] assms(2) oc_vars_ok_value show ?thesis
    by (auto split: if_splits)
qed

lemma parsed_object_classes_are_well_formed_witness:
  "\<exists>c'. parse_object_class demo_ext (Some 0) (Some (print_object_class demo_class)) demo_conn = Some (Some demo_class, c') \<and>
     class_well_formed (print_object_class demo_class) demo_class"
proof -
  obtain c' where "parse_object_class demo_ext (Some 0) (Some (print_object_class demo_class)) demo_conn = Some (Some demo_class, c')"
    using object_class_parses [of demo_ext demo_class demo_conn 0] demo_class_printable by auto
  with parsed_object_classes_are_well_formed [OF _ this] show ?thesis by auto
qed

text \<open>The parser returns an object class for exactly the nonempty inputs that can be extended to a description.\<close>

lemma live_object_class_machine: "live (erase object_class_machine)"
  by code_simp

theorem object_classes_accepted:
  assumes "memory_ok E"
  shows "(\<exists>cls c'. parse_object_class E (Some p) (Some s) c = Some (Some cls, c')) \<longleftrightarrow>
    s \<noteq> [] \<and> (\<exists>t. s @ t \<in> rl_lang (erase object_class_machine))"
proof (cases "s = []")
  case True
  then show ?thesis by (simp add: parse_object_class_def)
next
  case False
  from parse_object_class_total [OF assms this, of p c] show ?thesis
    using False ra_exec_viable_run [OF live_object_class_machine, of s] by auto
qed

end
