(* ===== verification/Schema_Load.thy ===== *)
theory Schema_Load
  imports Attribute_Type_Parser Object_Class_Parser
begin

text \<open>
  Loading the schema: \<open>src/src/openldap_schema.c\<close>, \<open>src/src/ad_schema.c\<close> and the dispatch of
  \<open>src/src/schema.c\<close>. A load sends searches whose callbacks later read every value of every attribute
  of every entry into the schema. A loop of the C code that stops advancing has the value \<open>None\<close>.
\<close>

section \<open>Reading an entry\<close>

text \<open>\<open>op_fn\<close>: what is done with one value, on the schema that \<open>user_data\<close> points to.\<close>

type_synonym ('w, 'h) op_fn =
  "string \<Rightarrow> ('w, 'h) conn \<Rightarrow> (OperationReturnCode \<times> ('w, 'h) conn) option"

fun read_values ::
  "('w, 'h) op_fn \<Rightarrow> string list \<Rightarrow> ('w, 'h) conn \<Rightarrow> (OperationReturnCode \<times> ('w, 'h) conn) option" where
  "read_values callback [] c = Some (RETURN_CODE_SUCCESS, c)"
| "read_values callback (v # vs) c =
     do { (rc, c1) \<leftarrow> callback v c;
          if rc = RETURN_CODE_FAILURE then Some (RETURN_CODE_FAILURE, c1) else read_values callback vs c1 }"

text \<open>
  The outer loop of \<open>ldap_schema_read_entry\<close>. On an attribute without values \<open>continue\<close> jumps back to
  the test of the same attribute.
\<close>

partial_function (option) read_attribute_loop ::
  "('w, 'h) op_fn \<Rightarrow> ld_attribute list \<Rightarrow> nat \<Rightarrow> ('w, 'h) conn \<Rightarrow> (OperationReturnCode \<times> ('w, 'h) conn) option"
where
  "read_attribute_loop callback attributes index c =
     (if index < length attributes then
        (case attr_values (attributes ! index) of
           None \<Rightarrow> read_attribute_loop callback attributes index c
         | Some vs \<Rightarrow>
             do { (rc, c1) \<leftarrow> read_values callback vs c;
                  if rc = RETURN_CODE_FAILURE then Some (RETURN_CODE_FAILURE, c1)
                  else read_attribute_loop callback attributes (index + 1) c1 })
      else Some (RETURN_CODE_SUCCESS, c))"

definition ldap_schema_read_entry ::
  "('w, 'h) ext \<Rightarrow> ('w, 'h) op_fn \<Rightarrow> 'h ld_entry \<Rightarrow> ('w, 'h) conn \<Rightarrow>
     (OperationReturnCode \<times> ('w, 'h) conn) option" where
  "ldap_schema_read_entry E callback entry c =
     do { (attributes, c1) \<leftarrow> ld_entry_get_attributes E (Some entry) c;
          (case attributes of
             None \<Rightarrow> Some (RETURN_CODE_SUCCESS, c1)
           | Some as \<Rightarrow> read_attribute_loop callback as 0 c1) }"

fun ldap_schema_callback_common ::
  "('w, 'h) ext \<Rightarrow> ('w, 'h) op_fn \<Rightarrow> 'h ld_entry list \<Rightarrow> ('w, 'h) conn \<Rightarrow>
     (OperationReturnCode \<times> ('w, 'h) conn) option" where
  "ldap_schema_callback_common E callback [] c = Some (RETURN_CODE_SUCCESS, c)"
| "ldap_schema_callback_common E callback (entry # entries) c =
     do { (rc, c1) \<leftarrow> ldap_schema_read_entry E callback entry c;
          if rc = RETURN_CODE_FAILURE then Some (RETURN_CODE_FAILURE, c1)
          else ldap_schema_callback_common E callback entries c1 }"

section \<open>What is done with one value\<close>

text \<open>The schema behind \<open>user_data\<close>; a freed or foreign pointer is undefined.\<close>

definition set_schema :: "nat \<Rightarrow> 'h ldap_schema option \<Rightarrow> ('w, 'h) conn \<Rightarrow> ('w, 'h) conn" where
  "set_schema p s c = c\<lparr>schemas := (schemas c)(p := s)\<rparr>"

definition store_type ::
  "('w, 'h) ext \<Rightarrow> nat \<Rightarrow> ldap_attribute_type \<Rightarrow> ('w, 'h) conn \<Rightarrow> (OperationReturnCode \<times> ('w, 'h) conn) option"
where
  "store_type E p ty c =
     do { s \<leftarrow> schemas c p;
          (ok, s') \<leftarrow> ldap_schema_append_attributetype E (Some s) (Some ty);
          Some (if ok then RETURN_CODE_SUCCESS else RETURN_CODE_FAILURE, set_schema p s' c) }"

definition store_class ::
  "('w, 'h) ext \<Rightarrow> nat \<Rightarrow> ldap_object_class \<Rightarrow> ('w, 'h) conn \<Rightarrow> (OperationReturnCode \<times> ('w, 'h) conn) option"
where
  "store_class E p cls c =
     do { s \<leftarrow> schemas c p;
          (ok, s') \<leftarrow> ldap_schema_append_objectclass E (Some s) (Some cls);
          Some (if ok then RETURN_CODE_SUCCESS else RETURN_CODE_FAILURE, set_schema p s' c) }"

text \<open>
  \<open>openldap_schema.c\<close>: the reference that owns the parsed element is allocated without a test; writing
  through a NULL reference is undefined.
\<close>

definition attribute_type_callback ::
  "('w, 'h) ext \<Rightarrow> nat \<Rightarrow> string \<Rightarrow> ('w, 'h) conn \<Rightarrow> (OperationReturnCode \<times> ('w, 'h) conn) option" where
  "attribute_type_callback E p v c =
     do { _ \<leftarrow> schemas c p;
          let (ok, c1) = alloc E c;
          (case ldap_str2attributetype E v of
             (Some ty, code) \<Rightarrow>
               if code \<noteq> 0 then Some (RETURN_CODE_FAILURE, if ok then snd (free_block E c1) else c1)
               else if \<not> ok then None else store_type E p ty c1
           | (None, code) \<Rightarrow> Some (RETURN_CODE_FAILURE, if ok then snd (free_block E c1) else c1)) }"

definition object_class_callback ::
  "('w, 'h) ext \<Rightarrow> nat \<Rightarrow> string \<Rightarrow> ('w, 'h) conn \<Rightarrow> (OperationReturnCode \<times> ('w, 'h) conn) option" where
  "object_class_callback E p v c =
     do { _ \<leftarrow> schemas c p;
          let (ok, c1) = alloc E c;
          (case ldap_str2objectclass E v of
             (Some cls, code) \<Rightarrow>
               if code \<noteq> 0 then Some (RETURN_CODE_FAILURE, if ok then snd (free_block E c1) else c1)
               else if \<not> ok then None else store_class E p cls c1
           | (None, code) \<Rightarrow> Some (RETURN_CODE_FAILURE, if ok then snd (free_block E c1) else c1)) }"

text \<open>\<open>ad_schema.c\<close>: the library's own parsers, which allocate on the schema.\<close>

definition ad_attribute_type_callback ::
  "('w, 'h) ext \<Rightarrow> nat \<Rightarrow> string \<Rightarrow> ('w, 'h) conn \<Rightarrow> (OperationReturnCode \<times> ('w, 'h) conn) option" where
  "ad_attribute_type_callback E p v c =
     do { _ \<leftarrow> schemas c p;
          (ty, c1) \<leftarrow> parse_attribute_type E (Some p) (Some v) c;
          (case ty of None \<Rightarrow> Some (RETURN_CODE_FAILURE, c1) | Some ty \<Rightarrow> store_type E p ty c1) }"

definition ad_object_class_callback ::
  "('w, 'h) ext \<Rightarrow> nat \<Rightarrow> string \<Rightarrow> ('w, 'h) conn \<Rightarrow> (OperationReturnCode \<times> ('w, 'h) conn) option" where
  "ad_object_class_callback E p v c =
     do { _ \<leftarrow> schemas c p;
          (cls, c1) \<leftarrow> parse_object_class E (Some p) (Some v) c;
          (case cls of None \<Rightarrow> Some (RETURN_CODE_FAILURE, c1) | Some cls \<Rightarrow> store_class E p cls c1) }"

text \<open>The static path is overwritten before it is tested.\<close>

definition subschema_subentry_callback ::
  "('w, 'h) ext \<Rightarrow> nat \<Rightarrow> string \<Rightarrow> ('w, 'h) conn \<Rightarrow> (OperationReturnCode \<times> ('w, 'h) conn) option" where
  "subschema_subentry_callback E p v c =
     (let (ok, c1) = alloc E c;
          path = (if ok then Some v else None);
          c2 = c1\<lparr>schema_entry_path := path\<rparr>
      in Some (if path = None \<or> path = Some [] then RETURN_CODE_FAILURE else RETURN_CODE_SUCCESS, c2))"

section \<open>The callbacks of searches\<close>

text \<open>\<open>ad_schema.c\<close> has its own copies of the loop over the entries.\<close>

definition ad_schema_read_entry ::
  "('w, 'h) ext \<Rightarrow> ('w, 'h) op_fn \<Rightarrow> 'h ld_entry \<Rightarrow> ('w, 'h) conn \<Rightarrow>
     (OperationReturnCode \<times> ('w, 'h) conn) option" where
  "ad_schema_read_entry E callback entry c =
     do { (attributes, c1) \<leftarrow> ld_entry_get_attributes E (Some entry) c;
          (case attributes of
             None \<Rightarrow> Some (RETURN_CODE_SUCCESS, c1)
           | Some as \<Rightarrow> read_attribute_loop callback as 0 c1) }"

fun ad_schema_callback_common ::
  "('w, 'h) ext \<Rightarrow> ('w, 'h) op_fn \<Rightarrow> 'h ld_entry list \<Rightarrow> ('w, 'h) conn \<Rightarrow>
     (OperationReturnCode \<times> ('w, 'h) conn) option" where
  "ad_schema_callback_common E callback [] c = Some (RETURN_CODE_SUCCESS, c)"
| "ad_schema_callback_common E callback (entry # entries) c =
     do { (rc, c1) \<leftarrow> ad_schema_read_entry E callback entry c;
          if rc = RETURN_CODE_FAILURE then Some (RETURN_CODE_FAILURE, c1)
          else ad_schema_callback_common E callback entries c1 }"

text \<open>What the searches of both files register.\<close>

definition ldap_schema_attribute_types_search_callback ::
  "('w, 'h) ext \<Rightarrow> nat \<Rightarrow> 'h ld_entry list \<Rightarrow> ('w, 'h) conn \<Rightarrow> (OperationReturnCode \<times> ('w, 'h) conn) option" where
  "ldap_schema_attribute_types_search_callback E p es c = ldap_schema_callback_common E (attribute_type_callback E p) es c"

definition ldap_schema_object_classes_search_callback ::
  "('w, 'h) ext \<Rightarrow> nat \<Rightarrow> 'h ld_entry list \<Rightarrow> ('w, 'h) conn \<Rightarrow> (OperationReturnCode \<times> ('w, 'h) conn) option" where
  "ldap_schema_object_classes_search_callback E p es c = ldap_schema_callback_common E (object_class_callback E p) es c"

definition ad_schema_attribute_types_search_callback ::
  "('w, 'h) ext \<Rightarrow> nat \<Rightarrow> 'h ld_entry list \<Rightarrow> ('w, 'h) conn \<Rightarrow> (OperationReturnCode \<times> ('w, 'h) conn) option" where
  "ad_schema_attribute_types_search_callback E p es c = ad_schema_callback_common E (ad_attribute_type_callback E p) es c"

definition ad_schema_object_classes_search_callback ::
  "('w, 'h) ext \<Rightarrow> nat \<Rightarrow> 'h ld_entry list \<Rightarrow> ('w, 'h) conn \<Rightarrow> (OperationReturnCode \<times> ('w, 'h) conn) option" where
  "ad_schema_object_classes_search_callback E p es c = ad_schema_callback_common E (ad_object_class_callback E p) es c"

definition ldap_schema_subschema_subentry_search_callback ::
  "('w, 'h) ext \<Rightarrow> nat \<Rightarrow> 'h ld_entry list \<Rightarrow> ('w, 'h) conn \<Rightarrow> (OperationReturnCode \<times> ('w, 'h) conn) option" where
  "ldap_schema_subschema_subentry_search_callback E p es c =
     ad_schema_callback_common E (subschema_subentry_callback E p) es c"

text \<open>The functions behind the function pointers of search requests.\<close>

fun call_search_callback ::
  "('w, 'h) ext \<Rightarrow> search_callback \<Rightarrow> 'h ld_entry list \<Rightarrow> user_data \<Rightarrow> ('w, 'h) conn \<Rightarrow>
     (OperationReturnCode \<times> ('w, 'h) conn) option" where
  "call_search_callback E PRINT_SEARCH_CALLBACK es ud c = print_search_callback E es c"
| "call_search_callback E (USER_SEARCH_CALLBACK f) es ud c = app_search_callback E f es ud c"
| "call_search_callback E OPENLDAP_ATTRIBUTE_TYPES_CALLBACK es (SCHEMA_DATA p) c =
     ldap_schema_attribute_types_search_callback E p es c"
| "call_search_callback E OPENLDAP_OBJECT_CLASSES_CALLBACK es (SCHEMA_DATA p) c =
     ldap_schema_object_classes_search_callback E p es c"
| "call_search_callback E AD_ATTRIBUTE_TYPES_CALLBACK es (SCHEMA_DATA p) c =
     ad_schema_attribute_types_search_callback E p es c"
| "call_search_callback E AD_OBJECT_CLASSES_CALLBACK es (SCHEMA_DATA p) c =
     ad_schema_object_classes_search_callback E p es c"
| "call_search_callback E AD_SUBSCHEMA_SUBENTRY_CALLBACK es (SCHEMA_DATA p) c =
     ldap_schema_subschema_subentry_search_callback E p es c"
| "call_search_callback E f es ud c = None"

lemma ad_schema_read_entry_same: "ad_schema_read_entry E f e c = ldap_schema_read_entry E f e c"
  by (simp add: ad_schema_read_entry_def ldap_schema_read_entry_def)

lemma ad_schema_callback_common_same:
  "ad_schema_callback_common E f es c = ldap_schema_callback_common E f es c"
proof (induction es arbitrary: c)
  case (Cons e es)
  then show ?case
    by (cases "ldap_schema_read_entry E f e c") (auto simp: ad_schema_read_entry_same)
qed simp

lemmas search_callback_defs = ldap_schema_attribute_types_search_callback_def
  ldap_schema_object_classes_search_callback_def ad_schema_attribute_types_search_callback_def
  ad_schema_object_classes_search_callback_def ldap_schema_subschema_subentry_search_callback_def
  ad_schema_callback_common_same

section \<open>Loading\<close>

definition schema_data :: "nat option \<Rightarrow> user_data" where
  "schema_data p = (case p of None \<Rightarrow> NO_DATA | Some q \<Rightarrow> SCHEMA_DATA q)"

text \<open>The two searches for types and classes, written out in both files.\<close>

definition search_both ::
  "('w, 'h) ext \<Rightarrow> ('w, 'h) conn \<Rightarrow> string \<Rightarrow> search_callback \<Rightarrow> search_callback \<Rightarrow> user_data \<Rightarrow>
     (OperationReturnCode \<times> ('w, 'h) conn) option" where
  "search_both E c dn types classes ud =
     do { (rc, c1) \<leftarrow> search E c (Some dn) LDAP_SCOPE_BASE (Some ''(objectclass=subschema)'')
            (Some [''attributetypes'']) False (Some types) ud;
          if rc \<noteq> RETURN_CODE_SUCCESS then Some (RETURN_CODE_FAILURE, c1)
          else do { (rc, c2) \<leftarrow> search E c1 (Some dn) LDAP_SCOPE_BASE (Some ''(objectclass=subschema)'')
                      (Some [''objectclasses'']) False (Some classes) ud;
                    if rc \<noteq> RETURN_CODE_SUCCESS then Some (RETURN_CODE_FAILURE, c2)
                    else Some (RETURN_CODE_SUCCESS, c2) } }"

definition schema_load_openldap ::
  "('w, 'h) ext \<Rightarrow> ('w, 'h) conn \<Rightarrow> nat option \<Rightarrow> (OperationReturnCode \<times> ('w, 'h) conn) option" where
  "schema_load_openldap E c sch =
     search_both E c ''cn=subschema'' OPENLDAP_ATTRIBUTE_TYPES_CALLBACK OPENLDAP_OBJECT_CLASSES_CALLBACK
       (schema_data sch)"

definition schema_load_active_directory ::
  "('w, 'h) ext \<Rightarrow> ('w, 'h) conn \<Rightarrow> nat option \<Rightarrow> (OperationReturnCode \<times> ('w, 'h) conn) option" where
  "schema_load_active_directory E c sch =
     (case schema_entry_path c of
        None \<Rightarrow>
          do { (rc, c1) \<leftarrow> search E c (Some '''') LDAP_SCOPE_BASE (Some ''(objectclass=*)'')
                 (Some [''subschemaSubentry'']) False (Some AD_SUBSCHEMA_SUBENTRY_CALLBACK) (schema_data sch);
               if rc \<noteq> RETURN_CODE_SUCCESS then Some (RETURN_CODE_FAILURE, c1)
               else Some (RETURN_CODE_OPERATION_IN_PROGRESS, c1) }
      | Some path \<Rightarrow>
          search_both E c path AD_ATTRIBUTE_TYPES_CALLBACK AD_OBJECT_CLASSES_CALLBACK (schema_data sch))"

definition ldap_schema_load ::
  "('w, 'h) ext \<Rightarrow> ('w, 'h) conn \<Rightarrow> (OperationReturnCode \<times> ('w, 'h) conn) option" where
  "ldap_schema_load E c =
     (case directory_type c of
        LDAP_TYPE_OPENLDAP \<Rightarrow> schema_load_openldap E c (schema c)
      | LDAP_TYPE_ACTIVE_DIRECTORY \<Rightarrow> schema_load_active_directory E c (schema c)
      | LDAP_TYPE_FREE_IPA \<Rightarrow> Some (RETURN_CODE_FAILURE, c)
      | LDAP_TYPE_UNKNOWN \<Rightarrow> Some (RETURN_CODE_SUCCESS, c)
      | LDAP_TYPE_UNINITIALIZED \<Rightarrow> Some (RETURN_CODE_SUCCESS, c))"

section \<open>The reading loops\<close>

lemma read_values_append:
  "read_values f (xs @ ys) c =
     do { (rc, c1) \<leftarrow> read_values f xs c;
          if rc = RETURN_CODE_FAILURE then Some (RETURN_CODE_FAILURE, c1) else read_values f ys c1 }"
proof (induction xs arbitrary: c)
  case Nil
  then show ?case by simp
next
  case (Cons x xs)
  then show ?case by (cases "f x c") auto
qed

lemma read_attribute_loop_step:
  assumes "index < length as" and "attr_values (as ! index) = Some vs"
  shows "read_attribute_loop f as index c =
    do { (rc, c1) \<leftarrow> read_values f vs c;
         if rc = RETURN_CODE_FAILURE then Some (RETURN_CODE_FAILURE, c1)
         else read_attribute_loop f as (Suc index) c1 }"
  by (subst read_attribute_loop.simps) (cases "read_values f vs c"; auto simp: assms)

lemma read_attribute_loop_end: "length as \<le> index \<Longrightarrow> read_attribute_loop f as index c = Some (RETURN_CODE_SUCCESS, c)"
  by (subst read_attribute_loop.simps) simp

lemma read_attribute_loop_values:
  assumes "\<forall>a \<in> set as. attr_values a \<noteq> None" and "index \<le> length as"
  shows "read_attribute_loop f as index c = read_values f (concat (map (the \<circ> attr_values) (drop index as))) c"
  using assms(2)
proof (induction index arbitrary: c rule: inc_induct)
  case base
  then show ?case by (simp add: read_attribute_loop_end)
next
  case (step index)
  then obtain vs where vs: "attr_values (as ! index) = Some vs"
    using assms(1) by fastforce
  have "drop index as = as ! index # drop (Suc index) as"
    using step.hyps by (simp add: Cons_nth_drop_Suc)
  then show ?case
    using step vs
    by (cases "read_values f vs c") (auto simp: read_attribute_loop_step read_values_append)
qed

lemma read_attribute_loop_stuck:
  assumes "index < length as" and "attr_values (as ! index) = None"
  shows "read_attribute_loop f as index c = None"
proof -
  have "\<not> (index < length as \<and> attr_values (as ! index) = None)"
    if "read_attribute_loop f as index c = Some y" for f :: "('w, 'h) op_fn" and as index c y
    by (rule read_attribute_loop.raw_induct [OF _ that,
          where P = "\<lambda>f as index c y. \<not> (index < length as \<and> attr_values (as ! index) = None)"])
      (fastforce split: if_splits option.splits)
  then show ?thesis using assms by (cases "read_attribute_loop f as index c") blast+
qed



definition valueless_entry :: "demo_table ld_entry" where
  "valueless_entry = demo_entry\<lparr>entry_attributes :=
     Some (DAList.update ''a'' (AttributeValue \<lparr>attr_name = Some ''a'', attr_values = None\<rparr>) DAList.empty)\<rparr>"



section \<open>What a load leaves in the schema\<close>

text \<open>
  \<open>element_loader\<close>: a half of the store together with the step of a callback that stores one parsed element
  in the schema \<open>p\<close> of a connection.
\<close>

locale element_loader = element_store E append complete oid names by_oid by_name name_free others
  for E :: "('w, 'h) ext"
    and append :: "'h ldap_schema \<Rightarrow> 'a \<Rightarrow> (bool \<times> 'h ldap_schema option) option"
    and complete oid names by_oid by_name name_free others +
  fixes store :: "nat \<Rightarrow> 'a \<Rightarrow> ('w, 'h) conn \<Rightarrow> (OperationReturnCode \<times> ('w, 'h) conn) option"
  assumes store: "schemas c p = Some s \<Longrightarrow> append s x = Some (r, s') \<Longrightarrow>
    store p x c = Some (if r then RETURN_CODE_SUCCESS else RETURN_CODE_FAILURE, set_schema p s' c)"
begin

text \<open>Reading values that parse to elements with new, different names stores all of them, and nothing else.\<close>

lemma store_all:
  assumes "glib_ok E" and "has_tables s" and "schemas c p = Some s"
    and "list_all2 (\<lambda>v x. \<forall>d. \<exists>w. f v d = store p x (d\<lparr>world := w\<rparr>)) vs xs"
    and "\<forall>x \<in> set xs. complete x"
    and "distinct (map oid xs)" and "distinct (concat (map names xs))"
    and "\<forall>n \<in> set (concat (map names xs)). name_free s n"
  shows "\<exists>w s'. read_values f vs c = Some (RETURN_CODE_SUCCESS, set_schema p (Some s') (c\<lparr>world := w\<rparr>)) \<and>
    has_tables s' \<and> others s' = others s \<and>
    (\<forall>x \<in> set xs. by_oid s' (oid x) = Some x \<and> (\<forall>n \<in> set (names x). by_name s' n = Some x)) \<and>
    (\<forall>k. k \<notin> oid ` set xs \<longrightarrow> by_oid s' k = by_oid s k) \<and>
    (\<forall>k. k \<notin> set (concat (map names xs)) \<longrightarrow> by_name s' k = by_name s k)"
  using assms(4,2,3,5-)
proof (induction vs xs arbitrary: c s rule: list_all2_induct)
  case Nil
  have "c = set_schema p (Some s) (c\<lparr>world := world c\<rparr>)"
    using Nil.prems(2) by (simp add: set_schema_def fun_upd_idem)
  with Nil show ?case by (intro exI [of _ "world c"] exI [of _ s]) auto
next
  case (Cons v vs x xs)
  obtain w where w: "f v c = store p x (c\<lparr>world := w\<rparr>)" using Cons.hyps(1) by blast
  have x: "complete x" "distinct (names x)" "\<forall>n \<in> set (names x). name_free s n"
    using Cons.prems(3,5,6) by simp_all
  obtain s1 where app: "append s x = Some (True, Some s1)"
    and tables: "has_tables s1" and others: "others s1 = others s"
    and by_oid: "\<And>k. by_oid s1 k = (if k = oid x then Some x else by_oid s k)"
    and by_name: "\<And>k. by_name s1 k = (if k \<in> set (names x) then Some x else by_name s k)"
    and free: "\<And>k. name_free s1 k \<longleftrightarrow> k \<notin> set (names x) \<and> name_free s k"
    using append_new [OF assms(1) Cons.prems(1) x] by blast
  let ?c = "set_schema p (Some s1) (c\<lparr>world := w\<rparr>)"
  have run: "f v c = Some (RETURN_CODE_SUCCESS, ?c)"
    using w store [of "c\<lparr>world := w\<rparr>" p s x True "Some s1"] app Cons.prems(2) by simp
  have p: "schemas ?c p = Some s1" by (simp add: set_schema_def)
  have xs: "\<forall>x \<in> set xs. complete x" "distinct (map oid xs)" "distinct (concat (map names xs))"
    "\<forall>n \<in> set (concat (map names xs)). name_free s1 n"
    using Cons.prems(3-6) free by auto
  obtain w' s' where rest: "read_values f vs ?c = Some (RETURN_CODE_SUCCESS, set_schema p (Some s') (?c\<lparr>world := w'\<rparr>))"
      "has_tables s'" "others s' = others s1"
    and found: "\<And>x. x \<in> set xs \<Longrightarrow> by_oid s' (oid x) = Some x \<and> (\<forall>n \<in> set (names x). by_name s' n = Some x)"
    and kept: "\<And>k. k \<notin> oid ` set xs \<Longrightarrow> by_oid s' k = by_oid s1 k"
      "\<And>k. k \<notin> set (concat (map names xs)) \<Longrightarrow> by_name s' k = by_name s1 k"
    using Cons.IH [OF tables p xs] by blast
  have "oid x \<notin> oid ` set xs" using Cons.prems(4) by auto
  moreover have "n \<notin> set (concat (map names xs))" if "n \<in> set (names x)" for n
    using Cons.prems(5) that by auto
  moreover have "set_schema p (Some s') (?c\<lparr>world := w'\<rparr>) = set_schema p (Some s') (c\<lparr>world := w'\<rparr>)"
    by (simp add: set_schema_def)
  ultimately show ?case
    using rest run found kept by_oid by_name others
    by (intro exI [of _ w'] exI [of _ s']) auto
qed

end

interpretation type_loader: element_loader E "\<lambda>s ty. ldap_schema_append_attributetype E (Some s) (Some ty)"
    complete_type oid_of names_of "\<lambda>s. ldap_schema_get_attributetype_by_oid E (Some s)"
    "\<lambda>s. ldap_schema_get_attributetype_by_name E (Some s)" "\<lambda>s. unbound E (attribute_types_by_name s)"
    "\<lambda>s. (object_classes_by_oid s, object_classes_by_name s)" "store_type E"
  for E :: "('w, 'h) ext"
  by unfold_locales (simp add: store_type_def)

interpretation class_loader: element_loader E "\<lambda>s cls. ldap_schema_append_objectclass E (Some s) (Some cls)"
    complete_class class_oid_of class_names_of "\<lambda>s. ldap_schema_get_objectclass_by_oid E (Some s)"
    "\<lambda>s. ldap_schema_get_objectclass_by_name E (Some s)" "\<lambda>s. unbound E (object_classes_by_name s)"
    "\<lambda>s. (attribute_types_by_oid s, attribute_types_by_name s)" "store_class E"
  for E :: "('w, 'h) ext"
  by unfold_locales (simp add: store_class_def)

text \<open>What libldap makes of one value.\<close>

definition openldap_type :: "('w, 'h) ext \<Rightarrow> string \<Rightarrow> ldap_attribute_type option" where
  "openldap_type E v = (case ldap_str2attributetype E v of (Some ty, code) \<Rightarrow> if code = 0 then Some ty else None | _ \<Rightarrow> None)"

definition openldap_class :: "('w, 'h) ext \<Rightarrow> string \<Rightarrow> ldap_object_class option" where
  "openldap_class E v = (case ldap_str2objectclass E v of (Some cls, code) \<Rightarrow> if code = 0 then Some cls else None | _ \<Rightarrow> None)"

lemma values_parse:
  assumes "\<And>v x d. parse v = Some x \<Longrightarrow> \<exists>w. f v d = store x (d\<lparr>world := w\<rparr>)"
    and "map parse vs = map Some xs"
  shows "list_all2 (\<lambda>v x. \<forall>d. \<exists>w. f v d = store x (d\<lparr>world := w\<rparr>)) vs xs"
  using assms by (auto simp: list_all2_conv_all_nth list_eq_iff_nth_eq)

text \<open>One value, for each of the four callbacks.\<close>

lemma attribute_type_callback_stores:
  assumes "memory_ok E" and "openldap_type E v = Some ty"
  shows "\<exists>w. attribute_type_callback E p v d = store_type E p ty (d\<lparr>world := w\<rparr>)"
proof -
  obtain w where w: "alloc E d = (True, d\<lparr>world := w\<rparr>)"
    using memory_ok_alloc [OF assms(1)] by blast
  have "ldap_str2attributetype E v = (Some ty, 0)"
    using assms(2) by (auto simp: openldap_type_def split: prod.splits option.splits if_splits)
  then have "attribute_type_callback E p v d = store_type E p ty (d\<lparr>world := w\<rparr>)"
    using w by (cases "schemas d p") (simp_all add: attribute_type_callback_def store_type_def)
  then show ?thesis ..
qed

lemma object_class_callback_stores:
  assumes "memory_ok E" and "openldap_class E v = Some cls"
  shows "\<exists>w. object_class_callback E p v d = store_class E p cls (d\<lparr>world := w\<rparr>)"
proof -
  obtain w where w: "alloc E d = (True, d\<lparr>world := w\<rparr>)"
    using memory_ok_alloc [OF assms(1)] by blast
  have "ldap_str2objectclass E v = (Some cls, 0)"
    using assms(2) by (auto simp: openldap_class_def split: prod.splits option.splits if_splits)
  then have "object_class_callback E p v d = store_class E p cls (d\<lparr>world := w\<rparr>)"
    using w by (cases "schemas d p") (simp_all add: object_class_callback_def store_class_def)
  then show ?thesis ..
qed

lemma ad_attribute_type_callback_stores:
  assumes "memory_ok E" and "printable_type ty"
  shows "\<exists>w. ad_attribute_type_callback E p (print_attribute_type ty) d = store_type E p ty (d\<lparr>world := w\<rparr>)"
proof -
  obtain d' where "same_but_world d d'"
    "parse_attribute_type E (Some p) (Some (print_attribute_type ty)) d = Some (Some ty, d')"
    using attribute_type_parses [OF assms] by blast
  then show ?thesis
    by (cases "schemas d p") (auto simp: ad_attribute_type_callback_def store_type_def elim!: same_but_worldE)
qed

lemma ad_object_class_callback_stores:
  assumes "memory_ok E" and "printable_class cls"
  shows "\<exists>w. ad_object_class_callback E p (print_object_class cls) d = store_class E p cls (d\<lparr>world := w\<rparr>)"
proof -
  obtain d' where "same_but_world d d'"
    "parse_object_class E (Some p) (Some (print_object_class cls)) d = Some (Some cls, d')"
    using object_class_parses [OF assms] by blast
  then show ?thesis
    by (cases "schemas d p") (auto simp: ad_object_class_callback_def store_class_def elim!: same_but_worldE)
qed

text \<open>All values: \<open>type_values f E p vs tys\<close> says that \<open>f\<close> reads the values \<open>vs\<close> as the types \<open>tys\<close>.\<close>

definition type_values :: "('w, 'h) op_fn \<Rightarrow> ('w, 'h) ext \<Rightarrow> nat \<Rightarrow> string list \<Rightarrow> ldap_attribute_type list \<Rightarrow> bool" where
  "type_values f E p vs tys \<longleftrightarrow>
     (f = attribute_type_callback E p \<and> map (openldap_type E) vs = map Some tys) \<or>
     (f = ad_attribute_type_callback E p \<and> vs = map print_attribute_type tys \<and> list_all printable_type tys)"

definition class_values :: "('w, 'h) op_fn \<Rightarrow> ('w, 'h) ext \<Rightarrow> nat \<Rightarrow> string list \<Rightarrow> ldap_object_class list \<Rightarrow> bool" where
  "class_values f E p vs clss \<longleftrightarrow>
     (f = object_class_callback E p \<and> map (openldap_class E) vs = map Some clss) \<or>
     (f = ad_object_class_callback E p \<and> vs = map print_object_class clss \<and> list_all printable_class clss)"

lemma type_values_store:
  assumes "memory_ok E" and "type_values f E p vs tys"
  shows "list_all2 (\<lambda>v ty. \<forall>d. \<exists>w. f v d = store_type E p ty (d\<lparr>world := w\<rparr>)) vs tys"
  using assms(2) unfolding type_values_def
proof
  assume "f = attribute_type_callback E p \<and> map (openldap_type E) vs = map Some tys"
  then show ?thesis
    using values_parse [of "openldap_type E" f "store_type E p"] attribute_type_callback_stores [OF assms(1)] by blast
next
  assume "f = ad_attribute_type_callback E p \<and> vs = map print_attribute_type tys \<and> list_all printable_type tys"
  then show ?thesis
    using ad_attribute_type_callback_stores [OF assms(1)] by (auto simp: list_all2_conv_all_nth list_all_iff)
qed

lemma class_values_store:
  assumes "memory_ok E" and "class_values f E p vs clss"
  shows "list_all2 (\<lambda>v cls. \<forall>d. \<exists>w. f v d = store_class E p cls (d\<lparr>world := w\<rparr>)) vs clss"
  using assms(2) unfolding class_values_def
proof
  assume "f = object_class_callback E p \<and> map (openldap_class E) vs = map Some clss"
  then show ?thesis
    using values_parse [of "openldap_class E" f "store_class E p"] object_class_callback_stores [OF assms(1)] by blast
next
  assume "f = ad_object_class_callback E p \<and> vs = map print_object_class clss \<and> list_all printable_class clss"
  then show ?thesis
    using ad_object_class_callback_stores [OF assms(1)] by (auto simp: list_all2_conv_all_nth list_all_iff)
qed

text \<open>
  C30: Loading attribute types: when the values are what libldap parses (OpenLDAP) or printed descriptions
  for the library's own parser (Active Directory), of types with an OID and names that are all different
  and not yet in the schema, every value is stored, and each type is then found under its OID and under
  every one of its names.
\<close>

theorem attribute_types_are_loaded:
  assumes "glib_ok E" and "memory_ok E" and "has_tables s" and "schemas c p = Some s"
    and "(f = attribute_type_callback E p \<and> map (openldap_type E) vs = map Some tys) \<or>
         (f = ad_attribute_type_callback E p \<and> vs = map print_attribute_type tys \<and> list_all printable_type tys)"
    and "\<forall>ty \<in> set tys. at_oid ty \<noteq> None \<and> at_names ty \<noteq> None \<and> names_of ty \<noteq> []"
    and "distinct (map oid_of tys)" and "distinct (concat (map names_of tys))"
    and "\<forall>n \<in> set (concat (map names_of tys)). unbound E (attribute_types_by_name s) n"
  shows "\<exists>c' s'. read_values f vs c = Some (RETURN_CODE_SUCCESS, c') \<and> schemas c' p = Some s' \<and>
    (\<forall>ty \<in> set tys. ldap_schema_get_attributetype_by_oid E (Some s') (oid_of ty) = Some ty \<and>
       (\<forall>n \<in> set (names_of ty). ldap_schema_get_attributetype_by_name E (Some s') n = Some ty))"
proof -
  have "type_values f E p vs tys" and "\<forall>ty \<in> set tys. complete_type ty"
    using assms(5,6) by (auto simp: type_values_def complete_type_def)
  from type_loader.store_all [OF assms(1,3,4) type_values_store [OF assms(2) this(1)] this(2) assms(7-9)]
  show ?thesis by (auto simp: set_schema_def)
qed

lemma attribute_types_are_loaded_witness:
  "\<exists>c' s'. read_values (attribute_type_callback demo_ext 0) [''cn'', ''sn''] demo_conn = Some (RETURN_CODE_SUCCESS, c') \<and>
     schemas c' 0 = Some s' \<and>
     ldap_schema_get_attributetype_by_name demo_ext (Some s') ''sn'' = Some (zero_attribute_type\<lparr>at_oid := Some ''sn'', at_names := Some [''sn'']\<rparr>)"
proof -
  have "has_tables demo_schema" "schemas demo_conn 0 = Some demo_schema"
    by (simp_all add: has_tables_def demo_schema_def demo_conn_def)
  then show ?thesis
    using attribute_types_are_loaded [of demo_ext demo_schema demo_conn 0 "attribute_type_callback demo_ext 0"
        "[''cn'', ''sn'']" "[(zero_attribute_type\<lparr>at_oid := Some ''cn'', at_names := Some [''cn'']\<rparr>), (zero_attribute_type\<lparr>at_oid := Some ''sn'', at_names := Some [''sn'']\<rparr>)]"]
    by (auto simp: openldap_type_def oid_of_def names_of_def unbound_def demo_schema_def)
qed

text \<open>
  The same for object classes: when the values are what libldap parses (OpenLDAP) or printed descriptions
  for the library's own parser (Active Directory), of classes with an OID and names that are all different
  and not yet in the schema, every value is stored, each class is then found under its OID and under every
  one of its names, and the attribute types of the schema are the same as before.
\<close>

theorem object_classes_are_loaded:
  assumes "glib_ok E" and "memory_ok E" and "has_tables s" and "schemas c p = Some s"
    and "class_values f E p vs clss" and "\<forall>cls \<in> set clss. complete_class cls"
    and "distinct (map class_oid_of clss)" and "distinct (concat (map class_names_of clss))"
    and "\<forall>n \<in> set (concat (map class_names_of clss)). unbound E (object_classes_by_name s) n"
  shows "\<exists>c' s'. read_values f vs c = Some (RETURN_CODE_SUCCESS, c') \<and> schemas c' p = Some s' \<and>
    (\<forall>cls \<in> set clss. ldap_schema_get_objectclass_by_oid E (Some s') (class_oid_of cls) = Some cls \<and>
       (\<forall>n \<in> set (class_names_of cls). ldap_schema_get_objectclass_by_name E (Some s') n = Some cls)) \<and>
    attribute_types_by_oid s' = attribute_types_by_oid s \<and> attribute_types_by_name s' = attribute_types_by_name s"
  using class_loader.store_all [OF assms(1,3,4) class_values_store [OF assms(2,5)] assms(6-9)]
  by (auto simp: set_schema_def)

lemma object_classes_are_loaded_witness:
  "\<exists>c' s'. read_values (ad_object_class_callback demo_ext 0) [print_object_class demo_class] demo_conn =
       Some (RETURN_CODE_SUCCESS, c') \<and> schemas c' 0 = Some s' \<and>
     ldap_schema_get_objectclass_by_name demo_ext (Some s') ''person'' = Some demo_class"
proof -
  have "has_tables demo_schema" "schemas demo_conn 0 = Some demo_schema"
    by (simp_all add: has_tables_def demo_schema_def demo_conn_def)
  moreover have "class_values (ad_object_class_callback demo_ext 0) demo_ext 0 [print_object_class demo_class] [demo_class]"
    using demo_class_printable by (simp add: class_values_def)
  moreover have "complete_class demo_class" "class_names_of demo_class = [''person'']"
    by (simp_all add: complete_class_def class_names_of_def demo_class_def)
  ultimately show ?thesis
    using object_classes_are_loaded [of demo_ext demo_schema demo_conn 0 "ad_object_class_callback demo_ext 0"
        "[print_object_class demo_class]" "[demo_class]"]
    by (auto simp: unbound_def demo_schema_def)
qed

section \<open>From the messages of an answer to the schema\<close>

text \<open>What an entry built from a message with one attribute, or with none, gives back.\<close>

lemma entry_attributes_read:
  assumes "glib_ok E" and "memory_ok E" and "entry_of_message E m e" and "length (message_attributes m) \<le> 1"
  shows "\<exists>w. ld_entry_get_attributes E (Some e) c =
    Some (Some (map (\<lambda>(n, vs). \<lparr>attr_name = Some n, attr_values = Some (map c_str vs)\<rparr>) (message_attributes m)), c\<lparr>world := w\<rparr>)"
proof -
  have e: "holds_attributes E e" and get: "\<And>n. ld_entry_get_attribute E (Some e) n =
      map_option (\<lambda>vs. \<lparr>attr_name = Some n, attr_values = Some (map c_str vs)\<rparr>) (map_of (rev (message_attributes m)) n)"
    using assms(3) by (simp_all add: entry_of_message_def)
  obtain as w where as: "ld_entry_get_attributes E (Some e) c = Some (Some as, c\<lparr>world := w\<rparr>)"
      "distinct (map attr_name as)"
    and mem: "\<And>a. a \<in> set as \<longleftrightarrow> (\<exists>n. ld_entry_get_attribute E (Some e) n = Some a)"
    using attributes_returned [OF assms(1,2) e] by blast
  let ?as = "map (\<lambda>(n, vs). \<lparr>attr_name = Some n, attr_values = Some (map c_str vs)\<rparr>) (message_attributes m)"
  have "as = ?as"
  proof (cases "message_attributes m")
    case Nil
    then have "hd as \<notin> set as" using mem [of "hd as"] get by auto
    then have "as = []" by (cases as) auto
    with Nil show ?thesis by simp
  next
    case (Cons nv rest)
    then have m: "message_attributes m = [nv]" using assms(4) by (cases rest) auto
    obtain n vs where nv: "nv = (n, vs)" by fastforce
    have "set as = {\<lparr>attr_name = Some n, attr_values = Some (map c_str vs)\<rparr>}"
      using mem get m nv by (auto split: if_splits)
    moreover have "distinct as" using as(2) by (simp add: distinct_map)
    ultimately have "as = [\<lparr>attr_name = Some n, attr_values = Some (map c_str vs)\<rparr>]"
      by (cases as; cases "tl as"; fastforce)
    with m nv show ?thesis by simp
  qed
  with as(1) show ?thesis by blast
qed

text \<open>
  The answer to a search for one attribute of one entry: a message that lists its values, followed by
  messages without attributes, as the final result of the search.
\<close>

fun lists_values :: "string list \<Rightarrow> ldap_message list \<Rightarrow> bool" where
  "lists_values vs [] \<longleftrightarrow> False"
| "lists_values vs (m # rest) \<longleftrightarrow>
     message_dn m \<noteq> None \<and> (\<exists>n ws. message_attributes m = [(n, ws)] \<and> vs = map c_str ws) \<and>
     (\<forall>r \<in> set rest. message_dn r \<noteq> None \<and> message_attributes r = [])"

lemma empty_entries_read:
  assumes "glib_ok E" and "memory_ok E"
    and "list_all2 (entry_of_message E) ms entries" and "\<forall>m \<in> set ms. message_attributes m = []"
  shows "\<exists>w. ldap_schema_callback_common E f entries c = Some (RETURN_CODE_SUCCESS, c\<lparr>world := w\<rparr>)"
  using assms(3,4)
proof (induction ms entries arbitrary: c rule: list_all2_induct)
  case Nil
  show ?case by (rule exI [of _ "world c"]) simp
next
  case (Cons m ms e entries)
  then have none: "message_attributes m = []" by simp
  obtain w where "ld_entry_get_attributes E (Some e) c = Some (Some [], c\<lparr>world := w\<rparr>)"
    using entry_attributes_read [OF assms(1,2) Cons.hyps(1), of c] none by auto
  then have "ldap_schema_read_entry E f e c = Some (RETURN_CODE_SUCCESS, c\<lparr>world := w\<rparr>)"
    by (simp add: ldap_schema_read_entry_def read_attribute_loop_end)
  moreover obtain w' where "ldap_schema_callback_common E f entries (c\<lparr>world := w\<rparr>) =
      Some (RETURN_CODE_SUCCESS, c\<lparr>world := w\<rparr>\<lparr>world := w'\<rparr>)"
    using Cons.IH [of "c\<lparr>world := w\<rparr>"] Cons.prems by auto
  ultimately show ?case by (intro exI [of _ w']) simp
qed

lemma listed_values_read:
  assumes "glib_ok E" and "memory_ok E"
    and "list_all2 (entry_of_message E) message entries" and "lists_values vs message"
    and "\<And>w. \<exists>d. read_values f vs (c\<lparr>world := w\<rparr>) = Some (RETURN_CODE_SUCCESS, d) \<and> R d"
    and "\<And>d w. R d \<Longrightarrow> R (d\<lparr>world := w\<rparr>)"
  shows "\<exists>d. ldap_schema_callback_common E f entries c = Some (RETURN_CODE_SUCCESS, d) \<and> R d"
proof -
  obtain m rest n ws where m: "message = m # rest" "message_attributes m = [(n, ws)]" "vs = map c_str ws"
      "\<forall>r \<in> set rest. message_attributes r = []"
    using assms(4) by (cases message) auto
  obtain e es where e: "entries = e # es" "entry_of_message E m e" "list_all2 (entry_of_message E) rest es"
    using assms(3) m(1) by (auto simp: list_all2_Cons1)
  obtain w where "ld_entry_get_attributes E (Some e) c =
      Some (Some [\<lparr>attr_name = Some n, attr_values = Some vs\<rparr>], c\<lparr>world := w\<rparr>)"
    using entry_attributes_read [OF assms(1,2) e(2), of c] m(2,3) by auto
  then have "ldap_schema_read_entry E f e c = read_values f vs (c\<lparr>world := w\<rparr>)"
    using read_attribute_loop_values [of "[\<lparr>attr_name = Some n, attr_values = Some vs\<rparr>]" 0 f "c\<lparr>world := w\<rparr>"]
    by (simp add: ldap_schema_read_entry_def)
  then obtain d where read: "ldap_schema_read_entry E f e c = Some (RETURN_CODE_SUCCESS, d)" and "R d"
    using assms(5) [of w] by auto
  moreover obtain w2 where "ldap_schema_callback_common E f es d = Some (RETURN_CODE_SUCCESS, d\<lparr>world := w2\<rparr>)"
    using empty_entries_read [OF assms(1,2) e(3) m(4)] by blast
  ultimately show ?thesis
    using e(1) assms(6) by (intro exI [of _ "d\<lparr>world := w2\<rparr>"]) simp
qed

section \<open>What a load asks for\<close>

definition schema_searches :: "int list \<Rightarrow> search_callback list \<Rightarrow> nat \<Rightarrow> ldap_search_request list" where
  "schema_searches ms fs p =
     map2 (\<lambda>m f. \<lparr>search_msgid = m, on_search_operation = Some f, search_user_data = SCHEMA_DATA p\<rparr>) ms fs"

lemma search_succeeds:
  assumes "conn_inv c" and "ldap c = Valid ld" and "n_read_requests c < MAX_REQUESTS"
    and "n_search_requests c + 1 < MAX_REQUESTS"
    and "ldap_search_ext E ld dn sc flt attrs only (world c) = ((LDAP_SUCCESS, m), w)"
  shows "\<exists>c'. search E c dn sc flt attrs only (Some f) (SCHEMA_DATA p) = Some (RETURN_CODE_SUCCESS, c') \<and>
    conn_inv c' \<and> ldap c' = ldap c \<and> world c' = w \<and> n_read_requests c' = n_read_requests c + 1 \<and>
    n_search_requests c' = n_search_requests c + 1 \<and>
    outstanding c' = outstanding c @ [(m, Some SEARCH_ON_READ)] \<and>
    searches c' = searches c @ schema_searches [m] [f] p \<and> schema c' = schema c \<and> schemas c' = schemas c \<and>
    has_handle c' = has_handle c \<and> directory_type c' = directory_type c"
proof -
  let ?r = "\<lparr>search_msgid = m, on_search_operation = Some f, search_user_data = SCHEMA_DATA p\<rparr>"
  obtain c1 c' where enq: "enqueued c w m SEARCH_ON_READ c1"
    and res: "search E c dn sc flt attrs only (Some f) (SCHEMA_DATA p) = Some (RETURN_CODE_SUCCESS, c')"
      "conn_inv c'" "outstanding c' = outstanding c1" "searches c' = searches c @ [?r]"
    and c': "c' = c1\<lparr>search_requests := search_requests c', n_search_requests := n_search_requests c + 1\<rparr>"
    using search_accepted [OF assms(1-3,5), of "Some f" "SCHEMA_DATA p"] assms(4) by auto
  have "ldap c' = ldap c1" "world c' = world c1" "n_read_requests c' = n_read_requests c1"
    "n_search_requests c' = n_search_requests c + 1" "schema c' = schema c1" "schemas c' = schemas c1"
    "has_handle c' = has_handle c1" "directory_type c' = directory_type c1"
    by (subst c', simp)+
  with enq res show ?thesis
    by (auto simp: enqueued_frame [OF enq] schema_searches_def) (simp_all add: enqueued_def)
qed

text \<open>
  What a load is asked to send, as a relation between the connections before and after; the session, the
  schema, the handle and the kind of directory are the same.
\<close>

definition registers ::
  "('w, 'h) conn \<Rightarrow> nat \<Rightarrow> search_callback list \<Rightarrow> ('w, 'h) conn \<Rightarrow> bool" where
  "registers c p fs c' \<longleftrightarrow> conn_inv c' \<and> ldap c' = ldap c \<and> schema c' = schema c \<and> schemas c' = schemas c \<and>
     has_handle c' = has_handle c \<and> directory_type c' = directory_type c \<and>
     (\<exists>ms. length ms = length fs \<and>
        outstanding c' = outstanding c @ map (\<lambda>m. (m, Some SEARCH_ON_READ)) ms \<and>
        searches c' = searches c @ schema_searches ms fs p)"

lemma registers_append:
  assumes "registers c p fs c1" and "registers c1 p gs c2"
  shows "registers c p (fs @ gs) c2"
proof -
  obtain ms where ms: "length ms = length fs" "outstanding c1 = outstanding c @ map (\<lambda>m. (m, Some SEARCH_ON_READ)) ms"
    "searches c1 = searches c @ schema_searches ms fs p"
    using assms(1) unfolding registers_def by blast
  obtain ns where ns: "length ns = length gs" "outstanding c2 = outstanding c1 @ map (\<lambda>m. (m, Some SEARCH_ON_READ)) ns"
    "searches c2 = searches c1 @ schema_searches ns gs p" "conn_inv c2"
    using assms(2) unfolding registers_def by blast
  have "ldap c2 = ldap c" "schema c2 = schema c" "schemas c2 = schemas c" "has_handle c2 = has_handle c"
    "directory_type c2 = directory_type c"
    using assms by (simp_all add: registers_def)
  then show ?thesis
    unfolding registers_def using ms ns
    by (intro conjI exI [of _ "ms @ ns"]) (simp_all add: schema_searches_def)
qed

definition accepts_searches :: "('w, 'h) ext \<Rightarrow> bool" where
  "accepts_searches E \<longleftrightarrow>
     (\<forall>ld dn sc flt attrs only w. fst (fst (ldap_search_ext E ld dn sc flt attrs only w)) = LDAP_SUCCESS)"

lemma search_registers:
  assumes "conn_inv c" and "ldap c = Valid ld" and "n_read_requests c < MAX_REQUESTS"
    and "n_search_requests c + 1 < MAX_REQUESTS" and "accepts_searches E"
  shows "\<exists>c'. search E c dn LDAP_SCOPE_BASE flt attrs False (Some f) (SCHEMA_DATA p) = Some (RETURN_CODE_SUCCESS, c') \<and>
    registers c p [f] c' \<and> ldap c' = Valid ld \<and> n_read_requests c' = n_read_requests c + 1 \<and>
    n_search_requests c' = n_search_requests c + 1"
proof -
  obtain m w where "ldap_search_ext E ld dn LDAP_SCOPE_BASE flt attrs False (world c) = ((LDAP_SUCCESS, m), w)"
    using assms(5) unfolding accepts_searches_def by (metis prod.exhaust_sel)
  from search_succeeds [OF assms(1-4) this, of f p] assms(2) show ?thesis
    by (auto simp: registers_def intro!: exI [of _ "[m]"])
qed

text \<open>The id of the request that a search has sent is the one libldap returned.\<close>

lemma search_sent_id:
  assumes "search E c (Some dn) LDAP_SCOPE_BASE (Some flt) (Some [attr]) False (Some f) ud = Some (RETURN_CODE_SUCCESS, c')"
    and "conn_inv c" and "ldap c = Valid ld" and "n_read_requests c < MAX_REQUESTS" and "accepts_searches E"
  shows "\<exists>m v. outstanding c' = outstanding c @ [(m, Some SEARCH_ON_READ)] \<and> conn_inv c' \<and> ldap c' = Valid ld \<and>
    n_read_requests c' = n_read_requests c + 1 \<and>
    fst (ldap_search_ext E ld (Some dn) LDAP_SCOPE_BASE (Some flt) (Some [attr]) False v) = (LDAP_SUCCESS, m)"
proof -
  obtain m w where s: "ldap_search_ext E ld (Some dn) LDAP_SCOPE_BASE (Some flt) (Some [attr]) False (world c) = ((LDAP_SUCCESS, m), w)"
    using assms(5) unfolding accepts_searches_def by (metis prod.exhaust_sel)
  obtain c1 where e: "enqueued c w m SEARCH_ON_READ c1" and c1: "conn_inv c'" "outstanding c' = outstanding c1"
    and c': "c' = c1\<lparr>search_requests := search_requests c', n_search_requests := n_search_requests c + 1\<rparr>"
    using search_accepted [OF assms(2-4) s, of "Some f" ud] assms(1) by (auto split: if_splits)
  have "ldap c' = ldap c1" "n_read_requests c' = n_read_requests c1" by (subst c', simp)+
  moreover have "outstanding c1 = outstanding c @ [(m, Some SEARCH_ON_READ)]"
    using e by (simp add: enqueued_def)
  ultimately show ?thesis
    using enqueued_frame [OF e] c1 assms(3) s by (intro exI [of _ m] exI [of _ "world c"]) simp
qed

lemma search_both_ids:
  assumes "search_both E c dn f1 f2 ud = Some (RETURN_CODE_SUCCESS, c')" and "conn_inv c" and "ldap c = Valid ld"
    and "n_read_requests c + 1 < MAX_REQUESTS" and "accepts_searches E"
  shows "\<exists>i j v w. outstanding c' = outstanding c @ [(i, Some SEARCH_ON_READ), (j, Some SEARCH_ON_READ)] \<and>
    fst (ldap_search_ext E ld (Some dn) LDAP_SCOPE_BASE (Some ''(objectclass=subschema)'') (Some [''attributetypes'']) False v) =
      (LDAP_SUCCESS, i) \<and>
    fst (ldap_search_ext E ld (Some dn) LDAP_SCOPE_BASE (Some ''(objectclass=subschema)'') (Some [''objectclasses'']) False w) =
      (LDAP_SUCCESS, j)"
proof -
  obtain c1 where 1: "search E c (Some dn) LDAP_SCOPE_BASE (Some ''(objectclass=subschema)'') (Some [''attributetypes''])
      False (Some f1) ud = Some (RETURN_CODE_SUCCESS, c1)"
    and 2: "search E c1 (Some dn) LDAP_SCOPE_BASE (Some ''(objectclass=subschema)'') (Some [''objectclasses''])
      False (Some f2) ud = Some (RETURN_CODE_SUCCESS, c')"
    using assms(1) by (auto simp: search_both_def split: if_splits elim!: bind_SomeE)
  have "n_read_requests c < MAX_REQUESTS" using assms(4) by simp
  from search_sent_id [OF 1 assms(2,3) this assms(5)]
  obtain i v where i: "outstanding c1 = outstanding c @ [(i, Some SEARCH_ON_READ)]" "conn_inv c1" "ldap c1 = Valid ld"
      "n_read_requests c1 = n_read_requests c + 1"
      "fst (ldap_search_ext E ld (Some dn) LDAP_SCOPE_BASE (Some ''(objectclass=subschema)'') (Some [''attributetypes'']) False v) =
        (LDAP_SUCCESS, i)"
    by blast
  have "n_read_requests c1 < MAX_REQUESTS" using assms(4) i(4) by simp
  from search_sent_id [OF 2 i(2,3) this assms(5)] i(1,5) show ?thesis by auto
qed

lemma search_both_registers:
  assumes "conn_inv c" and "ldap c = Valid ld" and "n_read_requests c + 1 < MAX_REQUESTS"
    and "n_search_requests c + 2 < MAX_REQUESTS" and "accepts_searches E"
  shows "\<exists>c'. search_both E c dn f1 f2 (SCHEMA_DATA p) = Some (RETURN_CODE_SUCCESS, c') \<and> registers c p [f1, f2] c'"
proof -
  obtain c1 where 1: "search E c (Some dn) LDAP_SCOPE_BASE (Some ''(objectclass=subschema)'') (Some [''attributetypes''])
      False (Some f1) (SCHEMA_DATA p) = Some (RETURN_CODE_SUCCESS, c1)" "registers c p [f1] c1" "ldap c1 = Valid ld"
      "n_read_requests c1 = n_read_requests c + 1" "n_search_requests c1 = n_search_requests c + 1"
    using search_registers [OF assms(1,2) _ _ assms(5), of "Some dn" _ _ f1 p] assms(3,4) by fastforce
  obtain c2 where 2: "search E c1 (Some dn) LDAP_SCOPE_BASE (Some ''(objectclass=subschema)'') (Some [''objectclasses''])
      False (Some f2) (SCHEMA_DATA p) = Some (RETURN_CODE_SUCCESS, c2)" "registers c1 p [f2] c2"
    using search_registers [OF _ 1(3) _ _ assms(5), of "Some dn" "Some ''(objectclass=subschema)''"
        "Some [''objectclasses'']" f2 p] 1(2,4,5) assms(3,4) registers_def [of c p "[f1]" c1] by auto
  have both: "registers c p [f1, f2] c2"
    using registers_append [OF 1(2) 2(2)] by simp
  show ?thesis using 1(1) 2(1) both by (simp add: search_both_def)
qed

lemma schema_load_registers:
  assumes "conn_inv c" and "ldap c = Valid ld" and "schema c = Some p"
    and "n_read_requests c + 1 < MAX_REQUESTS" and "n_search_requests c + 2 < MAX_REQUESTS"
    and "accepts_searches E"
  shows "\<exists>rc c' fs. ldap_schema_load E c = Some (rc, c') \<and> registers c p fs c' \<and>
    (rc, fs) = (case directory_type c of
        LDAP_TYPE_OPENLDAP \<Rightarrow> (RETURN_CODE_SUCCESS, [OPENLDAP_ATTRIBUTE_TYPES_CALLBACK, OPENLDAP_OBJECT_CLASSES_CALLBACK])
      | LDAP_TYPE_ACTIVE_DIRECTORY \<Rightarrow>
          if schema_entry_path c = None then (RETURN_CODE_OPERATION_IN_PROGRESS, [AD_SUBSCHEMA_SUBENTRY_CALLBACK])
          else (RETURN_CODE_SUCCESS, [AD_ATTRIBUTE_TYPES_CALLBACK, AD_OBJECT_CLASSES_CALLBACK])
      | LDAP_TYPE_FREE_IPA \<Rightarrow> (RETURN_CODE_FAILURE, [])
      | _ \<Rightarrow> (RETURN_CODE_SUCCESS, []))"
proof -
  have d: "schema_data (schema c) = SCHEMA_DATA p" by (simp add: schema_data_def assms(3))
  have none: "registers c p [] c" using assms(1) by (simp add: registers_def schema_searches_def)
  note both = search_both_registers [OF assms(1,2,4,5,6)]
  obtain c1 where one: "search E c (Some '''') LDAP_SCOPE_BASE (Some ''(objectclass=*)'')
        (Some [''subschemaSubentry'']) False (Some AD_SUBSCHEMA_SUBENTRY_CALLBACK) (SCHEMA_DATA p) = Some (RETURN_CODE_SUCCESS, c1)"
      "registers c p [AD_SUBSCHEMA_SUBENTRY_CALLBACK] c1"
    using search_registers [OF assms(1,2) _ _ assms(6)] assms(4,5) by fastforce
  show ?thesis
  proof (cases "directory_type c")
    case LDAP_TYPE_OPENLDAP
    then show ?thesis
      using both [of "''cn=subschema''" OPENLDAP_ATTRIBUTE_TYPES_CALLBACK OPENLDAP_OBJECT_CLASSES_CALLBACK p] d
      by (auto simp: ldap_schema_load_def schema_load_openldap_def)
  next
    case LDAP_TYPE_ACTIVE_DIRECTORY
    then show ?thesis
      using both [of "the (schema_entry_path c)" AD_ATTRIBUTE_TYPES_CALLBACK AD_OBJECT_CLASSES_CALLBACK p] d one
      by (cases "schema_entry_path c") (auto simp: ldap_schema_load_def schema_load_active_directory_def)
  qed (use none in \<open>auto simp: ldap_schema_load_def\<close>)
qed

text \<open>
  Loading the schema of an OpenLDAP directory, or of an Active Directory whose subschema entry is
  known, sends two searches and registers the callbacks for attribute types and object classes on the
  connection's schema, in this order. While the subschema entry is unknown, only the search for it is
  sent and the load is in progress.
\<close>

theorem schema_load_registers_searches:
  assumes "conn_inv c" and "ldap c = Valid ld" and "schema c = Some p"
    and "n_read_requests c + 1 < MAX_REQUESTS" and "n_search_requests c + 2 < MAX_REQUESTS"
    and "accepts_searches E"
  shows "\<exists>rc c' fs. ldap_schema_load E c = Some (rc, c') \<and> registers c p fs c' \<and>
    (rc, fs) = (case directory_type c of
        LDAP_TYPE_OPENLDAP \<Rightarrow> (RETURN_CODE_SUCCESS, [OPENLDAP_ATTRIBUTE_TYPES_CALLBACK, OPENLDAP_OBJECT_CLASSES_CALLBACK])
      | LDAP_TYPE_ACTIVE_DIRECTORY \<Rightarrow>
          if schema_entry_path c = None then (RETURN_CODE_OPERATION_IN_PROGRESS, [AD_SUBSCHEMA_SUBENTRY_CALLBACK])
          else (RETURN_CODE_SUCCESS, [AD_ATTRIBUTE_TYPES_CALLBACK, AD_OBJECT_CLASSES_CALLBACK])
      | LDAP_TYPE_FREE_IPA \<Rightarrow> (RETURN_CODE_FAILURE, [])
      | _ \<Rightarrow> (RETURN_CODE_SUCCESS, []))"
  by (rule schema_load_registers [OF assms])

lemma schema_load_registers_searches_witness:
  "\<exists>c'. ldap_schema_load demo_ext (demo_conn\<lparr>directory_type := LDAP_TYPE_OPENLDAP\<rparr>) = Some (RETURN_CODE_SUCCESS, c') \<and>
     registers (demo_conn\<lparr>directory_type := LDAP_TYPE_OPENLDAP\<rparr>) 0
       [OPENLDAP_ATTRIBUTE_TYPES_CALLBACK, OPENLDAP_OBJECT_CLASSES_CALLBACK] c'"
proof -
  let ?c = "demo_conn\<lparr>directory_type := LDAP_TYPE_OPENLDAP\<rparr>"
  have "conn_inv ?c" "schema ?c = Some 0"
    by (simp_all add: conn_inv_def waiting_def demo_conn_def rq_inv_def rq_rep_def rq_items_def Let_def)
  then show ?thesis
    using schema_load_registers_searches [of ?c 1 0 demo_ext]
    by (auto simp: demo_send_def accepts_searches_def)
qed

end
