(* ===== verification/Directory.thy ===== *)
theory Directory
  imports Entry
begin

text \<open>
  Detecting the kind of directory, \<open>src/src/directory.c\<close>: a search of the root DSE and the reading of
  its answer. The lemmas say which attribute decides.
\<close>

definition directory_get_type ::
  "('w, 'h) ext \<Rightarrow> ('w, 'h) conn \<Rightarrow> (OperationReturnCode \<times> ('w, 'h) conn) option" where
  "directory_get_type E c =
     submit (\<lambda>ld. ldap_search_ext E ld (Some '''') LDAP_SCOPE_BASE (Some ''(objectClass=*)'')
               (Some [''*'']) False) DIRECTORY_PARSE_RESULT c"

definition directory_process_attribute :: "string \<Rightarrow> ('w, 'h) conn \<Rightarrow> bool \<times> ('w, 'h) conn" where
  "directory_process_attribute name c =
     (if name = ''isGlobalCatalogReady'' then (True, c\<lparr>directory_type := LDAP_TYPE_ACTIVE_DIRECTORY\<rparr>)
      else if name = ''objectClass'' then (True, c\<lparr>directory_type := LDAP_TYPE_OPENLDAP\<rparr>)
      else (False, c))"

text \<open>The attributes of one message, up to the first one that is recognised, and all messages.\<close>

fun process_attributes :: "string list \<Rightarrow> ('w, 'h) conn \<Rightarrow> ('w, 'h) conn" where
  "process_attributes [] c = c"
| "process_attributes (a # as) c =
     (let (recognised, c1) = directory_process_attribute a c in
      if recognised then c1 else process_attributes as c1)"

fun process_messages :: "ldap_message list \<Rightarrow> ('w, 'h) conn \<Rightarrow> ('w, 'h) conn" where
  "process_messages [] c = c"
| "process_messages (m # ms) c =
     process_messages ms (process_attributes (map fst (message_attributes m)) c)"

definition directory_parse_result ::
  "('w, 'h) ext \<Rightarrow> int \<Rightarrow> ldap_message list \<Rightarrow> ('w, 'h) conn \<Rightarrow> (OperationReturnCode \<times> ('w, 'h) conn) option" where
  "directory_parse_result E rc message c =
     (if rc = LDAP_RES_SEARCH_ENTRY \<or> rc = LDAP_RES_SEARCH_RESULT then
        let c1 = process_messages message c in
        Some (RETURN_CODE_SUCCESS,
              if directory_type c1 = LDAP_TYPE_UNINITIALIZED
              then c1\<lparr>directory_type := LDAP_TYPE_UNKNOWN\<rparr> else c1)
      else if rc = LDAP_RES_SEARCH_REFERENCE then Some (RETURN_CODE_SUCCESS, c)
      else answer_failed E rc message c)"

section \<open>Which attribute decides\<close>

text \<open>
  The kind of directory an attribute announces, the first announcement of a message, and the last
  message that makes one.
\<close>

definition announces :: "string \<Rightarrow> LdapDirectoryType option" where
  "announces name =
     (if name = ''isGlobalCatalogReady'' then Some LDAP_TYPE_ACTIVE_DIRECTORY
      else if name = ''objectClass'' then Some LDAP_TYPE_OPENLDAP else None)"

definition message_announces :: "ldap_message \<Rightarrow> LdapDirectoryType option" where
  "message_announces m = first_some (map (announces \<circ> fst) (message_attributes m))"

definition detected :: "ldap_message list \<Rightarrow> LdapDirectoryType option" where
  "detected ms = first_some (rev (map message_announces ms))"

lemma detected_typed: "detected message \<noteq> Some LDAP_TYPE_UNINITIALIZED"
proof -
  have never: "first_some (map f xs) \<noteq> Some LDAP_TYPE_UNINITIALIZED"
    if "\<And>x. f x \<noteq> Some LDAP_TYPE_UNINITIALIZED" for f :: "'x \<Rightarrow> LdapDirectoryType option" and xs
    using that by (induction xs) (auto split: option.splits)
  have "message_announces m \<noteq> Some LDAP_TYPE_UNINITIALIZED" for m
    unfolding message_announces_def by (rule never) (simp add: announces_def)
  then show ?thesis
    unfolding detected_def rev_map by (rule never)
qed

lemma process_attributes_eq:
  "process_attributes as c =
     (case first_some (map announces as) of Some t \<Rightarrow> c\<lparr>directory_type := t\<rparr> | None \<Rightarrow> c)"
  by (induction as) (simp_all add: directory_process_attribute_def announces_def)

lemma process_messages_eq:
  "process_messages ms c = (case detected ms of None \<Rightarrow> c | Some t \<Rightarrow> c\<lparr>directory_type := t\<rparr>)"
  by (induction ms arbitrary: c)
    (auto simp: detected_def process_attributes_eq message_announces_def comp_def split: option.splits)

text \<open>
  Asking for the kind of directory enqueues one search of the root DSE with its own handler, or fails
  without a trace when libldap refuses.
\<close>

theorem directory_request_enqueues:
  assumes "conn_inv c" and "ldap c = Valid ld" and "n_read_requests c < MAX_REQUESTS"
  shows "submitted c
    (ldap_search_ext E ld (Some '''') LDAP_SCOPE_BASE (Some ''(objectClass=*)'') (Some [''*'']) False (world c))
    DIRECTORY_PARSE_RESULT (directory_get_type E c)"
  unfolding directory_get_type_def by (rule submit_submitted [OF assms])

lemma directory_request_enqueues_witness:
  "\<exists>c'. directory_get_type demo_ext demo_conn = Some (RETURN_CODE_SUCCESS, c') \<and>
        outstanding c' = [(1, Some DIRECTORY_PARSE_RESULT)]"
  using directory_request_enqueues [of demo_conn 1 demo_ext]
  by (auto simp: submitted_def demo_send_def enqueued_def)

text \<open>
  C31: The answer decides by attribute names alone: the last message that carries \<open>isGlobalCatalogReady\<close>
  or \<open>objectClass\<close> wins, in it the first of the two. Without any, a directory not yet typed becomes
  unknown, so that after an answer the type is never uninitialised; a reference changes nothing.
\<close>

theorem directory_answer_decides:
  "directory_parse_result E LDAP_RES_SEARCH_ENTRY message c = Some (RETURN_CODE_SUCCESS,
     c\<lparr>directory_type := (case detected message of
          Some t \<Rightarrow> t
        | None \<Rightarrow> if directory_type c = LDAP_TYPE_UNINITIALIZED then LDAP_TYPE_UNKNOWN else directory_type c)\<rparr>)
   \<and> detected message \<noteq> Some LDAP_TYPE_UNINITIALIZED
   \<and> directory_parse_result E LDAP_RES_SEARCH_RESULT message c =
       directory_parse_result E LDAP_RES_SEARCH_ENTRY message c
   \<and> directory_parse_result E LDAP_RES_SEARCH_REFERENCE message c = Some (RETURN_CODE_SUCCESS, c)"
  using detected_typed [of message]
  by (auto simp: directory_parse_result_def process_messages_eq Let_def split: option.splits)

end
