(* ===== verification/Request_Tables.thy ===== *)
theory Request_Tables
  imports Schema_Load Directory
begin

text \<open>
  How the functions of \<open>entry.c\<close>, \<open>directory.c\<close> and the schema loaders change the request tables of a
  connection: they only append requests in fresh slots, and leave the life of the connection alone, the
  state of its machine and the detected kind of directory apart. The same is asked of the application's callbacks,
  by the relation \<open>api_calls\<close>: a callback acts on the connection through the library's requests.
\<close>

section \<open>The life of a connection\<close>

text \<open>
  \<open>settles c c'\<close>: the connection keeps its state machine, its read event and its counter of reconnections;
  a machine only changes to one of the states that answers announce, and a detected kind of directory is
  not forgotten.
\<close>

definition settles :: "('w, 'h) conn \<Rightarrow> ('w, 'h) conn \<Rightarrow> bool" where
  "settles c c' \<longleftrightarrow> state_machine c' = state_machine c \<and> read_event c' = read_event c \<and>
     n_reconnect_attempts c' = n_reconnect_attempts c \<and>
     (\<forall>m. machines c' m = machines c m \<or> machines c m \<noteq> None \<and> machines c' m \<in>
        Some ` {LDAP_CONNECTION_STATE_BOUND, LDAP_CONNECTION_STATE_ERROR, LDAP_CONNECTION_STATE_TRANSPORT_READY}) \<and>
     (directory_type c' = LDAP_TYPE_UNINITIALIZED \<longrightarrow> directory_type c = LDAP_TYPE_UNINITIALIZED)"

lemma settles_refl [simp]: "settles c c"
  by (simp add: settles_def)

lemma settles_trans [trans]: "settles a b \<Longrightarrow> settles b c \<Longrightarrow> settles a c"
  unfolding settles_def by (elim conjE, intro conjI allI) (simp_all, metis)

lemma settles_upd [simp]:
  "settles a (b\<lparr>world := w\<rparr>) = settles a b" "settles a (b\<lparr>queues := q\<rparr>) = settles a b"
  "settles a (b\<lparr>read_requests := r\<rparr>) = settles a b" "settles a (b\<lparr>n_read_requests := n\<rparr>) = settles a b"
  "settles a (b\<lparr>search_requests := sr\<rparr>) = settles a b" "settles a (b\<lparr>n_search_requests := n\<rparr>) = settles a b"
  "settles a (b\<lparr>schemas := ss\<rparr>) = settles a b" "settles a (b\<lparr>schema_entry_path := sp\<rparr>) = settles a b"
  "settles a (b\<lparr>conn_msgid := m\<rparr>) = settles a b" "settles a (b\<lparr>rmech := x\<rparr>) = settles a b"
  "settles a (b\<lparr>n_write_requests := n\<rparr>) = settles a b" "settles (a\<lparr>queues := q\<rparr>) b = settles a b"
  "settles (a\<lparr>world := w\<rparr>) b = settles a b"
  by (simp_all add: settles_def)

lemma settles_typed: "t \<noteq> LDAP_TYPE_UNINITIALIZED \<Longrightarrow> settles c (c\<lparr>directory_type := t\<rparr>)"
  by (simp add: settles_def)

section \<open>How the tables grow\<close>

text \<open>
  \<open>extends c c'\<close>: from \<open>c\<close> to \<open>c'\<close> requests were only appended, in fresh slots. \<open>same_tables\<close>: the call
  queue, the read requests and the number of searches are as before.
\<close>

definition extends :: "('w, 'h) conn \<Rightarrow> ('w, 'h) conn \<Rightarrow> bool" where
  "extends c c' \<longleftrightarrow> conn_inv c' \<and> n_read_requests c \<le> n_read_requests c' \<and>
     waiting c' = waiting c @ [n_read_requests c..n_read_requests c' - 1] \<and>
     (\<forall>i < n_read_requests c. read_requests c' i = read_requests c i) \<and> settles c c'"

definition same_tables :: "('w, 'h) conn \<Rightarrow> ('w, 'h) conn \<Rightarrow> bool" where
  "same_tables c c' \<longleftrightarrow> callqueue c' = callqueue c \<and> queues c' = queues c \<and>
     read_requests c' = read_requests c \<and> n_read_requests c' = n_read_requests c \<and>
     n_search_requests c' = n_search_requests c \<and> settles c c'"

lemma same_tables_refl [simp]: "same_tables c c"
  by (simp add: same_tables_def)

lemma same_tables_trans [trans]: "same_tables a b \<Longrightarrow> same_tables b c \<Longrightarrow> same_tables a c"
  by (auto simp: same_tables_def intro: settles_trans)

lemma same_tables_world [simp]: "same_tables a (b\<lparr>world := w\<rparr>) = same_tables a b"
  "same_tables a (snd (free_block E b)) = same_tables a b" "same_tables a (snd (alloc E b)) = same_tables a b"
  by (simp_all add: same_tables_def alloc_def free_block_def split: prod.splits)

lemma same_tables_inv:
  assumes "same_tables c c'"
  shows "waiting c' = waiting c" and "outstanding c' = outstanding c" and "conn_inv c' = conn_inv c"
proof -
  show w: "waiting c' = waiting c"
    using assms by (simp add: same_tables_def waiting_def split: option.splits)
  show "outstanding c' = outstanding c"
    using assms w by (simp add: same_tables_def outstanding_def)
  show "conn_inv c' = conn_inv c"
    using assms w by (simp add: same_tables_def conn_inv_def split: option.splits)
qed

lemma extends_same_tables: "conn_inv c \<Longrightarrow> same_tables c c' \<Longrightarrow> extends c c'"
  using same_tables_inv [of c c'] by (simp add: extends_def) (simp add: same_tables_def)

lemma extends_refl [simp]: "conn_inv c \<Longrightarrow> extends c c"
  by (simp add: extends_def)

lemma extends_inv: "extends c c' \<Longrightarrow> conn_inv c'"
  by (simp add: extends_def)

lemma extends_trans [trans]:
  assumes "extends a b" and "extends b c"
  shows "extends a c"
proof -
  have "[n_read_requests a..n_read_requests b - 1] @ [n_read_requests b..n_read_requests c - 1] =
      [n_read_requests a..n_read_requests c - 1]"
    using assms upto_split1 [of "n_read_requests a" "n_read_requests b" "n_read_requests c - 1"]
      upto_rec2 by (cases "n_read_requests b = n_read_requests c") (auto simp: extends_def)
  then show ?thesis
    using assms by (auto simp: extends_def intro: settles_trans)
qed

lemma same_but_world_tables: "same_but_world c c' \<Longrightarrow> same_tables c c'"
  by (auto simp: same_tables_def elim!: same_but_worldE)

lemma enqueued_extends:
  assumes "enqueued c w m h c'"
  shows "extends c c'"
proof -
  have "waiting c' = waiting c @ [n_read_requests c]" "\<forall>i. i \<noteq> n_read_requests c \<longrightarrow> read_requests c' i = read_requests c i"
    using assms unfolding enqueued_def by blast+
  moreover have "settles c c'"
  proof -
    have "c' = c\<lparr>world := w, n_read_requests := n_read_requests c + 1, read_requests := read_requests c', queues := queues c'\<rparr>"
      using assms unfolding enqueued_def by blast
    then show ?thesis by (metis settles_upd(1-4) settles_refl)
  qed
  ultimately show ?thesis
    using enqueued_frame(2,20) [OF assms] by (simp add: extends_def)
qed

text \<open>Whatever a push yields, it extends the tables.\<close>

lemma push_extends:
  assumes "conn_inv c" and "push_read_request m h c = Some c'"
  shows "extends c c'" and "n_search_requests c' = n_search_requests c"
proof -
  have "n_read_requests c < MAX_REQUESTS"
    using assms(2) by (auto simp: push_read_request_def Let_def split: if_splits)
  moreover have "c = c\<lparr>world := world c\<rparr>" by simp
  ultimately have "enqueued c (world c) m h c'"
    using push_after_call [OF assms(1), of m h "world c"] assms(2) by auto
  then show "extends c c'" and "n_search_requests c' = n_search_requests c"
    by (rule enqueued_extends, rule enqueued_frame(3))
qed

lemma submit_extends:
  assumes "conn_inv c" and "submit send h c = Some (rc, c')"
  shows "extends c c' \<and> n_search_requests c' = n_search_requests c"
proof -
  obtain code m c1 where call: "with_ldap send c = Some ((code, m), c1)"
    using assms(2) by (auto simp: submit_def elim!: bind_SomeE)
  have t: "same_tables c c1" by (rule same_but_world_tables [OF with_ldap_same [OF call]])
  then have inv: "conn_inv c1" and "extends c c1" and s: "n_search_requests c1 = n_search_requests c"
    using assms(1) same_tables_inv(3) [OF t] extends_same_tables [OF assms(1) t] by (auto simp: same_tables_def)
  then show ?thesis
    using assms(2) call push_extends [OF inv, of m h]
    by (auto simp: submit_def split: if_splits elim!: bind_SomeE intro: extends_trans)
qed

lemma search_extends:
  assumes "conn_inv c" and "search E c dn sc flt attrs only f ud = Some (rc, c')"
  shows "extends c c' \<and> n_search_requests c \<le> n_search_requests c'"
proof -
  obtain code m c1 where call: "with_ldap (\<lambda>ld. ldap_search_ext E ld dn sc flt attrs only) c = Some ((code, m), c1)"
    using assms(2) by (auto simp: search_def elim!: bind_SomeE)
  have t: "same_tables c c1" by (rule same_but_world_tables [OF with_ldap_same [OF call]])
  then have inv: "conn_inv c1" and e: "extends c c1" and s: "n_search_requests c1 = n_search_requests c"
    using assms(1) same_tables_inv(3) [OF t] extends_same_tables [OF assms(1) t] by (auto simp: same_tables_def)
  show ?thesis
  proof (cases "code = LDAP_SUCCESS")
    case False
    then show ?thesis using assms(2) call e s by (auto simp: search_def)
  next
    case True
    obtain c2 where push: "push_read_request m SEARCH_ON_READ c1 = Some c2"
      using assms(2) call True by (auto simp: search_def elim!: bind_SomeE)
    note e2 = push_extends [OF inv push]
    let ?c = "\<lambda>x. c2\<lparr>search_requests := x, n_search_requests := n_search_requests c2 + 1\<rparr>"
    have "extends c2 (?c x)" if "n_search_requests c2 + 1 < MAX_REQUESTS" for x
      using extends_inv [OF e2(1)] that
      by (auto simp: extends_def conn_inv_def waiting_def split: option.splits)
    then show ?thesis
      using assms(2) call True push e e2 s
      by (auto simp: search_def Let_def split: if_splits intro: extends_trans)
  qed
qed

section \<open>Application callbacks\<close>

text \<open>
  What a callback of the application can do to the connection: nothing, let time pass, send requests.
\<close>

inductive api_calls :: "('w, 'h) ext \<Rightarrow> ('w, 'h) conn \<Rightarrow> ('w, 'h) conn \<Rightarrow> bool" for E where
  stay: "api_calls E c c"
| other: "api_calls E c c' \<Longrightarrow> same_but_world c' c'' \<Longrightarrow> api_calls E c c''"
| request: "api_calls E c c' \<Longrightarrow> submit send h c' = Some (rc, c'') \<Longrightarrow> api_calls E c c''"
| searching: "api_calls E c c' \<Longrightarrow> search E c' dn sc flt attrs only f ud = Some (rc, c'') \<Longrightarrow> api_calls E c c''"

definition callbacks_ok :: "('w, 'h) ext \<Rightarrow> bool" where
  "callbacks_ok E \<longleftrightarrow>
     (\<forall>f rc m c c'. app_error_callback E f rc m c = Some c' \<longrightarrow> api_calls E c c') \<and>
     (\<forall>f es ud c r c'. app_search_callback E f es ud c = Some (r, c') \<longrightarrow> api_calls E c c')"

lemma demo_callbacks_ok [simp]: "callbacks_ok demo_ext"
  by (simp add: callbacks_ok_def api_calls.stay)

lemma api_calls_extends:
  assumes "api_calls E c c'" and "conn_inv c"
  shows "extends c c' \<and> n_search_requests c \<le> n_search_requests c'"
  using assms
proof (induction rule: api_calls.induct)
  case (stay c)
  then show ?case by simp
next
  case (other c c' c'')
  then have "extends c' c''" and "n_search_requests c'' = n_search_requests c'"
    using same_but_world_tables [OF other.hyps(2)] extends_same_tables extends_inv by (auto simp: same_tables_def)
  then show ?case using other by (auto intro: extends_trans)
next
  case (request c c' send h rc c'')
  then show ?case using submit_extends extends_inv extends_trans by metis
next
  case (searching c c' dn sc flt attrs only f ud rc c'')
  then show ?case using search_extends extends_inv extends_trans order_trans by metis
qed

text \<open>The step every handler is composed of.\<close>

definition grows :: "('w, 'h) conn \<Rightarrow> ('w, 'h) conn \<Rightarrow> bool" where
  "grows c c' \<longleftrightarrow> extends c c' \<and> n_search_requests c \<le> n_search_requests c'"

lemma grows_same_tables: "conn_inv c \<Longrightarrow> same_tables c c' \<Longrightarrow> grows c c'"
  by (simp add: grows_def extends_same_tables) (simp add: same_tables_def)

lemma grows_same_but_world: "conn_inv c \<Longrightarrow> same_but_world c c' \<Longrightarrow> grows c c'"
  by (simp add: grows_same_tables same_but_world_tables)

lemma grows_refl [simp]: "conn_inv c \<Longrightarrow> grows c c"
  by (simp add: grows_def)

lemma grows_trans [trans]: "grows a b \<Longrightarrow> grows b c \<Longrightarrow> grows a c"
  by (auto simp: grows_def intro: extends_trans)

lemma grows_inv: "grows c c' \<Longrightarrow> conn_inv c'"
  by (simp add: grows_def extends_def)

lemma api_calls_grows: "conn_inv c \<Longrightarrow> api_calls E c c' \<Longrightarrow> grows c c'"
  by (simp add: grows_def api_calls_extends)

lemma call_error_operation_grows:
  assumes "callbacks_ok E" and "conn_inv c" and "call_error_operation E rc m c = Some c'"
  shows "grows c c'"
proof (cases "on_error_operation c")
  case None
  then show ?thesis using assms(2,3) by (simp add: call_error_operation_def)
next
  case (Some f)
  then have "api_calls E c c'"
    using assms(1,3) by (simp add: call_error_operation_def callbacks_ok_def)
  then show ?thesis by (rule api_calls_grows [OF assms(2)])
qed

lemma answer_failed_grows:
  assumes "callbacks_ok E" and "conn_inv c" and "answer_failed E rc m c = Some (r, c')"
  shows "grows c c'"
proof -
  obtain c1 where d: "get_diagnostics E c = Some c1" and e: "call_error_operation E rc m c1 = Some c'"
    using assms(3) by (auto simp: answer_failed_def elim!: bind_SomeE)
  have "grows c c1" by (rule grows_same_but_world [OF assms(2) get_diagnostics_same [OF d]])
  with call_error_operation_grows [OF assms(1) _ e] show ?thesis
    using grows_inv grows_trans by blast
qed

lemma update_on_read_grows:
  assumes "callbacks_ok E" and "conn_inv c" and "update_on_read tag good E rc m c = Some (r, c')"
  shows "grows c c'"
proof (cases "rc = tag")
  case False
  then show ?thesis
    using assms answer_failed_grows by (auto simp: update_on_read_def)
next
  case True
  obtain code c1 where call: "with_ldap (\<lambda>ld. ldap_parse_result E ld m) c = Some (code, c1)"
    using assms(3) True by (auto simp: update_on_read_def elim!: bind_SomeE)
  have g: "grows c c1" by (rule grows_same_but_world [OF assms(2) with_ldap_same [OF call]])
  then show ?thesis
    using assms(1,3) True call call_error_operation_grows [OF assms(1) grows_inv [OF g]]
    by (auto simp: update_on_read_def Let_def split: if_splits elim!: bind_SomeE intro: grows_trans)
qed

section \<open>The callbacks of searches\<close>

lemma alloc_tables: "alloc E c = (ok, c') \<Longrightarrow> same_tables c c'"
  and allocs_tables: "allocs E n c = (ok, c') \<Longrightarrow> same_tables c c'"
  and free_block_tables: "free_block E c = (ok, c') \<Longrightarrow> same_tables c c'"
  by (blast dest: alloc_same allocs_same free_block_same same_but_world_tables)+

lemma copy_values_tables: "copy_values E n c = (ok, c') \<Longrightarrow> same_tables c c'"
  unfolding copy_values_def Let_def
  by (auto split: prod.splits if_splits
      dest!: alloc_tables allocs_tables intro: same_tables_trans)

lemma fill_attribute_tables: "fill_attribute E k v c = Some (a, c') \<Longrightarrow> same_tables c c'"
  by (auto simp: fill_attribute_def Let_def split: gvalue.splits option.splits prod.splits
      dest: copy_values_tables)

lemma fill_all_tables: "fill_all E kvs c = Some (as, c') \<Longrightarrow> same_tables c c'"
proof (induction kvs arbitrary: c as)
  case Nil
  then show ?case by simp
next
  case (Cons kv kvs)
  obtain k v where kv: "kv = (k, v)" by fastforce
  obtain ok c1 where a: "alloc E c = (ok, c1)" by fastforce
  show ?case
  proof (cases ok)
    case False
    then show ?thesis using Cons.prems kv a alloc_tables [OF a] by simp
  next
    case True
    then obtain b c2 bs where "fill_attribute E k v c1 = Some (b, c2)" and "fill_all E kvs c2 = Some (bs, c')"
      using Cons.prems kv a by (auto elim!: bind_SomeE)
    then show ?thesis
      using alloc_tables [OF a] Cons.IH fill_attribute_tables same_tables_trans by metis
  qed
qed

lemma get_attributes_tables:
  assumes "ld_entry_get_attributes E e c = Some (as, c')"
  shows "same_tables c c'"
proof (cases "Option.bind e entry_attributes")
  case None
  then show ?thesis
    using assms by (cases e) (auto simp: ld_entry_get_attributes_def split: option.splits)
next
  case (Some t)
  then obtain e' where e: "e = Some e'" "entry_attributes e' = Some t" by (cases e) auto
  obtain ok c1 where a: "alloc E c = (ok, c1)" by fastforce
  show ?thesis
  proof (cases ok)
    case False
    then show ?thesis
      using assms e a alloc_tables [OF a] by (simp add: ld_entry_get_attributes_def)
  next
    case True
    then obtain bs c2 where f: "fill_all E (g_hash_table_entries E t) c1 = Some (bs, c2)"
      and c': "c' = (if bs = None then snd (free_block E c2) else c2)"
      using assms e a by (auto simp: ld_entry_get_attributes_def elim!: bind_SomeE)
    have "same_tables c2 c'"
      using c' free_block_tables [of E c2] by (cases "free_block E c2") simp
    then show ?thesis
      using alloc_tables [OF a] fill_all_tables [OF f] same_tables_trans by metis
  qed
qed

lemma print_search_callback_tables:
  "print_search_callback E es c = Some (r, c') \<Longrightarrow> same_tables c c'"
proof (induction es arbitrary: c)
  case Nil
  then show ?case by simp
next
  case (Cons e es)
  obtain dn c1 where d: "ld_entry_get_dn E (Some e) c = (dn, c1)" by fastforce
  have 1: "same_tables c c1"
    using d by (auto simp: ld_entry_get_dn_def Let_def split: option.splits prod.splits dest: alloc_tables)
  obtain as c2 where g: "ld_entry_get_attributes E (Some e) c1 = Some (as, c2)"
    and rest: "print_search_callback E es (snd (free_block E c2)) = Some (r, c')"
    using Cons.prems d by (auto split: if_splits elim!: bind_SomeE)
  have "same_tables c2 (snd (free_block E c2))"
    by (rule free_block_tables [of E _ "fst (free_block E c2)"]) simp
  then show ?case
    using 1 get_attributes_tables [OF g] Cons.IH [OF rest] same_tables_trans by blast
qed

text \<open>Reading entries into the schema leaves the tables alone when the callback for a value does.\<close>

definition tables_op :: "('w, 'h) op_fn \<Rightarrow> bool" where
  "tables_op f \<longleftrightarrow> (\<forall>v c r c'. f v c = Some (r, c') \<longrightarrow> same_tables c c')"

lemma read_values_tables: "tables_op f \<Longrightarrow> read_values f vs c = Some (r, c') \<Longrightarrow> same_tables c c'"
proof (induction vs arbitrary: c)
  case Nil
  then show ?case by simp
next
  case (Cons v vs)
  obtain rc c1 where f: "f v c = Some (rc, c1)"
    and rest: "(if rc = RETURN_CODE_FAILURE then Some (RETURN_CODE_FAILURE, c1) else read_values f vs c1) = Some (r, c')"
    using Cons.prems(2) by (auto elim!: bind_SomeE)
  have 1: "same_tables c c1" using Cons.prems(1) f by (simp add: tables_op_def)
  show ?case
  proof (cases "rc = RETURN_CODE_FAILURE")
    case True
    then show ?thesis using rest 1 by simp
  next
    case False
    then show ?thesis using rest Cons.IH [OF Cons.prems(1)] same_tables_trans [OF 1] by simp
  qed
qed

lemma read_attribute_loop_tables:
  assumes "tables_op f" and "read_attribute_loop f as i c = Some (r, c')"
  shows "same_tables c c'"
proof -
  have "tables_op f \<longrightarrow> same_tables c (snd (r, c'))"
  proof (rule read_attribute_loop.raw_induct [OF _ assms(2),
        where P = "\<lambda>f as i c y. tables_op f \<longrightarrow> same_tables c (snd y)"])
    fix loop :: "('a, 'b) op_fn \<Rightarrow> ld_attribute list \<Rightarrow> nat \<Rightarrow> ('a, 'b) conn \<Rightarrow> (OperationReturnCode \<times> ('a, 'b) conn) option"
      and f as i and c :: "('a, 'b) conn" and y
    assume IH: "\<And>f as i c y. loop f as i c = Some y \<Longrightarrow> tables_op f \<longrightarrow> same_tables c (snd y)"
      and y: "(if i < length as then
          (case attr_values (as ! i) of
             None \<Rightarrow> loop f as i c
           | Some vs \<Rightarrow> do { (rc, c1) \<leftarrow> read_values f vs c;
               if rc = RETURN_CODE_FAILURE then Some (RETURN_CODE_FAILURE, c1) else loop f as (i + 1) c1 })
        else Some (RETURN_CODE_SUCCESS, c)) = Some y"
    show "tables_op f \<longrightarrow> same_tables c (snd y)"
    proof
      assume f: "tables_op f"
      consider (stop) "\<not> i < length as" | (none) "i < length as" "attr_values (as ! i) = None"
        | (some) vs where "i < length as" "attr_values (as ! i) = Some vs" by fastforce
      then show "same_tables c (snd y)"
      proof cases
        case stop
        then show ?thesis using y by auto
      next
        case none
        then show ?thesis using y IH f by simp
      next
        case (some vs)
        then obtain rc c1 where v: "read_values f vs c = Some (rc, c1)"
          and rest: "(if rc = RETURN_CODE_FAILURE then Some (RETURN_CODE_FAILURE, c1) else loop f as (i + 1) c1) = Some y"
          using y by (auto elim!: bind_SomeE)
        note 1 = read_values_tables [OF f v]
        show ?thesis
          using rest 1 IH f same_tables_trans [OF 1] by (cases "rc = RETURN_CODE_FAILURE") auto
      qed
    qed
  qed
  then show ?thesis using assms(1) by simp
qed

lemma read_entry_tables:
  assumes "tables_op f" and "ldap_schema_read_entry E f e c = Some (rc, c')"
  shows "same_tables c c'"
proof -
  obtain as c1 where g: "ld_entry_get_attributes E (Some e) c = Some (as, c1)"
    and rest: "(case as of None \<Rightarrow> Some (RETURN_CODE_SUCCESS, c1) | Some as \<Rightarrow> read_attribute_loop f as 0 c1) = Some (rc, c')"
    using assms(2) by (auto simp: ldap_schema_read_entry_def elim!: bind_SomeE)
  show ?thesis
    using rest get_attributes_tables [OF g] read_attribute_loop_tables [OF assms(1)]
      same_tables_trans [OF get_attributes_tables [OF g]] by (cases as) auto
qed

lemma callback_common_tables:
  "tables_op f \<Longrightarrow> ldap_schema_callback_common E f es c = Some (r, c') \<Longrightarrow> same_tables c c'"
proof (induction es arbitrary: c)
  case Nil
  then show ?case by simp
next
  case (Cons e es)
  obtain rc c1 where read: "ldap_schema_read_entry E f e c = Some (rc, c1)"
    using Cons.prems(2) by (auto elim!: bind_SomeE)
  note 1 = read_entry_tables [OF Cons.prems(1) read]
  show ?case
    using Cons.prems(2) read 1 Cons.IH [OF Cons.prems(1)] same_tables_trans [OF 1]
    by (cases "rc = RETURN_CODE_FAILURE") auto
qed

lemma set_schema_tables: "same_tables c (set_schema p s c)"
  by (simp add: same_tables_def set_schema_def)

lemma store_tables:
  "store_type E p ty c = Some (r, c') \<Longrightarrow> same_tables c c'"
  "store_class E p cls c = Some (r, c') \<Longrightarrow> same_tables c c'"
  by (auto simp: store_type_def store_class_def set_schema_tables elim!: bind_SomeE)

lemma schema_callbacks_tables:
  "tables_op (attribute_type_callback E p)" "tables_op (object_class_callback E p)"
  "tables_op (ad_attribute_type_callback E p)" "tables_op (ad_object_class_callback E p)"
  "tables_op (subschema_subentry_callback E p)"
proof -
  have type: "same_tables c c'" if "attribute_type_callback E p v c = Some (r, c')" for v r and c c' :: "('a, 'b) conn"
  proof -
    obtain ty code where s: "ldap_str2attributetype E v = (ty, code)" by fastforce
    have "same_tables c c'" if "store_type E p a (c\<lparr>world := w\<rparr>) = Some (r, c')" for a w
      using store_tables(1) [OF that] by (simp add: same_tables_def)
    then show ?thesis
      using that s by (cases ty; cases "code = 0")
        (auto simp: attribute_type_callback_def alloc_def split: prod.splits if_splits elim!: bind_SomeE)
  qed
  have cls: "same_tables c c'" if "object_class_callback E p v c = Some (r, c')" for v r and c c' :: "('a, 'b) conn"
  proof -
    obtain ty code where s: "ldap_str2objectclass E v = (ty, code)" by fastforce
    have "same_tables c c'" if "store_class E p a (c\<lparr>world := w\<rparr>) = Some (r, c')" for a w
      using store_tables(2) [OF that] by (simp add: same_tables_def)
    then show ?thesis
      using that s by (cases ty; cases "code = 0")
        (auto simp: object_class_callback_def alloc_def split: prod.splits if_splits elim!: bind_SomeE)
  qed
  show "tables_op (attribute_type_callback E p)" "tables_op (object_class_callback E p)"
    unfolding tables_op_def using type cls by blast+
  have ad_type: "same_tables c c'" if run: "ad_attribute_type_callback E p v c = Some (r, c')" for v r and c c' :: "('a, 'b) conn"
  proof -
    obtain ty c1 where "parse_attribute_type E (Some p) (Some v) c = Some (ty, c1)"
      and rest: "(case ty of None \<Rightarrow> Some (RETURN_CODE_FAILURE, c1) | Some ty \<Rightarrow> store_type E p ty c1) = Some (r, c')"
      using run by (auto simp: ad_attribute_type_callback_def elim!: bind_SomeE)
    then obtain w where "c1 = c\<lparr>world := w\<rparr>" by (auto dest: parse_attribute_type_same)
    with rest show ?thesis
      by (cases ty) (auto simp: same_tables_def dest: store_tables(1))
  qed
  have ad_cls: "same_tables c c'" if run: "ad_object_class_callback E p v c = Some (r, c')" for v r and c c' :: "('a, 'b) conn"
  proof -
    obtain cls c1 where "parse_object_class E (Some p) (Some v) c = Some (cls, c1)"
      and rest: "(case cls of None \<Rightarrow> Some (RETURN_CODE_FAILURE, c1) | Some cls \<Rightarrow> store_class E p cls c1) = Some (r, c')"
      using run by (auto simp: ad_object_class_callback_def elim!: bind_SomeE)
    then obtain w where "c1 = c\<lparr>world := w\<rparr>" by (auto dest: parse_object_class_same)
    with rest show ?thesis
      by (cases cls) (auto simp: same_tables_def dest: store_tables(2))
  qed
  show "tables_op (ad_attribute_type_callback E p)" "tables_op (ad_object_class_callback E p)"
    unfolding tables_op_def using ad_type ad_cls by blast+
  show "tables_op (subschema_subentry_callback E p)"
    unfolding tables_op_def subschema_subentry_callback_def Let_def
    by (auto split: prod.splits dest!: alloc_tables) (simp_all add: same_tables_def)
qed

lemma call_search_callback_grows:
  assumes "callbacks_ok E" and "conn_inv c" and "call_search_callback E f es ud c = Some (r, c')"
  shows "grows c c'"
proof -
  have schema: "grows c c'" if "ldap_schema_callback_common E g es c = Some (r, c')" and "tables_op g" for g
    using callback_common_tables [OF that(2,1)] by (rule grows_same_tables [OF assms(2)])
  have user: "grows c c'" if "app_search_callback E n es ud c = Some (r, c')" for n
    using that assms(1) api_calls_grows [OF assms(2)] unfolding callbacks_ok_def by blast
  have print: "grows c c'" if "print_search_callback E es c = Some (r, c')"
    using print_search_callback_tables [OF that] by (rule grows_same_tables [OF assms(2)])
  show ?thesis
    using assms(3) by (cases f; cases ud) (auto simp: search_callback_defs intro: schema user print schema_callbacks_tables)
qed

section \<open>Handlers of answers\<close>

lemma allocs_grows: "conn_inv c \<Longrightarrow> allocs E n c = (ok, c') \<Longrightarrow> grows c c'"
  by (rule grows_same_tables [OF _ allocs_tables])

lemma frees_tables: "same_tables c (frees E n c)"
proof (induction n arbitrary: c)
  case 0
  then show ?case by simp
next
  case (Suc n)
  obtain ok c1 where f: "free_block E c = (ok, c1)" by fastforce
  then show ?case using free_block_tables [OF f] same_tables_trans [OF _ Suc.IH] by simp
qed

lemma read_attributes_tables: "read_attributes E as e c = (r, c') \<Longrightarrow> same_tables c c'"
proof (induction as arbitrary: e c)
  case Nil
  then show ?case by simp
next
  case (Cons a as)
  obtain name vs where a: "a = (name, vs)" by fastforce
  obtain ok c1 where al: "allocs E (3 + length vs) c = (ok, c1)" by fastforce
  note 1 = allocs_tables [OF al]
  show ?case
    using Cons.prems a al 1 same_tables_trans [OF 1 Cons.IH]
    by (cases ok) (auto simp: Let_def split: prod.splits)
qed

lemma ld_entry_new_tables: "ld_entry_new E mem dn c = (r, c') \<Longrightarrow> same_tables c c'"
  unfolding ld_entry_new_def Let_def alloc_def
  by (auto split: prod.splits option.splits if_splits)

lemma read_messages_tables: "read_messages E ms es len c = (r, c') \<Longrightarrow> same_tables c c'"
proof (induction ms arbitrary: es len c)
  case Nil
  then show ?case by simp
next
  case (Cons m ms)
  obtain ok c1 where a: "(if length es + 2 \<ge> len then alloc E c else (True, c)) = (ok, c1)" by fastforce
  have 1: "same_tables c c1" using a by (auto split: if_splits dest: alloc_tables)
  obtain e c2 where n: "ld_entry_new E True (message_dn m) c1 = (e, c2)" by fastforce
  have 2: "same_tables c c2" by (rule same_tables_trans [OF 1 ld_entry_new_tables [OF n]])
  show ?case
  proof (cases "ok \<and> e \<noteq> None")
    case False
    then show ?thesis
      using Cons.prems a n 1 2 same_tables_trans [OF 2 frees_tables]
      by (cases ok; cases e) (auto simp: Let_def simp del: frees.simps)
  next
    case True
    then obtain e' where e': "e = Some e'" by blast
    obtain b c3 where r: "read_attributes E (message_attributes m) e' c2 = (b, c3)" by fastforce
    have 3: "same_tables c c3" by (rule same_tables_trans [OF 2 read_attributes_tables [OF r]])
    show ?thesis
      using Cons.prems a n True e' r 3 same_tables_trans [OF 3 Cons.IH]
      by (cases b) (auto simp: Let_def)
  qed
qed

lemma remove_search_request_grows:
  assumes "conn_inv c" and "0 < n_search_requests c" and "connection_remove_search_request c i = Some c'"
  shows "extends c c'" and "n_search_requests c' = n_search_requests c - 1"
proof -
  obtain rs where c': "c' = c\<lparr>n_search_requests := n_search_requests c - 1, search_requests := rs\<rparr>"
    using assms(3) by (auto simp: connection_remove_search_request_def Let_def split: if_splits)
  then show "n_search_requests c' = n_search_requests c - 1" by simp
  have "waiting c' = waiting c" by (simp add: c' waiting_def split: option.splits)
  then show "extends c c'"
    using assms(1,2) by (auto simp: extends_def conn_inv_def c' waiting_def split: option.splits)
qed

lemma search_on_read_extends:
  assumes "callbacks_ok E" and "conn_inv c"
    and "search_on_read (call_search_callback E) E rc m c = Some (r, c')"
  shows "extends c c'"
proof (cases "rc = LDAP_RES_SEARCH_ENTRY \<or> rc = LDAP_RES_SEARCH_RESULT")
  case False
  then show ?thesis
    using assms answer_failed_grows [OF assms(1,2)]
    by (auto simp: search_on_read_def grows_def split: if_splits)
next
  case True
  let ?f = "find (\<lambda>i. search_msgid (search_requests c i) = message_id (hd m)) [0..n_search_requests c - 1]"
  show ?thesis
  proof (cases ?f)
    case None
    then show ?thesis
      using assms(3) True call_error_operation_grows [OF assms(1,2)]
      by (auto simp: search_on_read_def grows_def split: if_splits elim!: bind_SomeE)
  next
    case (Some i)
    then have "i \<in> set [0..n_search_requests c - 1]" by (auto simp: find_Some_iff set_conv_nth)
    then have pos: "0 < n_search_requests c" by auto
    show ?thesis
    proof (cases "on_search_operation (search_requests c i)")
      case None
      then show ?thesis
        using assms(2,3) True Some by (auto simp: search_on_read_def split: if_splits)
    next
      case call: (Some f)
      obtain ok c1 where a: "alloc E c = (ok, c1)" by fastforce
      obtain es c2 where r: "read_messages E m [] 256 c1 = (es, c2)" by fastforce
      have 1: "same_tables c c1" by (rule alloc_tables [OF a])
      then have 2: "same_tables c c2" using read_messages_tables [OF r] same_tables_trans by blast
      show ?thesis
      proof (cases "ok \<and> es \<noteq> None")
        case False
        then show ?thesis
          using assms(2,3) True Some call a r 1 2 extends_same_tables [OF assms(2)]
          by (cases ok; cases es) (auto simp: search_on_read_def split: if_splits)
      next
        case go: True
        then obtain c3 where
            cb: "call_search_callback E f (the es) (search_user_data (search_requests c2 i)) c2 = Some (r, c3)"
          and rem: "connection_remove_search_request c3 i = Some c'"
          using assms(3) True Some call a r
          by (auto simp: search_on_read_def split: if_splits elim!: bind_SomeE)
        have inv2: "conn_inv c2" using 2 assms(2) same_tables_inv(3) by blast
        note g = call_search_callback_grows [OF assms(1) inv2 cb]
        have "0 < n_search_requests c3" using g 2 pos by (simp add: grows_def same_tables_def)
        note x = remove_search_request_grows(1) [OF grows_inv [OF g] this rem]
        have "extends c c2" by (rule extends_same_tables [OF assms(2) 2])
        then show ?thesis using g x extends_trans unfolding grows_def by metis
      qed
    qed
  qed
qed

lemma whoami_on_read_grows:
  assumes "callbacks_ok E" and "conn_inv c" and "whoami_on_read E rc m c = Some (r, c')"
  shows "grows c c'"
proof (rule grows_same_but_world [OF assms(2)])
  show "same_but_world c c'"
    using assms(3)
    by (auto simp: whoami_on_read_def split: if_splits elim!: bind_SomeE dest: with_ldap_same get_diagnostics_same)
qed

lemma directory_parse_result_grows:
  assumes "callbacks_ok E" and "conn_inv c" and "directory_parse_result E rc m c = Some (r, c')"
  shows "grows c c'"
proof -
  have 1: "same_tables c (process_messages m c)"
    using detected_typed [of m]
    by (auto simp: process_messages_eq same_tables_def split: option.splits intro: settles_typed)
  moreover have "same_tables d (d\<lparr>directory_type := LDAP_TYPE_UNKNOWN\<rparr>)" for d :: "('a, 'b) conn"
    by (simp add: same_tables_def settles_typed)
  ultimately have "same_tables c ((process_messages m c)\<lparr>directory_type := LDAP_TYPE_UNKNOWN\<rparr>)"
    using same_tables_trans by blast
  with 1 show ?thesis
    using assms answer_failed_grows [OF assms(1,2)] grows_same_tables [OF assms(2)]
    by (auto simp: directory_parse_result_def Let_def split: if_splits)
qed

end
