(* ===== verification/Connection.thy ===== *)
theory Connection
  imports Request_Tables
begin

text \<open>
  The life of a connection, \<open>src/src/connection.c\<close>: configuring it, installing its event handlers,
  starting TLS and binding, and closing it; the event loop has its own theory.
\<close>

section \<open>The state machine object\<close>

text \<open>\<open>csm_init\<close>, \<open>csm_set_state\<close>, \<open>csm_is_in_state\<close> of \<open>connection_state_machine.c\<close>, through a pointer.\<close>

definition csm_set_state ::
  "nat option \<Rightarrow> LdapConnectionState \<Rightarrow> ('w, 'h) conn \<Rightarrow> ('w, 'h) conn option" where
  "csm_set_state ctx st c =
     do { m \<leftarrow> ctx; _ \<leftarrow> machines c m; Some (c\<lparr>machines := (machines c)(m \<mapsto> st)\<rparr>) }"

definition csm_is_in_state :: "nat option \<Rightarrow> LdapConnectionState \<Rightarrow> ('w, 'h) conn \<Rightarrow> bool option" where
  "csm_is_in_state ctx st c = do { m \<leftarrow> ctx; s \<leftarrow> machines c m; Some (s = st) }"

definition csm_init :: "nat \<Rightarrow> ('w, 'h) conn \<Rightarrow> ('w, 'h) conn" where
  "csm_init m c = c\<lparr>machines := (machines c)(m \<mapsto> LDAP_CONNECTION_STATE_INIT)\<rparr>"

section \<open>Configuration\<close>

text \<open>
  A step of \<open>connection_configure\<close> either goes on or jumps to \<open>error_exit\<close>, the value \<open>False\<close>.
\<close>

type_synonym ('w, 'h) step = "('w, 'h) conn \<Rightarrow> (bool \<times> ('w, 'h) conn) option"

fun run_steps :: "('w, 'h) step list \<Rightarrow> ('w, 'h) step" where
  "run_steps [] c = Some (True, c)"
| "run_steps (f # fs) c = do { (ok, c1) \<leftarrow> f c; if ok then run_steps fs c1 else Some (False, c1) }"

text \<open>The names under which options are reported.\<close>

definition option_strings :: "(ldap_option \<times> string) list" where
  "option_strings =
     [(LDAP_OPT_PROTOCOL_VERSION, ''LDAP_OPT_PROTOCOL_VERSION''),
      (LDAP_OPT_SERVER_CONTROLS, ''LDAP_OPT_SERVER_CONTROLS''),
      (LDAP_OPT_REFERRALS, ''LDAP_OPT_REFERRALS''),
      (LDAP_OPT_CONNECT_ASYNC, ''LDAP_OPT_CONNECT_ASYNC''),
      (LDAP_OPT_X_SASL_NOCANON, ''LDAP_OPT_X_SASL_NOCANON''),
      (LDAP_OPT_X_SASL_SECPROPS, ''LDAP_OPT_X_SASL_SECPROPS''),
      (LDAP_OPT_X_SASL_REALM, ''LDAP_OPT_X_SASL_REALM''),
      (LDAP_OPT_X_SASL_AUTHCID, ''LDAP_OPT_X_SASL_AUTHCID''),
      (LDAP_OPT_X_SASL_AUTHZID, ''LDAP_OPT_X_SASL_AUTHZID''),
      (LDAP_OPT_X_TLS, ''LDAP_OPT_X_TLS''),
      (LDAP_OPT_X_TLS_CACERTFILE, ''LDAP_OPT_X_TLS_CACERTFILE''),
      (LDAP_OPT_X_TLS_CACERTDIR, ''LDAP_OPT_X_TLS_CACERTDIR''),
      (LDAP_OPT_X_TLS_CERTFILE, ''LDAP_OPT_X_TLS_CERTFILE''),
      (LDAP_OPT_X_TLS_KEYFILE, ''LDAP_OPT_X_TLS_KEYFILE''),
      (LDAP_OPT_X_TLS_REQUIRE_CERT, ''LDAP_OPT_X_TLS_REQUIRE_CERT''),
      (LDAP_OPT_X_TLS_PROTOCOL_MIN, ''LDAP_OPT_X_TLS_PROTOCOL_MIN''),
      (LDAP_OPT_X_TLS_NEWCTX, ''LDAP_OPT_X_TLS_NEWCTX''),
      (LDAP_OPT_RESULT_CODE, ''LDAP_OPT_RESULT_CODE''),
      (LDAP_OPT_DIAGNOSTIC_MESSAGE, ''LDAP_OPT_DIAGNOSTIC_MESSAGE'')]"

definition ldap_option2string :: "ldap_option \<Rightarrow> string" where
  "ldap_option2string opt =
     (case find (\<lambda>(known, _). known = opt) option_strings of
        Some (_, name) \<Rightarrow> name | None \<Rightarrow> ''LDAP_OPT_NOT_FOUND'')"

text \<open>
  The table has no duplicates, but lacks three options that the connection sets or reads (and the level of
  debugging): a failure to set the timeouts or to get the descriptor is reported without the option's name.
\<close>

lemma option_strings_distinct: "distinct (map fst option_strings)" "distinct (map snd option_strings)"
  by code_simp+

lemma options_without_name:
  "map_of option_strings opt = None \<longleftrightarrow>
     opt \<in> {LDAP_OPT_TIMELIMIT, LDAP_OPT_NETWORK_TIMEOUT, LDAP_OPT_DESC, LDAP_OPT_DEBUG_LEVEL}"
  by (cases opt) (simp_all add: option_strings_def)

definition set_option :: "('w, 'h) ext \<Rightarrow> ldap_option \<Rightarrow> option_value \<Rightarrow> ('w, 'h) step" where
  "set_option E opt v c =
     do { (rc, c1) \<leftarrow> with_ldap (\<lambda>ld. ldap_set_option E (Some ld) opt v) c; Some (rc = LDAP_OPT_SUCCESS, c1) }"

definition connection_microseconds_to_timeval ::
  "('w, 'h) ext \<Rightarrow> int \<Rightarrow> ('w, 'h) conn \<Rightarrow> (int \<times> int) option \<times> ('w, 'h) conn" where
  "connection_microseconds_to_timeval E microseconds c =
     (let (ok, c1) = alloc E c
      in (if \<not> ok then None else if microseconds < 0 then Some (-1, 0) else Some (0, microseconds), c1))"

definition set_timeout :: "('w, 'h) ext \<Rightarrow> ldap_option \<Rightarrow> int \<Rightarrow> ('w, 'h) step" where
  "set_timeout E opt microseconds c =
     (case connection_microseconds_to_timeval E microseconds c of
        (None, c1) \<Rightarrow> Some (False, c1)
      | (Some (sec, usec), c1) \<Rightarrow> set_option E opt (TimeValue sec usec) c1)"

definition when_given :: "'a option \<Rightarrow> ('a \<Rightarrow> ('w, 'h) step) \<Rightarrow> ('w, 'h) step" where
  "when_given x f c = (case x of None \<Rightarrow> Some (True, c) | Some y \<Rightarrow> f y c)"

text \<open>Reading a string option into a field of \<open>ldap_defaults\<close>.\<close>

definition get_default ::
  "('w, 'h) ext \<Rightarrow> ldap_option \<Rightarrow> (string option \<Rightarrow> ldap_sasl_defaults \<Rightarrow> ldap_sasl_defaults) \<Rightarrow> ('w, 'h) step"
where
  "get_default E opt upd c =
     do { ((rc, v), c1) \<leftarrow> with_ldap (\<lambda>ld. ldap_get_string_option E ld opt) c;
          d \<leftarrow> deref (ldap_defaults c1);
          Some (if rc = LDAP_OPT_SUCCESS then (True, c1\<lparr>ldap_defaults := Valid (upd v d)\<rparr>) else (False, c1)) }"

definition initialize_step :: "('w, 'h) ext \<Rightarrow> ldap_connection_config \<Rightarrow> ('w, 'h) step" where
  "initialize_step E cfg c =
     (let ((rc, p), w) = ldap_initialize E (server cfg) (world c);
          c1 = c\<lparr>world := w, ldap := (case p of None \<Rightarrow> Null | Some ld \<Rightarrow> Valid ld)\<rparr>
      in Some (if rc \<noteq> LDAP_SUCCESS then (False, c1)
               else (True, c1\<lparr>config := Some cfg, handlers_installed := False, rmech := None\<rparr>)))"

definition machine_step :: "('w, 'h) ext \<Rightarrow> ('w, 'h) step" where
  "machine_step E c =
     (let (ok, c1) = alloc E c; m = machine_count c1
      in Some (if \<not> ok then (False, c1\<lparr>state_machine := None\<rparr>)
               else (True, csm_init m (c1\<lparr>state_machine := Some m, machine_count := m + 1\<rparr>))))"

definition option_steps :: "('w, 'h) ext \<Rightarrow> ldap_connection_config \<Rightarrow> ('w, 'h) step" where
  "option_steps E cfg = run_steps
     [(\<lambda>c. if search_timelimit cfg > 0 then set_timeout E LDAP_OPT_TIMELIMIT (search_timelimit cfg) c
           else Some (True, c)),
      set_timeout E LDAP_OPT_NETWORK_TIMEOUT (network_timeout cfg),
      set_option E LDAP_OPT_PROTOCOL_VERSION (IntValue (protocol_verion cfg)),
      set_option E LDAP_OPT_REFERRALS (BoolValue (chase_referrals cfg)),
      set_option E LDAP_OPT_CONNECT_ASYNC (BoolValue True)]"

definition defaults_step :: "('w, 'h) ext \<Rightarrow> ('w, 'h) step" where
  "defaults_step E c =
     (let (ok, c1) = alloc E c
      in Some (if \<not> ok then (False, c1\<lparr>ldap_defaults := Null\<rparr>)
               else (True, c1\<lparr>ldap_defaults := Valid \<lparr>sd_flags = 0, sd_mechanism = None, realm = None,
                                authcid = None, authzid = None, sd_passwd = None\<rparr>\<rparr>)))"

definition sasl_steps :: "('w, 'h) ext \<Rightarrow> ldap_connection_config \<Rightarrow> ('w, 'h) step" where
  "sasl_steps E cfg c =
     (if \<not> cfg_use_sasl cfg then Some (True, c)
      else do {
        so \<leftarrow> sasl_options cfg;
        run_steps
          [set_option E LDAP_OPT_X_SASL_NOCANON (BoolValue (sasl_nocanon so)),
           set_option E LDAP_OPT_X_SASL_SECPROPS (StringValue (Some (sasl_secprops so))),
           get_default E LDAP_OPT_X_SASL_REALM (\<lambda>v d. d\<lparr>realm := v\<rparr>),
           get_default E LDAP_OPT_X_SASL_AUTHCID (\<lambda>v d. d\<lparr>authcid := v\<rparr>),
           get_default E LDAP_OPT_X_SASL_AUTHZID (\<lambda>v d. d\<lparr>authzid := v\<rparr>),
           (\<lambda>c. do { d \<leftarrow> deref (ldap_defaults c);
                    Some (True, c\<lparr>ldap_defaults := Valid (d\<lparr>sd_flags := sasl_flags so\<rparr>)\<rparr>) }),
           (\<lambda>c. do { d \<leftarrow> deref (ldap_defaults c);
                    (case so_mechanism so of
                       None \<Rightarrow> Some (True, c)
                     | Some m \<Rightarrow> let (ok, c1) = alloc E c in
                         Some (ok, c1\<lparr>ldap_defaults := Valid (d\<lparr>sd_mechanism := (if ok then Some m else None)\<rparr>)\<rparr>)) })]
          c })"

definition tls_steps :: "('w, 'h) ext \<Rightarrow> ldap_connection_config \<Rightarrow> ('w, 'h) step" where
  "tls_steps E cfg c =
     (if \<not> use_start_tls cfg then Some (True, c)
      else run_steps
        [when_given (tls_ca_cert_file cfg) (\<lambda>f. set_option E LDAP_OPT_X_TLS_CACERTFILE (StringValue (Some f))),
         when_given (tls_ca_cert_path cfg) (\<lambda>f. set_option E LDAP_OPT_X_TLS_CACERTDIR (StringValue (Some f))),
         when_given (tls_cert_file cfg) (\<lambda>f. set_option E LDAP_OPT_X_TLS_CERTFILE (StringValue (Some f))),
         when_given (tls_key_file cfg) (\<lambda>f. set_option E LDAP_OPT_X_TLS_KEYFILE (StringValue (Some f))),
         set_option E LDAP_OPT_X_TLS_NEWCTX (BoolValue False)] c)"

text \<open>\<open>ldap_requests_init\<close> and \<open>search_requests_init\<close> on whole arrays; nodes are part of read requests.\<close>

definition ldap_requests_init :: "int \<Rightarrow> (int \<Rightarrow> ldap_request) \<Rightarrow> int \<Rightarrow> ldap_request" where
  "ldap_requests_init n rs = (\<lambda>i. if 0 \<le> i \<and> i < n
     then \<lparr>req_msgid = -1, on_read_operation = None, on_write_operation = None\<rparr> else rs i)"

definition search_requests_init :: "int \<Rightarrow> (int \<Rightarrow> ldap_search_request) \<Rightarrow> int \<Rightarrow> ldap_search_request" where
  "search_requests_init n rs = (\<lambda>i. if 0 \<le> i \<and> i < n
     then (rs i)\<lparr>search_msgid := -1, on_search_operation := None\<rparr> else rs i)"

text \<open>
  The assignments between the options and the event base. The results of \<open>ldap_schema_new\<close> and
  \<open>request_queue_new\<close> are stored without a test.
\<close>

definition tables_step :: "('w, 'h) ext \<Rightarrow> ldap_connection_config \<Rightarrow> ('w, 'h) step" where
  "tables_step E cfg c =
     (let c1 = c\<lparr>bind_type := cfg_bind_type cfg, directory_type := LDAP_TYPE_UNINITIALIZED\<rparr>;
          (s, c2) = ldap_schema_new E True c1;
          k = schema_count c2;
          c3 = (case s of None \<Rightarrow> c2\<lparr>schema := None\<rparr>
                | Some x \<Rightarrow> c2\<lparr>schema := Some k, schemas := (schemas c2)(k \<mapsto> x), schema_count := k + 1\<rparr>);
          (ok, c4) = alloc E c3;
          (p, qs) = request_queue_new ok (queue_count c4) 8192 (queues c4)
      in Some (True,
           c4\<lparr>callqueue := p, queue_count := queue_count c4 + 1,
              queues := qs\<lparr>prev := (\<lambda>i. if 0 \<le> i \<and> i < MAX_REQUESTS then None else prev qs i)\<rparr>,
              n_read_requests := 0, n_write_requests := 0, n_search_requests := 0, n_reconnect_attempts := 0,
              read_requests := ldap_requests_init MAX_REQUESTS (read_requests c4),
              write_requests := ldap_requests_init MAX_REQUESTS (write_requests c4),
              search_requests := search_requests_init MAX_REQUESTS (search_requests c4)\<rparr>))"

definition base_step :: "('w, 'h) ext \<Rightarrow> ('w, 'h) step" where
  "base_step E c =
     (let (b, w) = verto_default E (world c) in
      Some (b \<noteq> None, c\<lparr>world := w, base := (case b of None \<Rightarrow> Null | Some x \<Rightarrow> Valid x)\<rparr>))"

definition resource_steps :: "('w, 'h) ext \<Rightarrow> ldap_connection_config \<Rightarrow> ('w, 'h) step" where
  "resource_steps E cfg = run_steps
     [defaults_step E, sasl_steps E cfg, tls_steps E cfg, tables_step E cfg, base_step E]"

text \<open>
  \<open>error_exit\<close> frees the temporary context with everything allocated in it so far: machine \<open>m\<close>, and the
  defaults. The pointers in the connection are kept.
\<close>

definition drop_machine :: "nat \<Rightarrow> ('w, 'h) conn \<Rightarrow> ('w, 'h) conn" where
  "drop_machine m c = c\<lparr>machines := (machines c)(m := None)\<rparr>"

definition drop_defaults :: "('w, 'h) conn \<Rightarrow> ('w, 'h) conn" where
  "drop_defaults c = c\<lparr>ldap_defaults := (case ldap_defaults c of Valid _ \<Rightarrow> Dangling | p \<Rightarrow> p)\<rparr>"

definition connection_configure ::
  "('w, 'h) ext \<Rightarrow> ldap_connection_config option \<Rightarrow> ('w, 'h) conn \<Rightarrow>
     (OperationReturnCode \<times> ('w, 'h) conn) option" where
  "connection_configure E cfg_ptr c =
     do { cfg \<leftarrow> cfg_ptr;
          let m = machine_count c;
          let (ctx, c0) = alloc E c;
          if \<not> ctx then Some (RETURN_CODE_FAILURE, c0)
          else do {
            (ok, c1) \<leftarrow> run_steps [initialize_step E cfg, machine_step E] c0;
            if \<not> ok then Some (RETURN_CODE_FAILURE, drop_machine m (snd (free_block E c1)))
            else do {
              (ok, c2) \<leftarrow> option_steps E cfg c1;
              if \<not> ok then Some (RETURN_CODE_FAILURE, drop_machine m (snd (free_block E c2)))
              else do {
                (ok, c3) \<leftarrow> resource_steps E cfg c2;
                let (freed, c4) = free_block E c3;
                if \<not> ok then Some (RETURN_CODE_FAILURE, drop_defaults (drop_machine m c4))
                else Some (if freed then RETURN_CODE_SUCCESS else RETURN_CODE_FAILURE, c4) } } } }"

section \<open>Event handlers\<close>

definition to_cptr :: "'a option \<Rightarrow> 'a cptr" where
  "to_cptr p = (case p of None \<Rightarrow> Null | Some x \<Rightarrow> Valid x)"

text \<open>On an error the session is unbound, here and once more by every caller.\<close>

definition connection_install_handlers ::
  "('w, 'h) ext \<Rightarrow> ('w, 'h) conn \<Rightarrow> (OperationReturnCode \<times> ('w, 'h) conn) option" where
  "connection_install_handlers E c =
     do { ((rc, fd), c1) \<leftarrow> with_ldap (\<lambda>ld. ldap_get_int_option E ld LDAP_OPT_DESC) c;
          if rc \<noteq> LDAP_OPT_SUCCESS \<or> fd < 0 then
            do { c2 \<leftarrow> unbind E c1; Some (RETURN_CODE_FAILURE, c2) }
          else do {
            b \<leftarrow> deref (base c1);
            let (r, w1) = verto_add_io E b True fd (world c1);
            let (wr, w2) = verto_add_io E b False fd w1;
            Some (RETURN_CODE_SUCCESS,
                  c1\<lparr>world := w2, read_event := to_cptr r, write_event := to_cptr wr,
                     handlers_installed := True\<rparr>) } }"

text \<open>The common end of the three functions that start a TLS session or a bind.\<close>

definition install_and_push ::
  "('w, 'h) ext \<Rightarrow> int \<Rightarrow> read_operation \<Rightarrow> OperationReturnCode \<Rightarrow> ('w, 'h) conn \<Rightarrow>
     (OperationReturnCode \<times> ('w, 'h) conn) option" where
  "install_and_push E msgid handler success c =
     do { (rc, c1) \<leftarrow> (if handlers_installed c then Some (RETURN_CODE_SUCCESS, c)
                      else connection_install_handlers E c);
          if rc \<noteq> RETURN_CODE_SUCCESS then do { c2 \<leftarrow> unbind E c1; Some (RETURN_CODE_FAILURE, c2) }
          else do { c2 \<leftarrow> push_read_request msgid handler c1; Some (success, c2) } }"

definition connection_start_tls ::
  "('w, 'h) ext \<Rightarrow> ('w, 'h) conn \<Rightarrow> (OperationReturnCode \<times> ('w, 'h) conn) option" where
  "connection_start_tls E c =
     do { _ \<leftarrow> ldap_params c;
          ((rc, msgid), c1) \<leftarrow> with_ldap (\<lambda>ld. ldap_start_tls E ld) c;
          if rc \<noteq> LDAP_SUCCESS then do { c2 \<leftarrow> unbind E c1; Some (RETURN_CODE_FAILURE, c2) }
          else install_and_push E msgid START_TLS_ON_READ RETURN_CODE_SUCCESS c1 }"

definition connection_sasl_bind ::
  "('w, 'h) ext \<Rightarrow> ('w, 'h) conn \<Rightarrow> (OperationReturnCode \<times> ('w, 'h) conn) option" where
  "connection_sasl_bind E c =
     do { params \<leftarrow> ldap_params c;
          d \<leftarrow> deref (ldap_defaults c);
          ((rc, msgid), c1) \<leftarrow> with_ldap (\<lambda>ld. ldap_sasl_bind E ld (sp_dn params) (sd_mechanism d) (sp_passwd params)) c;
          if rc = LDAP_X_CONNECTING then Some (RETURN_CODE_REPEAT_LAST_OPERATION, c1)
          else if rc \<noteq> LDAP_SUCCESS then do { c2 \<leftarrow> unbind E c1; Some (RETURN_CODE_FAILURE, c2) }
          else install_and_push E msgid BIND_ON_READ RETURN_CODE_SUCCESS c1 }"

text \<open>The callback that answers the questions of an interactive bind; the end mark is the end of the list.\<close>

datatype sasl_question =
    SASL_CB_GETREALM | SASL_CB_AUTHNAME | SASL_CB_PASS | SASL_CB_USER | SASL_CB_NOECHOPROMPT | SASL_CB_ECHOPROMPT

definition sasl_answer :: "ldap_sasl_defaults option \<Rightarrow> sasl_question \<Rightarrow> string option \<Rightarrow> string" where
  "sasl_answer defaults q defresult =
     (let dflt = (case (defaults, q) of
                    (Some d, SASL_CB_GETREALM) \<Rightarrow> realm d
                  | (Some d, SASL_CB_AUTHNAME) \<Rightarrow> authcid d
                  | (Some d, SASL_CB_PASS) \<Rightarrow> sd_passwd d
                  | (Some d, SASL_CB_USER) \<Rightarrow> authzid d
                  | _ \<Rightarrow> defresult)
      in case dflt of None \<Rightarrow> [] | Some s \<Rightarrow> s)"

definition sasl_interact_gssapi ::
  "bool \<Rightarrow> ldap_sasl_defaults option \<Rightarrow> (sasl_question \<times> string option) list \<Rightarrow> int \<times> string list" where
  "sasl_interact_gssapi ld defaults questions =
     (if \<not> ld then (LDAP_PARAM_ERROR, [])
      else (LDAP_SUCCESS, map (\<lambda>(q, defresult). sasl_answer defaults q defresult) questions))"

definition interactive_bind ::
  "('w, 'h) ext \<Rightarrow> ldap_message list \<Rightarrow> int \<Rightarrow> ('w, 'h) conn \<Rightarrow> ((int \<times> int) \<times> ('w, 'h) conn) option" where
  "interactive_bind E message msgid c =
     do { d \<leftarrow> deref (ldap_defaults c);
          ((rc, mech, msgid'), c1) \<leftarrow>
            with_ldap (\<lambda>ld. ldap_sasl_interactive_bind E ld (sd_mechanism d) (sd_flags d) d message (rmech c) msgid) c;
          Some ((rc, msgid'), c1\<lparr>rmech := mech\<rparr>) }"

text \<open>Fetching the diagnostics with \<open>get_ldap_option\<close>: \<open>None\<close> is the jump to \<open>error_exit\<close>.\<close>

definition fetch_diagnostics ::
  "('w, 'h) ext \<Rightarrow> ('w, 'h) conn \<Rightarrow> (int option \<times> ('w, 'h) conn) option" where
  "fetch_diagnostics E c =
     do { ((rc, code), c1) \<leftarrow> with_ldap (\<lambda>ld. ldap_get_int_option E ld LDAP_OPT_RESULT_CODE) c;
          if rc \<noteq> LDAP_OPT_SUCCESS then Some (None, c1)
          else do { ((rc, _), c2) \<leftarrow> with_ldap (\<lambda>ld. ldap_get_string_option E ld LDAP_OPT_DIAGNOSTIC_MESSAGE) c1;
                    Some (if rc \<noteq> LDAP_OPT_SUCCESS then None else Some code, c2) } }"

definition connection_ldap_bind ::
  "('w, 'h) ext \<Rightarrow> ('w, 'h) conn \<Rightarrow> (OperationReturnCode \<times> ('w, 'h) conn) option" where
  "connection_ldap_bind E c =
     do { ((rc, msgid), c1) \<leftarrow> interactive_bind E [] 0 c;
          if rc = LDAP_X_CONNECTING then Some (RETURN_CODE_REPEAT_LAST_OPERATION, c1)
          else if rc \<noteq> LDAP_SUCCESS \<and> rc \<noteq> LDAP_SASL_BIND_IN_PROGRESS then
            do { (_, c2) \<leftarrow> fetch_diagnostics E c1;
                 c3 \<leftarrow> unbind E c2;
                 Some (RETURN_CODE_FAILURE, c3) }
          else install_and_push E msgid BIND_ON_READ
                 (if rc = LDAP_SASL_BIND_IN_PROGRESS then RETURN_CODE_OPERATION_IN_PROGRESS
                  else RETURN_CODE_SUCCESS) c1 }"

section \<open>Closing\<close>

text \<open>\<open>verto_del\<close> on an event field: NULL is skipped, the field keeps the address of the freed event.\<close>

definition close_event :: "('w, 'h) ext \<Rightarrow> nat cptr \<Rightarrow> 'w \<Rightarrow> (nat cptr \<times> 'w) option" where
  "close_event E ev w =
     (case ev of Null \<Rightarrow> Some (Null, w) | Valid x \<Rightarrow> Some (Dangling, verto_del E x w) | Dangling \<Rightarrow> None)"

definition connection_close ::
  "('w, 'h) ext \<Rightarrow> ('w, 'h) conn \<Rightarrow> (OperationReturnCode \<times> ('w, 'h) conn) option" where
  "connection_close E c =
     (if ldap_defaults c = Dangling then None
      else do {
        (r, w1) \<leftarrow> close_event E (read_event c) (world c);
        (wr, w2) \<leftarrow> close_event E (write_event c) w1;
        let c1 = c\<lparr>read_event := r, write_event := wr, world := w2\<rparr>;
        erroneous \<leftarrow> csm_is_in_state (state_machine c1) LDAP_CONNECTION_STATE_ERROR c1;
        c2 \<leftarrow> (if erroneous then Some c1
               else (case base c1 of
                       Dangling \<Rightarrow> None
                     | Null \<Rightarrow> unbind E c1
                     | Valid b \<Rightarrow> unbind E (c1\<lparr>world := verto_free E b (world c1), base := Dangling\<rparr>)));
        (case ldap_defaults c2 of
           Valid _ \<Rightarrow> let (ok, c3) = free_block E c2 in
             Some (if ok then RETURN_CODE_SUCCESS else RETURN_CODE_FAILURE, c3\<lparr>ldap_defaults := Null\<rparr>)
         | _ \<Rightarrow> Some (RETURN_CODE_FAILURE, c2)) })"

section \<open>Answers during connection\<close>

definition connection_bind_on_read ::
  "('w, 'h) ext \<Rightarrow> int \<Rightarrow> ldap_message list \<Rightarrow> ('w, 'h) conn \<Rightarrow> (OperationReturnCode \<times> ('w, 'h) conn) option" where
  "connection_bind_on_read E rc message c =
     (if rc \<noteq> LDAP_RES_BIND then Some (RETURN_CODE_SUCCESS, c)
      else do {
        (rc1, c1) \<leftarrow> (if bind_type c = BIND_TYPE_INTERACTIVE then
                        do { ((r, m), c') \<leftarrow> interactive_bind E message (conn_msgid c) c;
                             Some (r, c'\<lparr>conn_msgid := m\<rparr>) }
                      else Some (rc, c));
        if rc1 = LDAP_SASL_BIND_IN_PROGRESS then
          do { c2 \<leftarrow> push_read_request (conn_msgid c1) BIND_ON_READ c1; Some (RETURN_CODE_SUCCESS, c2) }
        else if rc1 = LDAP_SUCCESS then
          do { c2 \<leftarrow> csm_set_state (state_machine c1) LDAP_CONNECTION_STATE_BOUND c1; Some (RETURN_CODE_SUCCESS, c2) }
        else do {
          (code, c2) \<leftarrow> fetch_diagnostics E c1;
          (case code of
             None \<Rightarrow> Some (RETURN_CODE_FAILURE, c2)
           | Some error_code \<Rightarrow>
               if error_code \<noteq> LDAP_SUCCESS then
                 do { c3 \<leftarrow> csm_set_state (state_machine c2) LDAP_CONNECTION_STATE_ERROR c2;
                      Some (RETURN_CODE_FAILURE, c3) }
               else Some (RETURN_CODE_FAILURE, c2)) } })"

definition connection_start_tls_on_read ::
  "('w, 'h) ext \<Rightarrow> int \<Rightarrow> ldap_message list \<Rightarrow> ('w, 'h) conn \<Rightarrow> (OperationReturnCode \<times> ('w, 'h) conn) option" where
  "connection_start_tls_on_read E rc message c =
     (if rc \<noteq> LDAP_RES_EXTENDED then Some (RETURN_CODE_SUCCESS, c)
      else do {
        (inplace, c1) \<leftarrow> with_ldap (ldap_tls_inplace E) c;
        (tls_rc, c2) \<leftarrow> (if \<not> inplace then with_ldap (ldap_install_tls E) c1 else Some (LDAP_SUCCESS, c1));
        if tls_rc \<noteq> LDAP_SUCCESS \<and> tls_rc \<noteq> LDAP_LOCAL_ERROR then
          do { (code, c3) \<leftarrow> fetch_diagnostics E c2;
               (case code of
                  None \<Rightarrow> Some (RETURN_CODE_FAILURE, c3)
                | Some _ \<Rightarrow> do { c4 \<leftarrow> csm_set_state (state_machine c3) LDAP_CONNECTION_STATE_ERROR c3;
                                Some (RETURN_CODE_FAILURE, c4) }) }
        else do { c3 \<leftarrow> csm_set_state (state_machine c2) LDAP_CONNECTION_STATE_TRANSPORT_READY c2;
                  Some (RETURN_CODE_SUCCESS, c3) } })"

section \<open>Starting TLS and binding\<close>

text \<open>
  \<open>can_install E c\<close>: the event handlers are installed, or libldap has a descriptor for them.
  \<open>requested c m h c'\<close>: one request was enqueued and the handlers are installed.
\<close>

definition can_install :: "('w, 'h) ext \<Rightarrow> ('w, 'h) conn \<Rightarrow> bool" where
  "can_install E c \<longleftrightarrow> handlers_installed c \<or>
     (base c \<noteq> Null \<and> base c \<noteq> Dangling \<and>
      (\<forall>ld w. fst (fst (ldap_get_int_option E ld LDAP_OPT_DESC w)) = LDAP_OPT_SUCCESS \<and>
              0 \<le> snd (fst (ldap_get_int_option E ld LDAP_OPT_DESC w))))"

definition requested :: "('w, 'h) conn \<Rightarrow> int \<Rightarrow> read_operation \<Rightarrow> ('w, 'h) conn \<Rightarrow> bool" where
  "requested c m h c' \<longleftrightarrow>
     conn_inv c' \<and> outstanding c' = outstanding c @ [(m, Some h)] \<and> searches c' = searches c \<and>
     handlers_installed c' \<and> ldap c' = ldap c \<and> state_machine c' = state_machine c \<and>
     machines c' = machines c \<and> n_read_requests c' = n_read_requests c + 1 \<and> bind_type c' = bind_type c \<and>
     schema c' = schema c \<and> schemas c' = schemas c \<and> n_search_requests c' = n_search_requests c"

lemma conn_inv_events [simp]:
  "conn_inv (c\<lparr>read_event := r\<rparr>) = conn_inv c" "conn_inv (c\<lparr>write_event := r\<rparr>) = conn_inv c"
  "conn_inv (c\<lparr>handlers_installed := b\<rparr>) = conn_inv c" "conn_inv (c\<lparr>rmech := m\<rparr>) = conn_inv c"
  "outstanding (c\<lparr>read_event := r\<rparr>) = outstanding c" "outstanding (c\<lparr>write_event := r\<rparr>) = outstanding c"
  "outstanding (c\<lparr>handlers_installed := b\<rparr>) = outstanding c" "outstanding (c\<lparr>rmech := m\<rparr>) = outstanding c"
  "searches (c\<lparr>read_event := r\<rparr>) = searches c" "searches (c\<lparr>write_event := r\<rparr>) = searches c"
  "searches (c\<lparr>handlers_installed := b\<rparr>) = searches c" "searches (c\<lparr>rmech := m\<rparr>) = searches c"
  by (simp_all add: conn_inv_def outstanding_def waiting_def searches_def split: option.splits)

lemma conn_inv_fields:
  "conn_inv (c\<lparr>ldap_defaults := d\<rparr>) = conn_inv c" "conn_inv (c\<lparr>base := b\<rparr>) = conn_inv c"
  "conn_inv (c\<lparr>ldap := l\<rparr>) = conn_inv c" "conn_inv (c\<lparr>config := cf\<rparr>) = conn_inv c"
  "conn_inv (c\<lparr>state_machine := sm\<rparr>) = conn_inv c" "conn_inv (c\<lparr>machines := ms\<rparr>) = conn_inv c"
  "conn_inv (c\<lparr>machine_count := mc\<rparr>) = conn_inv c" "conn_inv (c\<lparr>n_reconnect_attempts := n\<rparr>) = conn_inv c"
  by (simp_all add: conn_inv_def waiting_def split: option.splits)

lemma push_requested:
  assumes "conn_inv c" and "n_read_requests c < MAX_REQUESTS"
  shows "\<exists>c'. push_read_request m h c = Some c' \<and> enqueued c (world c) m h c'"
proof -
  obtain c' where "push_read_request m h (c\<lparr>world := world c\<rparr>) = Some c'" and "enqueued c (world c) m h c'"
    by (rule push_after_call [OF assms, of m h "world c"])
  then show ?thesis by (intro exI [of _ c'] conjI) simp_all
qed

lemma enqueued_outstanding: "enqueued c w m h c' \<Longrightarrow> outstanding c' = outstanding c @ [(m, Some h)]"
  unfolding enqueued_def by blast

lemma connection_install_handlers_ok:
  assumes "ldap c = Valid ld" and "\<not> handlers_installed c" and "can_install E c"
  shows "\<exists>w r wr. connection_install_handlers E c = Some (RETURN_CODE_SUCCESS,
    c\<lparr>world := w, read_event := r, write_event := wr, handlers_installed := True\<rparr>)"
proof -
  obtain b where "base c = Valid b"
    using assms(2,3) by (cases "base c") (auto simp: can_install_def)
  moreover obtain fd w where "ldap_get_int_option E ld LDAP_OPT_DESC (world c) = ((LDAP_OPT_SUCCESS, fd), w)" and "0 \<le> fd"
    using assms(2,3) unfolding can_install_def by (metis prod.exhaust_sel)
  moreover obtain r w1 where "verto_add_io E b True fd w = (r, w1)" by fastforce
  moreover obtain wr w2 where "verto_add_io E b False fd w1 = (wr, w2)" by fastforce
  ultimately show ?thesis
    using assms(1)
    by (intro exI [of _ w2] exI [of _ "to_cptr r"] exI [of _ "to_cptr wr"])
      (simp add: connection_install_handlers_def with_ldap_def)
qed

lemma install_and_push_ok:
  assumes "conn_inv c" and "ldap c = Valid ld" and "n_read_requests c < MAX_REQUESTS" and "can_install E c"
  shows "\<exists>c'. install_and_push E m h s c = Some (s, c') \<and> requested c m h c'"
proof (cases "handlers_installed c")
  case True
  obtain c' where "push_read_request m h c = Some c'" and e: "enqueued c (world c) m h c'"
    using push_requested [OF assms(1,3)] by blast
  then show ?thesis
    using True by (auto simp: install_and_push_def requested_def enqueued_frame [OF e] enqueued_outstanding [OF e])
next
  case False
  obtain c1 w r wr where i: "connection_install_handlers E c = Some (RETURN_CODE_SUCCESS, c1)"
    and c1: "c1 = c\<lparr>world := w, read_event := r, write_event := wr, handlers_installed := True\<rparr>"
    using connection_install_handlers_ok [OF assms(2) False assms(4)] by blast
  have "conn_inv c1" "n_read_requests c1 < MAX_REQUESTS" using assms(1,3) by (simp_all add: c1)
  then obtain c' where p: "push_read_request m h c1 = Some c'" and e: "enqueued c1 (world c1) m h c'"
    using push_requested by blast
  have "requested c1 m h c'"
    by (simp add: requested_def enqueued_frame [OF e] enqueued_outstanding [OF e]) (simp add: c1)
  then have "requested c m h c'" by (simp add: requested_def c1)
  then show ?thesis using False i p by (simp add: install_and_push_def)
qed

lemma requested_world [simp]: "requested (c\<lparr>world := w\<rparr>) m h c' = requested c m h c'"
  "requested (c\<lparr>rmech := x\<rparr>) m h c' = requested c m h c'"
  by (simp_all add: requested_def)

lemma can_install_world [simp]: "can_install E (c\<lparr>world := w\<rparr>) = can_install E c"
  "can_install E (c\<lparr>rmech := x\<rparr>) = can_install E c"
  by (simp_all add: can_install_def)

lemma fetch_diagnostics_ok:
  assumes "ldap c = Valid ld"
  shows "\<exists>code w. fetch_diagnostics E c = Some (code, c\<lparr>world := w\<rparr>)"
proof -
  obtain r1 x1 w1 where "ldap_get_int_option E ld LDAP_OPT_RESULT_CODE (world c) = ((r1, x1), w1)"
    by (metis prod.exhaust_sel)
  moreover obtain r2 x2 w2 where "ldap_get_string_option E ld LDAP_OPT_DIAGNOSTIC_MESSAGE w1 = ((r2, x2), w2)"
    by (metis prod.exhaust_sel)
  ultimately show ?thesis
    using assms by (cases "r1 = 0") (auto simp: fetch_diagnostics_def with_ldap_def)
qed


definition demo_ready :: "(demo_world, demo_table) conn" where
  "demo_ready = demo_conn
     \<lparr>ldap_params := Some \<lparr>sp_dn = Some ''cn=admin'', sp_passwd = Some ''secret''\<rparr>,
      ldap_defaults := Valid \<lparr>sd_flags = 0, sd_mechanism = None, realm = None, authcid = None,
                              authzid = None, sd_passwd = None\<rparr>\<rparr>"

lemma demo_ready_inv [simp]: "conn_inv demo_ready" "outstanding demo_ready = []" "ldap demo_ready = Valid 1"
  "n_read_requests demo_ready = 0" "handlers_installed demo_ready" "base demo_ready = Valid 0"
  "machines demo_ready = [0 \<mapsto> LDAP_CONNECTION_STATE_RUN]" "state_machine demo_ready = Some 0"
proof -
  have "conn_inv demo_ready = conn_inv demo_conn" "outstanding demo_ready = outstanding demo_conn"
    by (simp_all add: demo_ready_def conn_inv_def outstanding_def waiting_def split: option.splits)
  then show "conn_inv demo_ready" "outstanding demo_ready = []" by simp_all
qed (simp_all add: demo_ready_def demo_conn_def)

lemma demo_ready_params:
  "ldap_params demo_ready = Some \<lparr>sp_dn = Some ''cn=admin'', sp_passwd = Some ''secret''\<rparr>"
  "ldap_defaults demo_ready = Valid \<lparr>sd_flags = 0, sd_mechanism = None, realm = None, authcid = None,
     authzid = None, sd_passwd = None\<rparr>"
  by (simp_all add: demo_ready_def)


text \<open>
  When the event handlers cannot be installed, a handshake that libldap has accepted ends in undefined
  behaviour: \<open>connection_install_handlers\<close> unbinds the session and its caller unbinds it again.
\<close>

theorem failed_installation_unbinds_twice:
  assumes "ldap c = Valid ld" and "\<not> handlers_installed c"
    and "\<And>w. fst (fst (ldap_get_int_option E ld LDAP_OPT_DESC w)) \<noteq> LDAP_OPT_SUCCESS \<or>
             snd (fst (ldap_get_int_option E ld LDAP_OPT_DESC w)) < 0"
    and "fst (fst (ldap_start_tls E ld (world c))) = LDAP_SUCCESS"
    and "\<And>d. fst (fst (ldap_sasl_interactive_bind E ld (sd_mechanism d) (sd_flags d) d [] (rmech c) 0 (world c))) =
            LDAP_SASL_BIND_IN_PROGRESS"
  shows "connection_start_tls E c = None \<and> connection_ldap_bind E c = None"
proof -
  have install: "install_and_push E m h s c1 = None" if "ldap c1 = Valid ld" and "\<not> handlers_installed c1" for m h s and c1 :: "('a, 'b) conn"
  proof -
    obtain rc fd w where g: "ldap_get_int_option E ld LDAP_OPT_DESC (world c1) = ((rc, fd), w)"
      by (metis prod.exhaust_sel)
    then have "rc \<noteq> LDAP_OPT_SUCCESS \<or> fd < 0" using assms(3) [of "world c1"] by simp
    then have "connection_install_handlers E c1 =
        Some (RETURN_CODE_FAILURE, c1\<lparr>world := ldap_unbind E ld w, ldap := Dangling\<rparr>)"
      using that g by (simp add: connection_install_handlers_def with_ldap_def unbind_def)
    then show ?thesis using that by (simp add: install_and_push_def unbind_def)
  qed
  obtain m w where "ldap_start_tls E ld (world c) = ((LDAP_SUCCESS, m), w)"
    using assms(4) by (metis prod.exhaust_sel)
  then have "connection_start_tls E c = None"
    using assms(1,2) install [of "c\<lparr>world := w\<rparr>"]
    by (cases "ldap_params c") (simp_all add: connection_start_tls_def with_ldap_def)
  moreover have "connection_ldap_bind E c = None"
  proof (cases "ldap_defaults c")
    case (Valid d)
    obtain mech m w where "ldap_sasl_interactive_bind E ld (sd_mechanism d) (sd_flags d) d [] (rmech c) 0 (world c) =
        ((LDAP_SASL_BIND_IN_PROGRESS, mech, m), w)"
      using assms(5) [of d] by (metis prod.exhaust_sel)
    then show ?thesis
      using Valid assms(1,2) install [of "c\<lparr>world := w, rmech := mech\<rparr>"]
      by (simp add: connection_ldap_bind_def interactive_bind_def with_ldap_def)
  qed (simp_all add: connection_ldap_bind_def interactive_bind_def)
  ultimately show ?thesis ..
qed

lemma failed_installation_unbinds_twice_witness:
  "connection_start_tls (demo_ext\<lparr>ldap_get_int_option := \<lambda>_ _ w. ((0, -1), w)\<rparr>)
     (demo_ready\<lparr>handlers_installed := False\<rparr>) = None"
proof -
  let ?E = "demo_ext\<lparr>ldap_get_int_option := \<lambda>_ _ w. ((0, -1), w)\<rparr>"
  have "fst (fst (ldap_start_tls ?E ld w)) = 0" "fst (fst (ldap_sasl_interactive_bind ?E ld x1 x2 x3 x4 x5 x6 w)) = 14"
    for ld w x1 x2 x3 x4 x5 x6
    by (simp_all add: demo_ext_def demo_send_def)
  then show ?thesis
    using failed_installation_unbinds_twice [of "demo_ready\<lparr>handlers_installed := False\<rparr>" 1 ?E] by simp
qed

section \<open>The answer to a bind\<close>

definition bind_failed :: "('w, 'h) ext \<Rightarrow> ('w, 'h) conn \<Rightarrow> (OperationReturnCode \<times> ('w, 'h) conn) option \<Rightarrow> bool" where
  "bind_failed E c result \<longleftrightarrow>
     (\<exists>code w. fetch_diagnostics E c = Some (code, c\<lparr>world := w\<rparr>) \<and>
        result = Some (RETURN_CODE_FAILURE,
          (if code \<noteq> None \<and> code \<noteq> Some LDAP_SUCCESS
           then c\<lparr>world := w, machines := (machines c)(the (state_machine c) \<mapsto> LDAP_CONNECTION_STATE_ERROR)\<rparr>
           else c\<lparr>world := w\<rparr>)))"

text \<open>
  C24: Only the interactive bind can reach the state BOUND: an answer to a simple bind always makes the
  handler fail, with the state ERROR exactly when libldap reports a result code other than success and the
  diagnostics can be read. For the interactive bind the next step of libldap decides: success is BOUND, a
  bind in progress enqueues the next request, anything else fails like the simple bind.
\<close>

theorem bind_answer_outcome:
  assumes "conn_inv c" and "ldap c = Valid ld" and "n_read_requests c < MAX_REQUESTS"
    and "state_machine c = Some sm" and "machines c sm = Some st" and "ldap_defaults c = Valid d"
    and step: "ldap_sasl_interactive_bind E ld (sd_mechanism d) (sd_flags d) d message (rmech c) (conn_msgid c) (world c) =
       ((r, mech, m), w)"
    and c1: "c1 = c\<lparr>world := w, rmech := mech, conn_msgid := m\<rparr>"
  shows "(if bind_type c = BIND_TYPE_SIMPLE
          then bind_failed E c (connection_bind_on_read E LDAP_RES_BIND message c)
          else if r = LDAP_SUCCESS
          then connection_bind_on_read E LDAP_RES_BIND message c = Some (RETURN_CODE_SUCCESS,
                 c1\<lparr>machines := (machines c)(sm \<mapsto> LDAP_CONNECTION_STATE_BOUND)\<rparr>)
          else if r = LDAP_SASL_BIND_IN_PROGRESS
          then \<exists>c'. connection_bind_on_read E LDAP_RES_BIND message c = Some (RETURN_CODE_SUCCESS, c') \<and>
                 enqueued c1 w m BIND_ON_READ c'
          else bind_failed E c1 (connection_bind_on_read E LDAP_RES_BIND message c)) \<and>
    (rc \<noteq> LDAP_RES_BIND \<longrightarrow> connection_bind_on_read E rc message c = Some (RETURN_CODE_SUCCESS, c))"
proof -
  have failed: "bind_failed E x (do { (code, c2) \<leftarrow> fetch_diagnostics E x;
          (case code of
             None \<Rightarrow> Some (RETURN_CODE_FAILURE, c2)
           | Some error_code \<Rightarrow>
               if error_code \<noteq> LDAP_SUCCESS then
                 do { c3 \<leftarrow> csm_set_state (state_machine c2) LDAP_CONNECTION_STATE_ERROR c2;
                      Some (RETURN_CODE_FAILURE, c3) }
               else Some (RETURN_CODE_FAILURE, c2)) })"
    if "ldap x = Valid ld" and "state_machine x = Some sm" and "machines x sm = Some st" for x :: "('a, 'b) conn"
  proof -
    have "\<exists>code w. fetch_diagnostics E x = Some (code, x\<lparr>world := w\<rparr>)"
      by (rule fetch_diagnostics_ok [OF that(1)])
    then obtain code w where f: "fetch_diagnostics E x = Some (code, x\<lparr>world := w\<rparr>)" by blast
    show ?thesis
      unfolding bind_failed_def using that f
      by (intro exI [of _ code] exI [of _ w]) (auto simp: csm_set_state_def split: option.splits)
  qed
  have i: "interactive_bind E message (conn_msgid c) c = Some ((r, m), c\<lparr>world := w, rmech := mech\<rparr>)"
    using assms(2,6) step by (simp add: interactive_bind_def with_ldap_def)
  have c1': "conn_inv c1" "n_read_requests c1 < MAX_REQUESTS" "ldap c1 = Valid ld" "world c1 = w" "conn_msgid c1 = m"
      "state_machine c1 = Some sm" "machines c1 sm = Some st" "machines c1 = machines c"
    using assms(1-5) by (auto simp: c1 conn_inv_def waiting_def split: option.splits)
  obtain c' where push: "push_read_request m BIND_ON_READ c1 = Some c'" "enqueued c1 w m BIND_ON_READ c'"
    using push_requested [OF c1'(1,2)] c1'(4) by metis
  show ?thesis
  proof (cases "bind_type c")
    case BIND_TYPE_SIMPLE
    then show ?thesis
      using failed [OF assms(2,4,5)] by (simp add: connection_bind_on_read_def)
  next
    case BIND_TYPE_INTERACTIVE
    have run: "connection_bind_on_read E LDAP_RES_BIND message c =
        (if r = LDAP_SASL_BIND_IN_PROGRESS then Some (RETURN_CODE_SUCCESS, c')
         else if r = LDAP_SUCCESS then Some (RETURN_CODE_SUCCESS, c1\<lparr>machines := (machines c)(sm \<mapsto> LDAP_CONNECTION_STATE_BOUND)\<rparr>)
         else do { (code, c2) \<leftarrow> fetch_diagnostics E c1;
          (case code of
             None \<Rightarrow> Some (RETURN_CODE_FAILURE, c2)
           | Some error_code \<Rightarrow>
               if error_code \<noteq> LDAP_SUCCESS then
                 do { c3 \<leftarrow> csm_set_state (state_machine c2) LDAP_CONNECTION_STATE_ERROR c2;
                      Some (RETURN_CODE_FAILURE, c3) }
               else Some (RETURN_CODE_FAILURE, c2)) })"
      using BIND_TYPE_INTERACTIVE i push(1) c1'
      by (simp add: connection_bind_on_read_def csm_set_state_def c1 [symmetric])
    show ?thesis
      unfolding run using BIND_TYPE_INTERACTIVE failed [OF c1'(3,6,7)] push(2)
      by (simp add: connection_bind_on_read_def)
  qed
qed

lemma bind_answer_outcome_witness:
  "\<exists>c'. connection_bind_on_read demo_ext LDAP_RES_BIND [] (demo_ready\<lparr>bind_type := BIND_TYPE_INTERACTIVE\<rparr>) =
     Some (RETURN_CODE_SUCCESS, c') \<and> outstanding c' = [(1, Some BIND_ON_READ)]"
proof -
  let ?c = "demo_ready\<lparr>bind_type := BIND_TYPE_INTERACTIVE\<rparr>" and ?w = "snd (demo_send DBind (world demo_ready))"
  have "next_id (world demo_ready) = 1" "outstanding ?c = []" "conn_inv ?c"
    using demo_ready_inv(1,2)
    by (auto simp: conn_inv_def outstanding_def waiting_def split: option.splits) (simp add: demo_ready_def demo_conn_def)
  moreover have "outstanding (?c\<lparr>world := ?w, rmech := None, conn_msgid := 1\<rparr>) = outstanding ?c"
    by (simp add: outstanding_def waiting_def split: option.splits)
  ultimately show ?thesis
    using bind_answer_outcome [of ?c 1 0 LDAP_CONNECTION_STATE_RUN
        "\<lparr>sd_flags = 0, sd_mechanism = None, realm = None, authcid = None, authzid = None, sd_passwd = None\<rparr>"
        demo_ext "[]" 14 None 1 ?w "?c\<lparr>world := ?w, rmech := None, conn_msgid := 1\<rparr>" 0]
    by (auto simp: demo_ready_params dest: enqueued_outstanding)
qed

section \<open>What a configuration leaves\<close>

text \<open>
  Steps that leave the state machine, the session, the configuration and the read event alone, and keep the
  invariant of the request tables.
\<close>

definition set_up :: "('w, 'h) conn \<Rightarrow> ('w, 'h) conn \<Rightarrow> bool" where
  "set_up c c' \<longleftrightarrow>
     state_machine c' = state_machine c \<and> machines c' = machines c \<and> config c' = config c \<and>
     handlers_installed c' = handlers_installed c \<and> ldap c' = ldap c \<and> read_event c' = read_event c \<and>
     (conn_inv c \<longrightarrow> conn_inv c')"

lemma set_up_refl [simp]: "set_up c c"
  by (simp add: set_up_def)

lemma set_up_trans [trans]: "set_up a b \<Longrightarrow> set_up b c \<Longrightarrow> set_up a c"
  by (simp add: set_up_def)

lemma set_up_upd [simp]:
  "set_up a (b\<lparr>world := w\<rparr>) = set_up a b" "set_up a (b\<lparr>ldap_defaults := d\<rparr>) = set_up a b"
  "set_up a (b\<lparr>base := x\<rparr>) = set_up a b"
  by (simp_all add: set_up_def conn_inv_fields)

definition setup_step :: "('w, 'h) step \<Rightarrow> bool" where
  "setup_step f \<longleftrightarrow> (\<forall>c ok c'. f c = Some (ok, c') \<longrightarrow> set_up c c')"

lemma setup_stepI:
  assumes "\<And>c ok c'. f c = Some (ok, c') \<Longrightarrow> set_up c c'"
  shows "setup_step f"
  using assms unfolding setup_step_def by blast

lemma setup_stepD:
  assumes "setup_step f" and "f c = Some (ok, c')"
  shows "state_machine c' = state_machine c" "machines c' = machines c" "config c' = config c"
    "handlers_installed c' = handlers_installed c" "ldap c' = ldap c" "read_event c' = read_event c"
    "conn_inv c \<Longrightarrow> conn_inv c'"
  using assms unfolding setup_step_def set_up_def by blast+

lemma setup_step_set_up: "setup_step f \<Longrightarrow> f c = Some (ok, c') \<Longrightarrow> set_up c c'"
  by (simp add: setup_step_def)

lemma run_steps_setup: "\<forall>f \<in> set fs. setup_step f \<Longrightarrow> setup_step (run_steps fs)"
proof (induction fs)
  case Nil
  then show ?case by (simp add: setup_step_def)
next
  case (Cons f fs)
  show ?case
  proof (rule setup_stepI)
    fix c ok c'
    assume "run_steps (f # fs) c = Some (ok, c')"
    then obtain go c1 where f: "f c = Some (go, c1)" and rest: "(if go then run_steps fs c1 else Some (False, c1)) = Some (ok, c')"
      by (auto elim!: bind_SomeE)
    have 1: "setup_step f" "setup_step (run_steps fs)" using Cons by simp_all
    show "set_up c c'"
      using rest setup_step_set_up [OF 1(1) f] setup_step_set_up [OF 1(2)] by (cases go) (auto intro: set_up_trans)
  qed
qed

lemma same_but_world_setup:
  assumes "\<And>c ok c'. f c = Some (ok, c') \<Longrightarrow> same_but_world c c'"
  shows "setup_step f"
  by (rule setup_stepI) (auto dest!: assms elim!: same_but_worldE)

lemma option_steps_setup:
  "setup_step (set_option E opt v)" "setup_step (set_timeout E opt us)"
proof -
  show *: "setup_step (set_option E opt v)" for opt v
    by (rule same_but_world_setup) (auto simp: set_option_def elim!: bind_SomeE dest: with_ldap_same)
  show "setup_step (set_timeout E opt us)"
    by (rule same_but_world_setup)
      (auto simp: set_timeout_def set_option_def connection_microseconds_to_timeval_def Let_def
        split: prod.splits if_splits elim!: bind_SomeE dest!: with_ldap_same alloc_same intro: same_but_world_trans)
qed

lemma other_steps_setup:
  "setup_step (get_default E opt upd)" "setup_step (defaults_step E)" "setup_step (base_step E)"
  "(\<And>y. setup_step (g y)) \<Longrightarrow> setup_step (when_given x g)"
proof -
  show "setup_step (get_default E opt upd)"
    by (rule setup_stepI) (auto simp: get_default_def split: if_splits elim!: bind_SomeE dest!: with_ldap_same)
  show "setup_step (defaults_step E)"
    by (rule setup_stepI) (auto simp: defaults_step_def alloc_def split: prod.splits if_splits)
  show "setup_step (base_step E)"
    by (rule setup_stepI) (auto simp: base_step_def split: prod.splits)
  show "setup_step (when_given x g)" if "\<And>y. setup_step (g y)"
    by (rule setup_stepI) (auto simp: when_given_def split: option.splits dest: setup_step_set_up [OF that])
qed

lemma default_steps_setup:
  "setup_step (\<lambda>c. do { d \<leftarrow> deref (ldap_defaults c); Some (True, c\<lparr>ldap_defaults := Valid (f d)\<rparr>) })"
  "setup_step (\<lambda>c. do { d \<leftarrow> deref (ldap_defaults c);
                    (case x of
                       None \<Rightarrow> Some (True, c)
                     | Some m \<Rightarrow> let (ok, c1) = alloc E c in
                         Some (ok, c1\<lparr>ldap_defaults := Valid (d\<lparr>sd_mechanism := (if ok then Some m else None)\<rparr>)\<rparr>)) })"
  by (rule setup_stepI; auto elim!: bind_SomeE)
    (rule setup_stepI; auto simp: alloc_def split: option.splits prod.splits elim!: bind_SomeE)

lemma setup_step_cases:
  "setup_step f \<Longrightarrow> setup_step (\<lambda>c. if b then f c else Some (True, c))"
  "setup_step f \<Longrightarrow> setup_step (\<lambda>c. if b then Some (True, c) else f c)"
  "(\<And>x. setup_step (g x)) \<Longrightarrow> setup_step (\<lambda>c. do { x \<leftarrow> m; g x c })"
  by (auto simp: setup_step_def elim!: bind_SomeE)

lemma sasl_steps_setup: "setup_step (sasl_steps E cfg)"
  unfolding sasl_steps_def
  by (intro setup_step_cases run_steps_setup)
    (simp add: option_steps_setup other_steps_setup(1) default_steps_setup)

lemma tls_steps_setup: "setup_step (tls_steps E cfg)"
  unfolding tls_steps_def
  by (intro setup_step_cases run_steps_setup) (simp add: option_steps_setup other_steps_setup)

lemma new_table_same: "new_table E c = (h, c') \<Longrightarrow> same_but_world c c'"
  by (auto simp: new_table_def split: prod.splits)

lemma same_but_world_upd: "same_but_world a (b\<lparr>world := w\<rparr>) = same_but_world a b"
proof
  assume "same_but_world a (b\<lparr>world := w\<rparr>)"
  then obtain v where "b\<lparr>world := w\<rparr> = a\<lparr>world := v\<rparr>" by blast
  then have "b\<lparr>world := w\<rparr>\<lparr>world := world b\<rparr> = a\<lparr>world := v\<rparr>\<lparr>world := world b\<rparr>" by simp
  then show "same_but_world a b" by auto
next
  assume "same_but_world a b"
  then obtain v where "b = a\<lparr>world := v\<rparr>" by blast
  then show "same_but_world a (b\<lparr>world := w\<rparr>)" by auto
qed

lemma ldap_schema_new_same: "ldap_schema_new E ctx c = (s, c') \<Longrightarrow> same_but_world c c'"
  unfolding ldap_schema_new_def Let_def alloc_def new_table_def free_block_def
  by (auto simp: same_but_world_upd split: prod.splits if_splits)

text \<open>\<open>tables_ready\<close>: the request tables as a configuration leaves them.\<close>

definition tables_ready :: "ldap_connection_config \<Rightarrow> ('w, 'h) conn \<Rightarrow> bool" where
  "tables_ready cfg c \<longleftrightarrow>
     conn_inv c \<and> waiting c = [] \<and> n_read_requests c = 0 \<and> n_write_requests c = 0 \<and>
     n_search_requests c = 0 \<and> n_reconnect_attempts c = 0 \<and>
     bind_type c = cfg_bind_type cfg \<and> directory_type c = LDAP_TYPE_UNINITIALIZED"

lemma tables_step_ready:
  assumes "memory_ok E" and "tables_step E cfg c = Some (ok, c')"
  shows "ok" and "tables_ready cfg c'"
    and "set_up c c'"
proof -
  let ?c1 = "c\<lparr>bind_type := cfg_bind_type cfg, directory_type := LDAP_TYPE_UNINITIALIZED\<rparr>"
  obtain s c2 where new: "ldap_schema_new E True ?c1 = (s, c2)" by fastforce
  obtain w where c2: "c2 = ?c1\<lparr>world := w\<rparr>" using ldap_schema_new_same [OF new] by blast
  let ?k = "schema_count c2"
  let ?c3 = "case s of None \<Rightarrow> c2\<lparr>schema := None\<rparr>
                | Some x \<Rightarrow> c2\<lparr>schema := Some ?k, schemas := (schemas c2)(?k \<mapsto> x), schema_count := ?k + 1\<rparr>"
  obtain w4 where a: "alloc E ?c3 = (True, ?c3\<lparr>world := w4\<rparr>)" using memory_ok_alloc [OF assms(1)] by blast
  let ?q = "queue_count ?c3"
  obtain p qs where q: "request_queue_new True ?q 8192 (queues ?c3) = (p, qs)" by fastforce
  let ?pr = "\<lambda>i. if 0 \<le> i \<and> i < MAX_REQUESTS then None else prev qs i"
  have c': "ok" "c' = ?c3\<lparr>world := w4, callqueue := p, queue_count := ?q + 1, queues := qs\<lparr>prev := ?pr\<rparr>,
              n_read_requests := 0, n_write_requests := 0, n_search_requests := 0, n_reconnect_attempts := 0,
              read_requests := ldap_requests_init MAX_REQUESTS (read_requests ?c3),
              write_requests := ldap_requests_init MAX_REQUESTS (write_requests ?c3),
              search_requests := search_requests_init MAX_REQUESTS (search_requests ?c3)\<rparr>"
    using assms(2) unfolding tables_step_def Let_def new prod.case a by (simp_all add: q)
  show "ok" by (rule c'(1))
  have "p = Some ?q" "rq_rep qs ?q []" and cap: "rq_capacity (queue_at qs ?q) = MAX_REQUESTS"
    using request_queue_new_rep [OF q] q by (auto simp: request_queue_new_def)
  then have "rq_rep (qs\<lparr>prev := ?pr\<rparr>) ?q []" by (auto simp: rq_rep_def Let_def)
  note inv = conn_invI [of c' ?q "[]"]
  have "callqueue c' = Some ?q" "queues c' = qs\<lparr>prev := ?pr\<rparr>" using \<open>p = Some ?q\<close> by (simp_all add: c'(2))
  then have "conn_inv c'" "waiting c' = []"
    using inv \<open>rq_rep (qs\<lparr>prev := ?pr\<rparr>) ?q []\<close> cap by (simp_all add: c'(2))
  then show "tables_ready cfg c'"
    by (cases s) (simp_all add: tables_ready_def, simp_all add: c'(2) c2)
  show "set_up c c'"
    using \<open>conn_inv c'\<close> by (cases s) (simp_all add: set_up_def, simp_all add: c'(2) c2)
qed

text \<open>Among the steps that set up the tables is the creation of a schema, whose four tables are empty.\<close>

definition empty_schema :: "('w, 'h) ext \<Rightarrow> 'h ldap_schema \<Rightarrow> bool" where
  "empty_schema E s \<longleftrightarrow> has_tables s \<and>
     (\<forall>k. unbound E (attribute_types_by_oid s) k \<and> unbound E (attribute_types_by_name s) k \<and>
          unbound E (object_classes_by_oid s) k \<and> unbound E (object_classes_by_name s) k)"

definition fresh_schema :: "('w, 'h) ext \<Rightarrow> ('w, 'h) conn \<Rightarrow> bool" where
  "fresh_schema E c \<longleftrightarrow> (\<exists>p s. schema c = Some p \<and> schemas c p = Some s \<and> empty_schema E s)"

lemma new_table_empty:
  assumes "glib_ok E" and "memory_ok E"
  shows "\<exists>t w. new_table E c = (Some t, c\<lparr>world := w\<rparr>) \<and> (\<forall>k. unbound E (Some t) k)"
proof -
  obtain t w where t: "g_hash_table_new E (world c) = (Some t, w)"
    using assms(2) by (metis memory_ok_def not_None_eq prod.exhaust_sel)
  then show ?thesis
    using glib_lookup_new [OF assms(1) t] by (intro exI [of _ t] exI [of _ w]) (simp add: new_table_def unbound_def)
qed

lemma ldap_schema_new_empty:
  assumes "glib_ok E" and "memory_ok E"
  shows "\<exists>s w. ldap_schema_new E True c = (Some s, c\<lparr>world := w\<rparr>) \<and> empty_schema E s"
proof -
  obtain w where a: "alloc E c = (True, c\<lparr>world := w\<rparr>)" using memory_ok_alloc [OF assms(2)] by blast
  note new = new_table_empty [OF assms]
  obtain t1 w1 where 1: "new_table E (c\<lparr>world := w\<rparr>) = (Some t1, c\<lparr>world := w1\<rparr>)" "\<forall>k. unbound E (Some t1) k"
    using new [of "c\<lparr>world := w\<rparr>"] by auto
  obtain t2 w2 where 2: "new_table E (c\<lparr>world := w1\<rparr>) = (Some t2, c\<lparr>world := w2\<rparr>)" "\<forall>k. unbound E (Some t2) k"
    using new [of "c\<lparr>world := w1\<rparr>"] by auto
  obtain t3 w3 where 3: "new_table E (c\<lparr>world := w2\<rparr>) = (Some t3, c\<lparr>world := w3\<rparr>)" "\<forall>k. unbound E (Some t3) k"
    using new [of "c\<lparr>world := w2\<rparr>"] by auto
  obtain t4 w4 where 4: "new_table E (c\<lparr>world := w3\<rparr>) = (Some t4, c\<lparr>world := w4\<rparr>)" "\<forall>k. unbound E (Some t4) k"
    using new [of "c\<lparr>world := w3\<rparr>"] by auto
  show ?thesis
    using 1 2 3 4 by (auto simp: ldap_schema_new_def a empty_schema_def has_tables_def)
qed

lemma tables_step_schema:
  assumes "glib_ok E" and "memory_ok E" and "tables_step E cfg c = Some (ok, c')"
  shows "fresh_schema E c'"
proof -
  let ?c1 = "c\<lparr>bind_type := cfg_bind_type cfg, directory_type := LDAP_TYPE_UNINITIALIZED\<rparr>"
  obtain s w where s: "ldap_schema_new E True ?c1 = (Some s, ?c1\<lparr>world := w\<rparr>)" "empty_schema E s"
    using ldap_schema_new_empty [OF assms(1,2)] by blast
  then show ?thesis
    using assms(3) by (auto simp: tables_step_def fresh_schema_def alloc_def Let_def split: prod.splits)
qed

lemma tables_step_setup: "memory_ok E \<Longrightarrow> setup_step (tables_step E cfg)"
  by (rule setup_stepI, rule tables_step_ready(3))

lemma run_steps_append:
  "run_steps (fs @ gs) c = do { (ok, c1) \<leftarrow> run_steps fs c; if ok then run_steps gs c1 else Some (False, c1) }"
proof (induction fs arbitrary: c)
  case Nil
  then show ?case by simp
next
  case (Cons f fs)
  then show ?case by (cases "f c") (auto split: prod.splits)
qed

lemma last_steps_ready:
  assumes "memory_ok E" and "run_steps (fs @ [tables_step E cfg, base_step E]) c = Some (True, c')"
  shows "tables_ready cfg c'" and "\<exists>b. base c' = Valid b"
proof -
  obtain c1 c2 where t: "tables_step E cfg c1 = Some (True, c2)" and b: "base_step E c2 = Some (True, c')"
    using assms(2) by (auto simp: run_steps_append split: if_splits elim!: bind_SomeE)
  obtain x w where c': "c' = c2\<lparr>world := w, base := Valid x\<rparr>"
    using b by (auto simp: base_step_def split: prod.splits option.splits)
  show "tables_ready cfg c'"
    using tables_step_ready(2) [OF assms(1) t]
    by (simp add: tables_ready_def c' conn_inv_def waiting_def split: option.splits)
  show "\<exists>b. base c' = Valid b" by (simp add: c')
qed

definition configured :: "ldap_connection_config \<Rightarrow> ('w, 'h) conn \<Rightarrow> bool" where
  "configured cfg c \<longleftrightarrow>
     tables_ready cfg c \<and> (\<exists>b. base c = Valid b) \<and> (\<exists>ld. ldap c = Valid ld) \<and>
     config c = Some cfg \<and> \<not> handlers_installed c \<and>
     csm_is_in_state (state_machine c) LDAP_CONNECTION_STATE_INIT c = Some True"

text \<open>The first two steps, when libldap keeps its promise to return a session with \<open>LDAP_SUCCESS\<close>.\<close>

definition sessions_ok :: "('w, 'h) ext \<Rightarrow> bool" where
  "sessions_ok E \<longleftrightarrow> (\<forall>u w. fst (fst (ldap_initialize E u w)) = LDAP_SUCCESS \<longrightarrow> snd (fst (ldap_initialize E u w)) \<noteq> None)"

lemma first_steps:
  assumes "memory_ok E" and "sessions_ok E"
    and "run_steps [initialize_step E cfg, machine_step E] c = Some (ok, c')"
  shows "ok \<longleftrightarrow> fst (fst (ldap_initialize E (server cfg) (world c))) = LDAP_SUCCESS"
    and "ok \<Longrightarrow> state_machine c' = Some (machine_count c) \<and>
      machines c' = (machines c)(machine_count c \<mapsto> LDAP_CONNECTION_STATE_INIT) \<and>
      config c' = Some cfg \<and> \<not> handlers_installed c' \<and> (\<exists>ld. ldap c' = Valid ld)"
    and "\<not> ok \<Longrightarrow> state_machine c' = state_machine c \<and> machines c' = machines c"
    and "conn_inv c' = conn_inv c \<and> read_event c' = read_event c"
proof -
  obtain rc p w where i: "ldap_initialize E (server cfg) (world c) = ((rc, p), w)" by (metis prod.exhaust_sel)
  have p: "rc = LDAP_SUCCESS \<Longrightarrow> p \<noteq> None"
    using assms(2) i unfolding sessions_ok_def by (metis fst_conv snd_conv)
  have "(ok \<longleftrightarrow> fst (fst (ldap_initialize E (server cfg) (world c))) = LDAP_SUCCESS) \<and>
    (ok \<longrightarrow> state_machine c' = Some (machine_count c) \<and>
      machines c' = (machines c)(machine_count c \<mapsto> LDAP_CONNECTION_STATE_INIT) \<and>
      config c' = Some cfg \<and> \<not> handlers_installed c' \<and> (\<exists>ld. ldap c' = Valid ld)) \<and>
    (\<not> ok \<longrightarrow> state_machine c' = state_machine c \<and> machines c' = machines c) \<and>
    conn_inv c' = conn_inv c \<and> read_event c' = read_event c"
  proof (cases "rc = LDAP_SUCCESS")
    case False
    then have "initialize_step E cfg c = Some (False, c\<lparr>world := w, ldap := (case p of None \<Rightarrow> Null | Some ld \<Rightarrow> Valid ld)\<rparr>)"
      using i by (simp add: initialize_step_def)
    then show ?thesis using assms(3) False i by (auto simp: conn_inv_fields)
  next
    case True
    then obtain ld where ld: "p = Some ld" using p by blast
    let ?c = "c\<lparr>world := w, ldap := Valid ld, config := Some cfg, handlers_installed := False, rmech := None\<rparr>"
    have 1: "initialize_step E cfg c = Some (True, ?c)"
      using i True ld by (simp add: initialize_step_def)
    obtain w2 where a: "alloc E ?c = (True, ?c\<lparr>world := w2\<rparr>)" using memory_ok_alloc [OF assms(1)] by blast
    have 2: "machine_step E ?c = Some (True, csm_init (machine_count c)
        (?c\<lparr>world := w2, state_machine := Some (machine_count c), machine_count := machine_count c + 1\<rparr>))"
      unfolding machine_step_def a by (simp add: Let_def)
    show ?thesis using assms(3) True i by (auto simp: 1 2 csm_init_def conn_inv_fields)
  qed
  then show "ok \<longleftrightarrow> fst (fst (ldap_initialize E (server cfg) (world c))) = LDAP_SUCCESS"
    and "ok \<Longrightarrow> state_machine c' = Some (machine_count c) \<and>
      machines c' = (machines c)(machine_count c \<mapsto> LDAP_CONNECTION_STATE_INIT) \<and>
      config c' = Some cfg \<and> \<not> handlers_installed c' \<and> (\<exists>ld. ldap c' = Valid ld)"
    and "\<not> ok \<Longrightarrow> state_machine c' = state_machine c \<and> machines c' = machines c"
    and "conn_inv c' = conn_inv c \<and> read_event c' = read_event c" by blast+
qed

text \<open>The other two groups of steps.\<close>

lemma option_steps_frame: "setup_step (option_steps E cfg)"
  unfolding option_steps_def using setup_step_cases(1) [OF option_steps_setup(2)]
  by (intro run_steps_setup) (auto simp: option_steps_setup)

lemma resource_steps_frame: "memory_ok E \<Longrightarrow> setup_step (resource_steps E cfg)"
  unfolding resource_steps_def
  by (rule run_steps_setup) (simp add: other_steps_setup sasl_steps_setup tls_steps_setup tables_step_setup)

lemma resource_steps_ready:
  "memory_ok E \<Longrightarrow> resource_steps E cfg c = Some (True, c') \<Longrightarrow> tables_ready cfg c' \<and> (\<exists>b. base c' = Valid b)"
  unfolding resource_steps_def
  using last_steps_ready [of E "[defaults_step E, sasl_steps E cfg, tls_steps E cfg]" cfg c c']
  by (simp del: run_steps.simps)

text \<open>
  The three ways a configuration ends: before there is a session, between the session and the end, at
  the end, where only the release of the temporary context can still fail.
\<close>

lemma configure_last_stage:
  assumes "memory_ok E" and "resource_steps E cfg c2 = Some (ok, c3)" and "free_block E c3 = (freed, c4)"
    and "state_machine c2 = Some m" and "machines c2 m = Some LDAP_CONNECTION_STATE_INIT"
    and "config c2 = Some cfg" and "\<not> handlers_installed c2" and "\<exists>ld. ldap c2 = Valid ld"
  shows "(if ok then configured cfg c4 \<and> state_machine c4 = Some m
          else state_machine (drop_defaults (drop_machine m c4)) = Some m \<and>
            machines (drop_defaults (drop_machine m c4)) m = None)"
proof -
  note f = setup_stepD [OF resource_steps_frame [OF assms(1)] assms(2)]
  obtain v where c4: "c4 = c3\<lparr>world := v\<rparr>"
    using assms(3) by (auto simp: free_block_def split: prod.splits)
  show ?thesis
  proof (cases ok)
    case False
    then show ?thesis using f assms(4) by (simp add: drop_defaults_def drop_machine_def c4)
  next
    case True
    then show ?thesis
      using resource_steps_ready [OF assms(1), of cfg c2 c3] assms(2) f assms(4-8)
      by (auto simp: configured_def tables_ready_def c4 csm_is_in_state_def)
  qed
qed

lemma connection_configure_cases:
  assumes "memory_ok E" and "sessions_ok E" and conf: "connection_configure E (Some cfg) c = Some (rc, c')"
  obtains (session) "rc = RETURN_CODE_FAILURE" and "state_machine c' = state_machine c"
  | (failed) "rc = RETURN_CODE_FAILURE" and "state_machine c' = Some (machine_count c)"
      and "machines c' (machine_count c) = None"
  | (finished) freed w where "rc = (if freed then RETURN_CODE_SUCCESS else RETURN_CODE_FAILURE)"
      and "freed = fst (talloc_free E w)" and "configured cfg c'"
      and "state_machine c' = Some (machine_count c)"
proof -
  obtain w where a: "alloc E c = (True, c\<lparr>world := w\<rparr>)" using memory_ok_alloc [OF assms(1)] by blast
  let ?m = "machine_count c"
  have drop: "state_machine (drop_machine ?m (snd (free_block E x))) = state_machine x"
    "machines (drop_machine ?m (snd (free_block E x))) ?m = None" for x :: "('a, 'b) conn"
    by (auto simp: drop_machine_def free_block_def split: prod.splits)
  obtain ok1 c1 where 1: "run_steps [initialize_step E cfg, machine_step E] (c\<lparr>world := w\<rparr>) = Some (ok1, c1)"
    using conf unfolding connection_configure_def a Let_def
    by (auto simp del: run_steps.simps elim!: bind_SomeE)
  note run = conf [unfolded connection_configure_def a Let_def prod.case bind.bind_lunit 1]
  show thesis
  proof (cases ok1)
    case False
    have "state_machine c1 = state_machine c"
      using first_steps(3) [OF assms(1,2) 1 False] by simp
    then show thesis using session run False drop(1) [of c1] by simp
  next
    case True
    note f1 = first_steps(2) [OF assms(1,2) 1 True]
    obtain ok2 c2 where 2: "option_steps E cfg c1 = Some (ok2, c2)"
      using run True by (auto elim!: bind_SomeE)
    note f2 = setup_stepD [OF option_steps_frame 2]
    show thesis
    proof (cases ok2)
      case False
      then show thesis using failed run True 2 f1 f2 drop [of c2] by simp
    next
      case ok2: True
      obtain ok3 c3 where 3: "resource_steps E cfg c2 = Some (ok3, c3)"
        using run True 2 ok2 by (auto elim!: bind_SomeE)
      obtain freed c4 where 4: "free_block E c3 = (freed, c4)" by fastforce
      have "freed = fst (talloc_free E (world c3))"
        using 4 by (auto simp: free_block_def split: prod.splits)
      moreover have "(if ok3 then configured cfg c4 \<and> state_machine c4 = Some ?m
          else state_machine (drop_defaults (drop_machine ?m c4)) = Some ?m \<and>
            machines (drop_defaults (drop_machine ?m c4)) ?m = None)"
        by (rule configure_last_stage [OF assms(1) 3 4]) (use f1 f2 in simp_all)
      ultimately show thesis
        using failed finished run True 2 ok2 3 4 by (cases ok3) auto
    qed
  qed
qed

lemma configured_after:
  assumes "memory_ok E" and "sessions_ok E"
    and "connection_configure E (Some cfg) c = Some (RETURN_CODE_SUCCESS, c')"
  shows "configured cfg c'" and "state_machine c' = Some (machine_count c)"
  using assms by (auto elim!: connection_configure_cases)

lemma connection_configure_last:
  assumes "memory_ok E" and "sessions_ok E"
    and conf: "connection_configure E (Some cfg) c = Some (RETURN_CODE_SUCCESS, c')"
  obtains c2 c3 w where "resource_steps E cfg c2 = Some (True, c3)" and "c' = c3\<lparr>world := w\<rparr>"
proof -
  obtain w where a: "alloc E c = (True, c\<lparr>world := w\<rparr>)" using memory_ok_alloc [OF assms(1)] by blast
  from conf [unfolded connection_configure_def a Let_def prod.case bind.bind_lunit] show thesis
    using that
    by (auto simp: free_block_def simp del: run_steps.simps split: prod.splits if_splits elim!: bind_SomeE)
qed

text \<open>With tables as documented, the schema of a configured connection is empty.\<close>

lemma configured_schema:
  assumes "glib_ok E" and "memory_ok E" and "sessions_ok E"
    and "connection_configure E (Some cfg) c = Some (RETURN_CODE_SUCCESS, c')"
  shows "fresh_schema E c'"
proof -
  obtain c2 c3 w where 3: "resource_steps E cfg c2 = Some (True, c3)" "c' = c3\<lparr>world := w\<rparr>"
    by (rule connection_configure_last [OF assms(2-4)])
  have "resource_steps E cfg = run_steps ([defaults_step E, sasl_steps E cfg, tls_steps E cfg] @ [tables_step E cfg, base_step E])"
    by (simp add: resource_steps_def)
  with 3(1) obtain d1 d2 where t: "tables_step E cfg d1 = Some (True, d2)" and b: "base_step E d2 = Some (True, c3)"
    by (auto simp: run_steps_append simp del: append.simps split: if_splits elim!: bind_SomeE)
  have "fresh_schema E d2" by (rule tables_step_schema [OF assms(1,2) t])
  then show ?thesis
    using b 3(2) by (auto simp: base_step_def fresh_schema_def split: prod.splits)
qed

lemma connection_configure_keeps:
  assumes "memory_ok E" and "sessions_ok E" and "connection_configure E cfg_ptr c = Some (rc, c')"
  shows "read_event c' = read_event c" and "conn_inv c \<Longrightarrow> conn_inv c'"
proof -
  obtain cfg where cfg: "cfg_ptr = Some cfg"
    using assms(3) by (auto simp: connection_configure_def elim!: bind_SomeE)
  have kept: "read_event x = read_event c \<and> (conn_inv c \<longrightarrow> conn_inv x) \<Longrightarrow>
      read_event (drop_machine m x) = read_event c \<and> (conn_inv c \<longrightarrow> conn_inv (drop_machine m x)) \<and>
      read_event (drop_defaults x) = read_event c \<and> (conn_inv c \<longrightarrow> conn_inv (drop_defaults x)) \<and>
      read_event (snd (free_block E x)) = read_event c \<and> (conn_inv c \<longrightarrow> conn_inv (snd (free_block E x))) \<and>
      read_event (snd (alloc E x)) = read_event c \<and> (conn_inv c \<longrightarrow> conn_inv (snd (alloc E x)))"
    for m and x :: "('a, 'b) conn"
    by (simp add: drop_machine_def drop_defaults_def free_block_def alloc_def conn_inv_fields split: prod.splits)
  obtain w where a: "alloc E c = (True, c\<lparr>world := w\<rparr>)" using memory_ok_alloc [OF assms(1)] by blast
  obtain ok1 c1 where 1: "run_steps [initialize_step E cfg, machine_step E] (c\<lparr>world := w\<rparr>) = Some (ok1, c1)"
    using assms(3) unfolding connection_configure_def a Let_def cfg
    by (auto simp del: run_steps.simps elim!: bind_SomeE)
  note run = assms(3) [unfolded connection_configure_def a Let_def prod.case cfg bind.bind_lunit 1]
  have k1: "read_event c1 = read_event c \<and> (conn_inv c \<longrightarrow> conn_inv c1)"
    using first_steps(4) [OF assms(1,2) 1] by simp
  have "read_event c' = read_event c \<and> (conn_inv c \<longrightarrow> conn_inv c')"
  proof (cases ok1)
    case False
    then show ?thesis using run kept kept [OF k1] by auto
  next
    case True
    then obtain ok2 c2 where 2: "option_steps E cfg c1 = Some (ok2, c2)"
      using run by (auto elim!: bind_SomeE)
    have k2: "read_event c2 = read_event c \<and> (conn_inv c \<longrightarrow> conn_inv c2)"
      using k1 setup_stepD(6,7) [OF option_steps_frame 2] by simp
    show ?thesis
    proof (cases ok2)
      case False
      then show ?thesis using run True 2 kept kept [OF k2] by auto
    next
      case ok2: True
      obtain ok3 c3 where 3: "resource_steps E cfg c2 = Some (ok3, c3)"
        using run True 2 ok2 by (auto elim!: bind_SomeE)
      have k3: "read_event c3 = read_event c \<and> (conn_inv c \<longrightarrow> conn_inv c3)"
        using k2 setup_stepD(6,7) [OF resource_steps_frame [OF assms(1)] 3] by simp
      obtain freed c4 where 4: "free_block E c3 = (freed, c4)" by fastforce
      then have k4: "read_event c4 = read_event c \<and> (conn_inv c \<longrightarrow> conn_inv c4)"
        using kept [OF k3] by simp
      have "c' = c4 \<or> c' = drop_defaults (drop_machine (machine_count c) c4)"
        using run True 2 ok2 3 4 by (cases ok3) auto
      then show ?thesis using k4 kept [of "drop_machine (machine_count c) c4"] kept [OF k4] by blast
    qed
  qed
  then show "read_event c' = read_event c" and "conn_inv c \<Longrightarrow> conn_inv c'" by blast+
qed


text \<open>
  A configuration that fails after the session was initialised frees the new state machine with its
  temporary context and leaves the connection pointing to it: every later use of the machine is undefined.
\<close>

theorem configure_failure_dangles:
  assumes "memory_ok E" and "sessions_ok E" and "\<And>w. fst (talloc_free E w)"
    and "connection_configure E (Some cfg) c = Some (RETURN_CODE_FAILURE, c')"
    and "state_machine c' \<noteq> state_machine c"
  shows "state_machine c' = Some (machine_count c) \<and> csm_is_in_state (state_machine c') st c' = None \<and>
    csm_set_state (state_machine c') st c' = None"
  using assms(1,2,4)
proof (cases rule: connection_configure_cases)
  case session
  then show ?thesis using assms(5) by simp
next
  case failed
  then show ?thesis by (simp add: csm_is_in_state_def csm_set_state_def)
next
  case (finished freed)
  then show ?thesis using assms(3) by auto
qed

definition demo_config :: ldap_connection_config where
  "demo_config = \<lparr>server = Some ''ldap://dc'', protocol_verion = 3, chase_referrals = False, use_start_tls = False,
     cfg_use_sasl = False, cfg_bind_type = BIND_TYPE_SIMPLE, sasl_options = None, tls_ca_cert_file = None,
     tls_ca_cert_path = None, tls_cert_file = None, tls_key_file = None, search_timelimit = 0, network_timeout = 0\<rparr>"

lemma demo_sessions_ok [simp]: "sessions_ok demo_ext"
  by (simp add: sessions_ok_def)

lemma demo_config_sel [simp]:
  "search_timelimit demo_config = 0" "use_start_tls demo_config = False" "cfg_use_sasl demo_config = False"
  by (simp_all add: demo_config_def)

definition demo_started :: "(demo_world, demo_table) conn" where
  "demo_started = csm_init 1 (demo_conn\<lparr>ldap := Valid 1, config := Some demo_config, handlers_installed := False,
      rmech := None, state_machine := Some 1, machine_count := 2\<rparr>)"

lemma demo_first_steps:
  "run_steps [initialize_step demo_ext demo_config, machine_step demo_ext] demo_conn = Some (True, demo_started)"
  by (simp add: initialize_step_def machine_step_def csm_init_def demo_started_def demo_conn_def)

lemma demo_started_ldap [simp]: "ldap demo_started = Valid 1"
  by (simp add: demo_started_def csm_init_def)

lemma demo_configure_any:
  fixes c :: "(demo_world, demo_table) conn"
  shows "\<exists>c'. connection_configure demo_ext (Some demo_config) c = Some (RETURN_CODE_SUCCESS, c') \<and>
    machines c' = (machines c)(machine_count c \<mapsto> LDAP_CONNECTION_STATE_INIT)"
proof -
  obtain s where s: "s = csm_init (machine_count c) (c\<lparr>ldap := Valid 1, config := Some demo_config, handlers_installed := False,
      rmech := None, state_machine := Some (machine_count c), machine_count := machine_count c + 1\<rparr>)" by blast
  have so: "set_option demo_ext opt v x = Some (True, x)" if "ldap x = Valid ld" for opt v ld and x :: "(demo_world, demo_table) conn"
    using that by (simp add: set_option_def with_ldap_def)
  have st: "set_timeout demo_ext opt us x = Some (True, x)" if "ldap x = Valid ld" for opt us ld and x :: "(demo_world, demo_table) conn"
    using that by (simp add: set_timeout_def connection_microseconds_to_timeval_def so)
  have tb: "\<exists>y. tables_step demo_ext demo_config x = Some (True, y)" for x :: "(demo_world, demo_table) conn"
    by (simp add: tables_step_def Let_def split: prod.splits)
  have 1: "run_steps [initialize_step demo_ext demo_config, machine_step demo_ext] c = Some (True, s)"
    by (simp add: s initialize_step_def machine_step_def Let_def csm_init_def)
  have ld: "ldap s = Valid 1" by (simp add: s csm_init_def)
  obtain c1 where d: "defaults_step demo_ext s = Some (True, c1)"
    by (simp add: defaults_step_def)
  obtain c2 where t: "tables_step demo_ext demo_config c1 = Some (True, c2)" using tb by blast
  have "machines c2 = machines s"
    using setup_stepD(2) [OF other_steps_setup(2) d] setup_stepD(2) [OF tables_step_setup t] by simp
  moreover have 2: "option_steps demo_ext demo_config s = Some (True, s)"
    by (simp add: option_steps_def so [OF ld] st [OF ld])
  moreover have "resource_steps demo_ext demo_config s = Some (True, c2\<lparr>base := Valid 0\<rparr>)"
    by (simp add: resource_steps_def d t sasl_steps_def tls_steps_def base_step_def)
  ultimately show ?thesis
    by (simp add: connection_configure_def Let_def 1 del: run_steps.simps) (simp add: s csm_init_def)
qed

lemma demo_configure: "\<exists>c'. connection_configure demo_ext (Some demo_config) demo_conn = Some (RETURN_CODE_SUCCESS, c')"
  using demo_configure_any by blast


lemma configure_failure_dangles_witness:
  "\<exists>c'. connection_configure (demo_ext\<lparr>ldap_set_option := \<lambda>_ _ _ w. (1, w)\<rparr>) (Some demo_config) demo_conn =
     Some (RETURN_CODE_FAILURE, c') \<and> csm_is_in_state (state_machine c') LDAP_CONNECTION_STATE_INIT c' = None"
proof -
  let ?E = "demo_ext\<lparr>ldap_set_option := \<lambda>_ _ _ w. (1, w)\<rparr>"
  have al: "alloc ?E c = (True, c)" "free_block ?E c = (True, c)" for c :: "(demo_world, demo_table) conn"
    by (simp_all add: alloc_def free_block_def)
  have ok: "memory_ok ?E" "sessions_ok ?E" "fst (talloc_free ?E w)" for w
    by (simp_all add: memory_ok_def sessions_ok_def)
  have 1: "run_steps [initialize_step ?E demo_config, machine_step ?E] demo_conn = Some (True, demo_started)"
    using demo_first_steps by (simp add: initialize_step_def machine_step_def al)
  have "option_steps ?E demo_config demo_started = Some (False, demo_started)"
    by (simp add: option_steps_def set_timeout_def connection_microseconds_to_timeval_def al set_option_def with_ldap_def)
  then have "connection_configure ?E (Some demo_config) demo_conn =
      Some (RETURN_CODE_FAILURE, drop_machine 1 demo_started)"
    by (simp add: connection_configure_def 1 al del: run_steps.simps) (simp add: demo_conn_def)
  moreover have "state_machine (drop_machine 1 demo_started) \<noteq> state_machine demo_conn"
    by (simp add: drop_machine_def demo_started_def csm_init_def demo_conn_def)
  ultimately show ?thesis
    using configure_failure_dangles [of ?E demo_config demo_conn "drop_machine 1 demo_started"] ok by blast
qed

section \<open>Closing a connection\<close>

text \<open>
  Closing a connection with installed handlers deletes both events and frees the SASL defaults; it frees
  the event base and unbinds the session except in the state ERROR, where both stay. The event fields keep
  the addresses of the deleted events, so that closing a second time is undefined.
\<close>

theorem connection_close_releases:
  assumes "ldap_defaults c = Valid d" and "read_event c = Valid r" and "write_event c = Valid wr"
    and "csm_is_in_state (state_machine c) LDAP_CONNECTION_STATE_ERROR c = Some erroneous"
    and "base c = Valid b" and "ldap c = Valid ld" and "\<And>w. fst (talloc_free E w)"
  shows "\<exists>c'. connection_close E c = Some (RETURN_CODE_SUCCESS, c') \<and> ldap_defaults c' = Null \<and>
    read_event c' = Dangling \<and> write_event c' = Dangling \<and>
    (if erroneous then ldap c' = Valid ld \<and> base c' = Valid b else ldap c' = Dangling \<and> base c' = Dangling) \<and>
    connection_close E c' = None"
proof -
  let ?w = "verto_del E wr (verto_del E r (world c))"
  let ?c1 = "c\<lparr>read_event := Dangling, write_event := Dangling, world := ?w\<rparr>"
  let ?c2 = "if erroneous then ?c1
    else ?c1\<lparr>base := Dangling, world := ldap_unbind E ld (verto_free E b ?w), ldap := Dangling\<rparr>"
  have "\<exists>w'. free_block E x = (True, x\<lparr>world := w'\<rparr>)" for x :: "('a, 'b) conn"
    using assms(7) [of "world x"] by (cases "talloc_free E (world x)") (auto simp: free_block_def)
  then obtain w' where f: "free_block E ?c2 = (True, ?c2\<lparr>world := w'\<rparr>)" by blast
  have "csm_is_in_state (state_machine ?c1) LDAP_CONNECTION_STATE_ERROR ?c1 = Some erroneous"
    using assms(4) by (simp add: csm_is_in_state_def)
  then have "connection_close E c = Some (RETURN_CODE_SUCCESS, ?c2\<lparr>world := w', ldap_defaults := Null\<rparr>)"
    using assms(1-3,5,6) f by (cases erroneous) (simp_all add: connection_close_def close_event_def unbind_def)
  then show ?thesis
    by (intro exI [of _ "?c2\<lparr>world := w', ldap_defaults := Null\<rparr>"])
      (simp add: connection_close_def close_event_def assms)
qed

lemma connection_close_releases_witness:
  "\<exists>c'. connection_close demo_ext demo_ready = Some (RETURN_CODE_SUCCESS, c') \<and> ldap c' = Dangling \<and>
     connection_close demo_ext c' = None"
proof -
  have "read_event demo_ready = Valid 0" "write_event demo_ready = Valid 0"
    by (simp_all add: demo_ready_def demo_conn_def)
  then show ?thesis
    using connection_close_releases [of demo_ready _ 0 0 False 0 1 demo_ext]
    by (auto simp: demo_ready_params csm_is_in_state_def)
qed

end
