(* ===== verification/Event_Loop.thy ===== *)
theory Event_Loop
  imports Connection "HOL-Library.Sublist"
begin

text \<open>
  The event loop of a connection, \<open>connection_on_read\<close> of \<open>src/src/connection.c\<close>: it empties the call
  queue, polls libldap for every request, runs the handlers of answered requests and enqueues the others
  again. The locale \<open>read_handlers\<close> states what the loop asks of the handlers; the handlers of the library
  satisfy it, and so the loop keeps the invariant of the request tables.
\<close>

section \<open>The event loop\<close>

definition connection_optional_transition_on_error :: "('w, 'h) conn \<Rightarrow> ('w, 'h) conn option" where
  "connection_optional_transition_on_error c =
     do { tls \<leftarrow> csm_is_in_state (state_machine c) LDAP_CONNECTION_STATE_TLS_NEGOTIATION c;
          bnd \<leftarrow> csm_is_in_state (state_machine c) LDAP_CONNECTION_STATE_BIND_IN_PROGRESS c;
          if tls \<or> bnd then csm_set_state (state_machine c) LDAP_CONNECTION_STATE_ERROR c else Some c }"

text \<open>
  The loop of \<open>connection_on_read\<close>, with the handlers behind \<open>on_read_operation\<close> given by \<open>dispatch\<close>.
  Every request in the queue is polled once. One without an answer is copied, node included, to the
  local array \<open>pending\<close>. The first component of the result is \<open>False\<close> when the loop was left through
  \<open>error_exit\<close>. Handlers may enqueue further requests, which this loop then polls too.
\<close>

type_synonym ('w, 'h) dispatch =
  "read_operation \<Rightarrow> int \<Rightarrow> ldap_message list \<Rightarrow> ('w, 'h) conn \<Rightarrow> (OperationReturnCode \<times> ('w, 'h) conn) option"

type_synonym pending = "(ldap_request \<times> int option) list"

definition poll_one ::
  "('w, 'h) dispatch \<Rightarrow> ('w, 'h) ext \<Rightarrow> int \<Rightarrow> ('w, 'h) conn \<Rightarrow> pending \<Rightarrow> (bool \<times> ('w, 'h) conn \<times> pending) option"
where
  "poll_one dispatch E i c pend =
     do { let request = read_requests c i;
          ((rc, message), c1) \<leftarrow> with_ldap (\<lambda>ld. ldap_result E ld (req_msgid request)) c;
          if rc = LDAP_RES_ANY then
            do { (code, c2) \<leftarrow> fetch_diagnostics E c1;
                 (case code of
                    None \<Rightarrow> Some (False, c2, pend)
                  | Some _ \<Rightarrow> do { c3 \<leftarrow> connection_optional_transition_on_error c2; Some (True, c3, pend) }) }
          else if rc = LDAP_RES_UNSOLICITED then
            (if int (length pend) < MAX_REQUESTS then Some (True, c1, pend @ [(request, prev (queues c1) i)])
             else None)
          else
            (let c2 = c1\<lparr>conn_msgid := req_msgid request\<rparr> in
             case on_read_operation request of
               None \<Rightarrow> Some (True, c2, pend)
             | Some operation \<Rightarrow> do { (_, c3) \<leftarrow> dispatch operation rc message c2; Some (True, c3, pend) }) }"

partial_function (option) read_loop ::
  "('w, 'h) dispatch \<Rightarrow> ('w, 'h) ext \<Rightarrow> ('w, 'h) conn \<Rightarrow> pending \<Rightarrow> (bool \<times> ('w, 'h) conn \<times> pending) option"
where
  "read_loop dispatch E c pend =
     (if request_queue_empty (callqueue c) (queues c) then Some (True, c, pend)
      else (case request_queue_pop (callqueue c) (queues c) of
              (None, q) \<Rightarrow> Some (True, c\<lparr>queues := q\<rparr>, pend)
            | (Some i, q) \<Rightarrow>
                Option.bind (poll_one dispatch E i (c\<lparr>queues := q\<rparr>) pend)
                  (\<lambda>(continue, c1, pend1).
                     if continue then read_loop dispatch E c1 pend1 else Some (False, c1, pend1))))"

text \<open>Copying the pending requests back to the front of the array and enqueueing them again.\<close>

fun restore_pending :: "int \<Rightarrow> pending \<Rightarrow> ('w, 'h) conn \<Rightarrow> ('w, 'h) conn" where
  "restore_pending i [] c = c"
| "restore_pending i ((request, node) # rest) c =
     (let qs = (queues c)\<lparr>prev := (prev (queues c))(i := node)\<rparr>
      in restore_pending (i + 1) rest
           (c\<lparr>read_requests := (read_requests c)(i := request),
              queues := snd (request_queue_push (callqueue c) (Some i) qs)\<rparr>))"

definition connection_on_read ::
  "('w, 'h) dispatch \<Rightarrow> ('w, 'h) ext \<Rightarrow> ('w, 'h) conn \<Rightarrow> ('w, 'h) conn option" where
  "connection_on_read dispatch E c =
     do { (complete, c1, pend) \<leftarrow> read_loop dispatch E c [];
          if \<not> complete then Some c1
          else Some ((restore_pending 0 pend (c1\<lparr>n_read_requests := 0\<rparr>))\<lparr>n_read_requests := int (length pend)\<rparr>) }"

text \<open>\<open>connection_on_write\<close> does nothing.\<close>

definition connection_on_write :: "('w, 'h) conn \<Rightarrow> ('w, 'h) conn" where
  "connection_on_write c = c"

section \<open>The handlers behind the function pointers\<close>

fun call_read_operation :: "('w, 'h) ext \<Rightarrow> ('w, 'h) dispatch" where
  "call_read_operation E ADD_ON_READ rc m c = add_on_read E rc m c"
| "call_read_operation E MODIFY_ON_READ rc m c = modify_on_read E rc m c"
| "call_read_operation E DELETE_ON_READ rc m c = delete_on_read E rc m c"
| "call_read_operation E RENAME_ON_READ rc m c = rename_on_read E rc m c"
| "call_read_operation E WHOAMI_ON_READ rc m c = whoami_on_read E rc m c"
| "call_read_operation E SEARCH_ON_READ rc m c = search_on_read (call_search_callback E) E rc m c"
| "call_read_operation E BIND_ON_READ rc m c = connection_bind_on_read E rc m c"
| "call_read_operation E START_TLS_ON_READ rc m c = connection_start_tls_on_read E rc m c"
| "call_read_operation E DIRECTORY_PARSE_RESULT rc m c = directory_parse_result E rc m c"

section \<open>What the loop asks of the handlers\<close>

text \<open>
  The contract between the loop and the functions behind \<open>on_read_operation\<close>: with trusted libraries and
  application callbacks, a handler only appends requests in fresh slots.
\<close>

locale read_handlers =
  fixes trusted :: "('w, 'h) ext \<Rightarrow> bool"
    and handlers :: "('w, 'h) ext \<Rightarrow> ('w, 'h) dispatch"
  assumes handler_extends:
    "trusted E \<Longrightarrow> conn_inv c \<Longrightarrow> handlers E op rc m c = Some (r, c') \<Longrightarrow> extends c c'"

text \<open>What waits in a request, and the content of the local array.\<close>

definition request_key :: "ldap_request \<Rightarrow> int \<times> read_operation option" where
  "request_key r = (req_msgid r, on_read_operation r)"

definition keys :: "pending \<Rightarrow> (int \<times> read_operation option) list" where
  "keys pend = map (request_key \<circ> fst) pend"

lemma keys_simps [simp]: "keys [] = []" "keys (p # ps) = request_key (fst p) # keys ps"
  "keys (ps @ qs) = keys ps @ keys qs" "length (keys ps) = length ps"
  by (simp_all add: keys_def)

lemma extends_outstanding:
  assumes "extends c c'" and "conn_inv c"
  shows "\<exists>new. outstanding c' = outstanding c @ new"
proof -
  have "set (waiting c) \<subseteq> {0..<n_read_requests c}" using assms(2) by (rule conn_invE)
  then show ?thesis
    using assms(1) by (auto simp: extends_def outstanding_def request_key_def subset_iff)
qed

lemma extends_length:
  "extends c c' \<Longrightarrow> conn_inv c \<Longrightarrow> int (length (waiting c')) - int (length (waiting c)) = n_read_requests c' - n_read_requests c"
  by (auto simp: extends_def)

text \<open>Taking the oldest request from the queue.\<close>

lemma pop_waiting:
  assumes "conn_inv c" and "waiting c = i # is"
  obtains q where "request_queue_pop (callqueue c) (queues c) = (Some i, q)"
    and "conn_inv (c\<lparr>queues := q\<rparr>)" and "waiting (c\<lparr>queues := q\<rparr>) = is"
    and "\<not> request_queue_empty (callqueue c) (queues c)"
proof -
  obtain p where p: "callqueue c = Some p" "rq_rep (queues c) p (waiting c)"
      "rq_capacity (queue_at (queues c) p) = MAX_REQUESTS" "set (waiting c) \<subseteq> {0..<n_read_requests c}"
      "0 \<le> n_read_requests c" "n_read_requests c \<le> MAX_REQUESTS" "0 \<le> n_search_requests c"
      "n_search_requests c < MAX_REQUESTS"
    using assms(1) by (rule conn_invE)
  obtain r q where pop: "request_queue_pop (Some p) (queues c) = (r, q)" by fastforce
  note r = request_queue_pop_rep_Cons [OF p(2) [unfolded assms(2)] pop]
  have "conn_inv (c\<lparr>queues := q\<rparr>)" "waiting (c\<lparr>queues := q\<rparr>) = is"
    by (rule conn_invI [of _ p "is"]; use p r assms(2) in simp)+
  moreover have "\<not> request_queue_empty (callqueue c) (queues c)"
    using p(1,2) assms(2) by (simp add: request_queue_empty_rep)
  ultimately show thesis using that pop p(1) r(1) by simp
qed

lemma empty_waiting:
  assumes "conn_inv c" and "waiting c = []"
  shows "request_queue_empty (callqueue c) (queues c)"
proof -
  obtain p where "callqueue c = Some p" "rq_rep (queues c) p (waiting c)"
    using assms(1) by (rule conn_invE)
  then show ?thesis using assms(2) by (simp add: request_queue_empty_rep)
qed

lemma outstanding_pop:
  assumes "waiting c = i # is" and "waiting (c\<lparr>queues := q\<rparr>) = is"
  shows "outstanding c = request_key (read_requests c i) # outstanding (c\<lparr>queues := q\<rparr>)"
  using assms by (simp add: outstanding_def request_key_def)

lemma extends_settles: "extends c c' \<Longrightarrow> settles c c'"
  by (simp add: extends_def)

text \<open>
  \<open>steady E waits\<close>: libldap answers every request but those \<open>waits\<close> holds of, and never with an error.
\<close>

definition steady :: "('w, 'h) ext \<Rightarrow> (int \<Rightarrow> bool) \<Rightarrow> bool" where
  "steady E waits \<longleftrightarrow> (\<forall>ld m w.
     fst (fst (ldap_result E ld m w)) \<noteq> LDAP_RES_ANY \<and>
     (fst (fst (ldap_result E ld m w)) = LDAP_RES_UNSOLICITED \<longleftrightarrow> waits m))"

text \<open>\<open>diagnostics_ok E\<close>: after an error libldap reports its code and message.\<close>

definition diagnostics_ok :: "('w, 'h) ext \<Rightarrow> bool" where
  "diagnostics_ok E \<longleftrightarrow>
     (\<forall>ld w. fst (fst (ldap_get_int_option E ld LDAP_OPT_RESULT_CODE w)) = LDAP_OPT_SUCCESS) \<and>
     (\<forall>ld w. fst (fst (ldap_get_string_option E ld LDAP_OPT_DIAGNOSTIC_MESSAGE w)) = LDAP_OPT_SUCCESS)"

lemma diagnostics_ok_fetch:
  assumes "diagnostics_ok E" and "fetch_diagnostics E c = Some (code, c')"
  shows "code \<noteq> None"
proof -
  have "rc = LDAP_OPT_SUCCESS" if "ldap_get_int_option E ld LDAP_OPT_RESULT_CODE w = ((rc, x), w')" for ld w rc x w'
    using assms(1) that unfolding diagnostics_ok_def by (metis fst_conv)
  moreover have "rc = LDAP_OPT_SUCCESS" if "ldap_get_string_option E ld LDAP_OPT_DIAGNOSTIC_MESSAGE w = ((rc, x), w')" for ld w rc x w'
    using assms(1) that unfolding diagnostics_ok_def by (metis fst_conv)
  ultimately show ?thesis
    using assms(2) by (auto simp: fetch_diagnostics_def with_ldap_def split: prod.splits if_splits elim!: bind_SomeE)
qed

lemma csm_set_state_answers:
  assumes "csm_set_state m st c = Some c'"
    and "st \<in> {LDAP_CONNECTION_STATE_BOUND, LDAP_CONNECTION_STATE_ERROR, LDAP_CONNECTION_STATE_TRANSPORT_READY}"
  shows "same_tables c c'"
  using assms by (auto simp: csm_set_state_def same_tables_def settles_def split: if_splits elim!: bind_SomeE)

lemma csm_set_state_tables:
  "csm_set_state m LDAP_CONNECTION_STATE_BOUND c = Some c' \<Longrightarrow> same_tables c c'"
  "csm_set_state m LDAP_CONNECTION_STATE_ERROR c = Some c' \<Longrightarrow> same_tables c c'"
  "csm_set_state m LDAP_CONNECTION_STATE_TRANSPORT_READY c = Some c' \<Longrightarrow> same_tables c c'"
  by (simp_all add: csm_set_state_answers)

lemma optional_transition_tables: "connection_optional_transition_on_error c = Some c' \<Longrightarrow> same_tables c c'"
  by (auto simp: connection_optional_transition_on_error_def split: if_splits
      elim!: bind_SomeE dest: csm_set_state_tables)

lemma fetch_diagnostics_same: "fetch_diagnostics E c = Some (r, c') \<Longrightarrow> same_but_world c c'"
  by (auto simp: fetch_diagnostics_def split: if_splits elim!: bind_SomeE
      dest!: with_ldap_same intro: same_but_world_trans)

context read_handlers
begin

lemma poll_one_step:
  assumes "trusted E" and "conn_inv c" and "poll_one (handlers E) E i c pend = Some (go, c', pend')"
  shows "extends c c'"
    and "pend' = pend \<or> (\<exists>node. pend' = pend @ [(read_requests c i, node)])"
    and "diagnostics_ok E \<Longrightarrow> go"
    and "steady E waits \<Longrightarrow> go \<and>
      keys pend' = keys pend @ (if waits (req_msgid (read_requests c i)) then [request_key (read_requests c i)] else [])"
proof -
  let ?r = "read_requests c i"
  obtain rc m c1 where poll: "with_ldap (\<lambda>ld. ldap_result E ld (req_msgid ?r)) c = Some ((rc, m), c1)"
    using assms(3) by (auto simp: poll_one_def Let_def elim!: bind_SomeE)
  then obtain ld where ld: "fst (ldap_result E ld (req_msgid ?r) (world c)) = (rc, m)"
    unfolding with_ldap_def by (elim bind_SomeE) (auto split: prod.splits, metis fst_conv)
  have t1: "same_tables c c1" by (rule same_but_world_tables [OF with_ldap_same [OF poll]])
  have e1: "extends c c1" by (rule extends_same_tables [OF assms(2) t1])
  have s: "rc \<noteq> LDAP_RES_ANY \<and> (rc = LDAP_RES_UNSOLICITED \<longleftrightarrow> waits (req_msgid ?r))" if "steady E waits"
    using that ld unfolding steady_def by (metis fst_conv)
  consider (error) "rc = LDAP_RES_ANY" | (pending) "rc = LDAP_RES_UNSOLICITED"
    | (answer) "rc \<noteq> LDAP_RES_ANY" "rc \<noteq> LDAP_RES_UNSOLICITED" by blast
  then have "extends c c' \<and> (pend' = pend \<or> (\<exists>node. pend' = pend @ [(?r, node)])) \<and> (diagnostics_ok E \<longrightarrow> go) \<and>
      (steady E waits \<longrightarrow> go \<and> keys pend' = keys pend @ (if waits (req_msgid ?r) then [request_key ?r] else []))"
  proof cases
    case error
    obtain code c2 where d: "fetch_diagnostics E c1 = Some (code, c2)"
      using assms(3) poll error by (auto simp: poll_one_def Let_def elim!: bind_SomeE)
    have t2: "same_tables c c2"
      using t1 same_but_world_tables [OF fetch_diagnostics_same [OF d]] same_tables_trans by blast
    have "same_tables c c' \<and> pend' = pend \<and> (diagnostics_ok E \<longrightarrow> go)"
      using assms(3) poll error d t2 same_tables_trans [OF t2 optional_transition_tables] diagnostics_ok_fetch [OF _ d]
      by (cases code) (auto simp: poll_one_def Let_def elim!: bind_SomeE)
    then show ?thesis using error s extends_same_tables [OF assms(2)] by auto
  next
    case pending
    then show ?thesis
      using assms(3) poll e1 s by (auto simp: poll_one_def Let_def split: if_splits)
  next
    case answer
    let ?c2 = "c1\<lparr>conn_msgid := req_msgid ?r\<rparr>"
    have "same_tables c ?c2" using t1 by (simp add: same_tables_def)
    then have e2: "extends c ?c2" by (rule extends_same_tables [OF assms(2)])
    have h: "extends ?c2 x" if "handlers E op rc m ?c2 = Some (y, x)" for op x y
      by (rule handler_extends [OF assms(1) extends_inv [OF e2] that])
    have "extends c c' \<and> pend' = pend \<and> go"
      using assms(3) poll answer e2 h extends_trans [OF e2]
      by (cases "on_read_operation ?r") (auto simp: poll_one_def Let_def elim!: bind_SomeE)
    then show ?thesis using answer s by auto
  qed
  then show "extends c c'"
    and "pend' = pend \<or> (\<exists>node. pend' = pend @ [(?r, node)])"
    and "diagnostics_ok E \<Longrightarrow> go"
    and "steady E waits \<Longrightarrow> go \<and> keys pend' = keys pend @ (if waits (req_msgid ?r) then [request_key ?r] else [])"
    by blast+
qed

end

text \<open>
  The invariant of the loop: the connection keeps its life, what was requeued so far and what still waits has room in the array, and the
  requests kept are a subsequence of the requests there were; with steady answers exactly those that wait.
\<close>

definition loop_ok ::
  "('w, 'h) ext \<Rightarrow> (int \<Rightarrow> bool) \<Rightarrow> ('w, 'h) conn \<Rightarrow> pending \<Rightarrow> bool \<times> ('w, 'h) conn \<times> pending \<Rightarrow> bool" where
  "loop_ok E waits c pend res \<longleftrightarrow>
     (case res of (go, c', pend') \<Rightarrow>
        conn_inv c' \<and> settles c c' \<and>
        int (length pend' + length (waiting c')) \<le> n_read_requests c' \<and> (go \<longrightarrow> waiting c' = []) \<and>
        (diagnostics_ok E \<longrightarrow> go) \<and> (\<exists>new. subseq (keys pend') (keys pend @ outstanding c @ new) \<and>
           (steady E waits \<longrightarrow> go \<and> keys pend' = keys pend @ filter (waits \<circ> fst) (outstanding c @ new))))"

lemma loop_ok_stop:
  assumes "conn_inv c" and "int (length pend + length (waiting c)) \<le> n_read_requests c" and "waiting c = []"
  shows "loop_ok E waits c pend (True, c, pend)"
  using assms by (auto simp: loop_ok_def outstanding_def intro!: exI [of _ "[]"])

lemma loop_ok_step:
  assumes head: "outstanding c = k # outstanding c1"
    and new: "outstanding c2 = outstanding c1 @ new"
    and pend: "keys pend2 = keys pend \<or> keys pend2 = keys pend @ [k]"
    and exact: "steady E waits \<Longrightarrow> keys pend2 = keys pend @ (if waits (fst k) then [k] else [])"
    and life: "settles c c2"
    and rest: "loop_ok E waits c2 pend2 res"
  shows "loop_ok E waits c pend res"
proof -
  obtain go c' pend' where res: "res = (go, c', pend')" by (cases res)
  obtain new' where n: "subseq (keys pend') (keys pend2 @ outstanding c2 @ new')"
      "steady E waits \<longrightarrow> go \<and> keys pend' = keys pend2 @ filter (waits \<circ> fst) (outstanding c2 @ new')"
    using rest by (auto simp: loop_ok_def res)
  have "subseq (keys pend2) (keys pend @ [k])" using pend by (auto intro: subseq_rev_drop_many)
  then have "subseq (keys pend2 @ outstanding c2 @ new') ((keys pend @ [k]) @ outstanding c2 @ new')"
    by (rule list_emb_append_mono) simp
  then have "subseq (keys pend') (keys pend @ outstanding c @ new @ new')"
    using subseq_order.trans [OF n(1)] by (simp add: head new)
  moreover have "steady E waits \<longrightarrow> go \<and> keys pend' = keys pend @ filter (waits \<circ> fst) (outstanding c @ new @ new')"
    using n(2) exact by (simp add: head new)
  ultimately show ?thesis
    using rest settles_trans [OF life] unfolding loop_ok_def res by auto
qed

context read_handlers
begin

text \<open>One round of the loop.\<close>

lemma read_round_ok:
  assumes "trusted E" and inv: "conn_inv c" and room: "int (length pend + length (waiting c)) \<le> n_read_requests c"
    and w: "waiting c = i # is" "waiting (c\<lparr>queues := q\<rparr>) = is" and inv1: "conn_inv (c\<lparr>queues := q\<rparr>)"
    and poll: "poll_one (handlers E) E i (c\<lparr>queues := q\<rparr>) pend = Some (go, c2, pend2)"
    and next_round: "go \<Longrightarrow> conn_inv c2 \<Longrightarrow> int (length pend2 + length (waiting c2)) \<le> n_read_requests c2 \<Longrightarrow>
      loop_ok E waits c2 pend2 res"
    and stop: "\<not> go \<Longrightarrow> res = (False, c2, pend2)"
  shows "loop_ok E waits c pend res"
proof -
  let ?c1 = "c\<lparr>queues := q\<rparr>"
  let ?k = "request_key (read_requests ?c1 i)"
  have head: "outstanding c = ?k # outstanding ?c1" using outstanding_pop [OF w] by simp
  note step = poll_one_step [OF assms(1) inv1 poll]
  obtain new where new: "outstanding c2 = outstanding ?c1 @ new"
    using extends_outstanding [OF step(1) inv1] by blast
  have pend2: "keys pend2 = keys pend \<or> keys pend2 = keys pend @ [?k]"
    using step(2) by auto
  have exact: "keys pend2 = keys pend @ (if waits (fst ?k) then [?k] else [])" if "steady E waits"
    using step(4) [OF that] by (simp add: request_key_def)
  have inv2: "conn_inv c2" and room2: "int (length pend2 + length (waiting c2)) \<le> n_read_requests c2"
    using extends_inv [OF step(1)] extends_length [OF step(1) inv1] step(2) room w by auto
  have "loop_ok E waits c2 pend2 res"
  proof (cases go)
    case True
    then show ?thesis by (rule next_round [OF _ inv2 room2])
  next
    case False
    then have "\<not> steady E waits \<and> \<not> diagnostics_ok E" using step(3,4) by blast
    then show ?thesis using stop [OF False] inv2 room2 by (auto simp: loop_ok_def intro!: exI [of _ "[]"])
  qed
  then show ?thesis
    using loop_ok_step [of c ?k ?c1 c2 new pend2 pend E waits res] head new pend2 exact
      extends_settles [OF step(1)] by (metis settles_upd(12))
qed

lemma read_loop_ok:
  assumes "trusted E" and "conn_inv c" and "int (length pend + length (waiting c)) \<le> n_read_requests c"
    and "read_loop (handlers E) E c pend = Some res"
  shows "loop_ok E waits c pend res"
proof -
  let ?P = "\<lambda>d E' c pend res. d = handlers E \<and> E' = E \<longrightarrow> conn_inv c \<longrightarrow>
      int (length pend + length (waiting c)) \<le> n_read_requests c \<longrightarrow> loop_ok E waits c pend res"
  have "?P (handlers E) E c pend res"
  proof (rule read_loop.raw_induct [OF _ assms(4), where P = ?P], intro impI, elim conjE)
    fix loop :: "('w, 'h) dispatch \<Rightarrow> ('w, 'h) ext \<Rightarrow> ('w, 'h) conn \<Rightarrow> pending \<Rightarrow> (bool \<times> ('w, 'h) conn \<times> pending) option"
      and d E' and c :: "('w, 'h) conn" and pend res
    assume IH: "\<And>d E' c pend y. loop d E' c pend = Some y \<Longrightarrow> ?P d E' c pend y"
      and body: "(if request_queue_empty (callqueue c) (queues c) then Some (True, c, pend)
          else case request_queue_pop (callqueue c) (queues c) of
              (None, q) \<Rightarrow> Some (True, c\<lparr>queues := q\<rparr>, pend)
            | (Some i, q) \<Rightarrow>
                Option.bind (poll_one d E' i (c\<lparr>queues := q\<rparr>) pend)
                  (\<lambda>(continue, c1, pend1).
                     if continue then loop d E' c1 pend1 else Some (False, c1, pend1))) = Some res"
      and args: "d = handlers E" "E' = E"
      and inv: "conn_inv c" and room: "int (length pend + length (waiting c)) \<le> n_read_requests c"
    show "loop_ok E waits c pend res"
    proof (cases "waiting c")
      case Nil
      then show ?thesis
        using body loop_ok_stop [OF inv room Nil] empty_waiting [OF inv Nil] by auto
    next
      case (Cons i js)
      obtain q where pop: "request_queue_pop (callqueue c) (queues c) = (Some i, q)"
        and inv1: "conn_inv (c\<lparr>queues := q\<rparr>)" and w1: "waiting (c\<lparr>queues := q\<rparr>) = js"
        and ne: "\<not> request_queue_empty (callqueue c) (queues c)"
        by (rule pop_waiting [OF inv Cons])
      obtain go c2 pend2 where poll: "poll_one (handlers E) E i (c\<lparr>queues := q\<rparr>) pend = Some (go, c2, pend2)"
        and rest: "(if go then loop (handlers E) E c2 pend2 else Some (False, c2, pend2)) = Some res"
        using body ne pop args by (auto elim!: bind_SomeE)
      show ?thesis
        using rest IH [of "handlers E" E c2 pend2 res]
        by (intro read_round_ok [OF assms(1) inv room Cons w1 inv1 poll]) simp_all
    qed
  qed
  then show ?thesis using assms(2,3) by blast
qed

end

section \<open>Requeueing\<close>

lemma restore_pending_frame:
  "callqueue (restore_pending i pend c) = callqueue c" "n_read_requests (restore_pending i pend c) = n_read_requests c"
  "n_search_requests (restore_pending i pend c) = n_search_requests c"
  "search_requests (restore_pending i pend c) = search_requests c" "ldap (restore_pending i pend c) = ldap c"
  "state_machine (restore_pending i pend c) = state_machine c" "machines (restore_pending i pend c) = machines c"
  by (induction i pend c rule: restore_pending.induct) (simp_all add: Let_def)

lemma restore_pending_queue:
  assumes "callqueue c = Some p" and "rq_rep (queues c) p xs" and "rq_capacity (queue_at (queues c) p) = MAX_REQUESTS"
    and "set xs \<subseteq> {0..<i}" and "0 \<le> i" and "i + int (length pend) \<le> MAX_REQUESTS" and "int (length xs) \<le> i"
  shows "rq_rep (queues (restore_pending i pend c)) p (xs @ [i..i + int (length pend) - 1]) \<and>
    rq_capacity (queue_at (queues (restore_pending i pend c)) p) = MAX_REQUESTS"
  using assms
proof (induction i pend c arbitrary: xs rule: restore_pending.induct)
  case (1 i c)
  then show ?case by simp
next
  case (2 i request node rest c)
  let ?qs = "(queues c)\<lparr>prev := (prev (queues c))(i := node)\<rparr>"
  have i: "i \<notin> set xs" using "2.prems"(4) by auto
  then have rep: "rq_rep ?qs p xs" using "2.prems"(2) by (auto simp: rq_rep_def Let_def)
  obtain rc st where push: "request_queue_push (Some p) (Some i) ?qs = (rc, st)" by fastforce
  have room: "int (length xs) < rq_capacity (queue_at ?qs p)" using "2.prems"(3,6,7) by simp
  have rep': "rq_rep st p (xs @ [i])" by (rule request_queue_push_rep(2) [OF rep i room push])
  have cap: "rq_capacity (queue_at st p) = MAX_REQUESTS"
    using request_queue_push_capacity [OF push, of p] "2.prems"(3) by simp
  have sub: "set (xs @ [i]) \<subseteq> {0..<i + 1}" using "2.prems"(4,5) by auto
  let ?c = "c\<lparr>read_requests := (read_requests c)(i := request), queues := st\<rparr>"
  have "restore_pending i ((request, node) # rest) c = restore_pending (i + 1) rest ?c"
    using "2.prems"(1) push by simp
  moreover have "rq_rep (queues (restore_pending (i + 1) rest ?c)) p ((xs @ [i]) @ [i + 1..i + 1 + int (length rest) - 1]) \<and>
      rq_capacity (queue_at (queues (restore_pending (i + 1) rest ?c)) p) = MAX_REQUESTS"
    using "2.IH" [OF refl, of "xs @ [i]"] sub "2.prems"(1,3,5-7) push rep' cap by simp
  moreover have "[i..i + int (length ((request, node) # rest)) - 1] = i # [i + 1..i + 1 + int (length rest) - 1]"
    by (subst upto_rec1) (simp_all add: algebra_simps)
  ultimately show ?case by simp
qed

lemma restore_pending_requests:
  "read_requests (restore_pending i pend c) j =
     (if i \<le> j \<and> j < i + int (length pend) then fst (pend ! nat (j - i)) else read_requests c j)"
proof (induction i pend c rule: restore_pending.induct)
  case (1 i c)
  then show ?case by auto
next
  case (2 i request node rest c)
  show ?case
  proof (cases "i < j")
    case True
    then have "nat (j - i) = Suc (nat (j - (i + 1)))" by simp
    then show ?thesis using 2 True by (auto simp: Let_def)
  next
    case False
    then show ?thesis using 2 by (auto simp: Let_def)
  qed
qed

lemma restore_pending_settles: "settles c c1 \<Longrightarrow> settles c (restore_pending i pend c1)"
  by (induction i pend c1 rule: restore_pending.induct) (simp_all add: Let_def)

text \<open>\<open>compact\<close>: the slots in use are exactly those that wait, in order.\<close>

definition compact :: "('w, 'h) conn \<Rightarrow> bool" where
  "compact c \<longleftrightarrow> conn_inv c \<and> waiting c = [0..n_read_requests c - 1]"

lemma compact_extends: "compact c \<Longrightarrow> extends c c' \<Longrightarrow> compact c'"
  using upto_split1 [of 0 "n_read_requests c" "n_read_requests c' - 1"] upto_rec2
  by (cases "n_read_requests c' = n_read_requests c") (auto simp: compact_def extends_def elim: conn_invE)

lemma restore_pending_compact:
  assumes "conn_inv c" and "waiting c = []" and "int (length pend) \<le> MAX_REQUESTS"
    and c': "c' = (restore_pending 0 pend (c\<lparr>n_read_requests := 0\<rparr>))\<lparr>n_read_requests := int (length pend)\<rparr>"
  shows "compact c'" and "outstanding c' = keys pend" and "searches c' = searches c"
proof -
  obtain p where p: "callqueue c = Some p" "rq_rep (queues c) p (waiting c)"
      "rq_capacity (queue_at (queues c) p) = MAX_REQUESTS"
      "0 \<le> n_search_requests c" "n_search_requests c < MAX_REQUESTS"
    using assms(1) by (rule conn_invE)
  let ?r = "restore_pending 0 pend (c\<lparr>n_read_requests := 0\<rparr>)"
  have q: "rq_rep (queues ?r) p [0..int (length pend) - 1]" "rq_capacity (queue_at (queues ?r) p) = MAX_REQUESTS"
    using restore_pending_queue [of "c\<lparr>n_read_requests := 0\<rparr>" p "[]" 0 pend] p assms(2,3) by simp_all
  have "conn_inv c'" "waiting c' = [0..int (length pend) - 1]"
    by (rule conn_invI [of _ p "[0..int (length pend) - 1]"]; use p q assms(3) in \<open>auto simp: c' restore_pending_frame\<close>)+
  then show "compact c'" by (simp add: compact_def c')
  have "map (\<lambda>i. request_key (read_requests ?r i)) [0..int (length pend) - 1] = map (request_key \<circ> fst) pend"
    by (rule nth_equalityI) (simp_all add: restore_pending_requests)
  then show "outstanding c' = keys pend"
    using \<open>waiting c' = [0..int (length pend) - 1]\<close> by (simp add: outstanding_def keys_def request_key_def c')
  show "searches c' = searches c" by (simp add: searches_def c' restore_pending_frame)
qed

text \<open>
  A round in which every outstanding request is answered: \<open>I as c\<close> holds while the requests in the slots \<open>as\<close>
  still wait.
\<close>

lemma read_loop_answers:
  assumes step: "\<And>c a as q. I (a # as) c \<Longrightarrow> conn_inv (c\<lparr>queues := q\<rparr>) \<Longrightarrow> waiting (c\<lparr>queues := q\<rparr>) = as \<Longrightarrow>
      \<exists>c'. poll_one D E a (c\<lparr>queues := q\<rparr>) [] = Some (True, c', []) \<and> conn_inv c' \<and> waiting c' = as \<and> I as c'"
    and "conn_inv c" and "waiting c = as" and "I as c"
  shows "\<exists>c'. read_loop D E c [] = Some (True, c', []) \<and> conn_inv c' \<and> waiting c' = [] \<and> I [] c'"
  using assms(2-4)
proof (induction as arbitrary: c)
  case Nil
  then have "read_loop D E c [] = Some (True, c, [])"
    using empty_waiting [OF Nil(1,2)] by (subst read_loop.simps) simp
  with Nil show ?case by blast
next
  case (Cons a as)
  obtain q where q: "request_queue_pop (callqueue c) (queues c) = (Some a, q)"
    "conn_inv (c\<lparr>queues := q\<rparr>)" "waiting (c\<lparr>queues := q\<rparr>) = as"
    "\<not> request_queue_empty (callqueue c) (queues c)"
    by (rule pop_waiting [OF Cons.prems(1,2)])
  obtain c1 where c1: "poll_one D E a (c\<lparr>queues := q\<rparr>) [] = Some (True, c1, [])" "conn_inv c1" "waiting c1 = as" "I as c1"
    using step [OF Cons.prems(3) q(2,3)] by blast
  from Cons.IH [OF c1(2-4)] show ?case
    using q(1,4) c1(1) by (subst read_loop.simps) simp
qed

lemma on_read_answers:
  assumes "\<And>c a as q. I (a # as) c \<Longrightarrow> conn_inv (c\<lparr>queues := q\<rparr>) \<Longrightarrow> waiting (c\<lparr>queues := q\<rparr>) = as \<Longrightarrow>
      \<exists>c'. poll_one D E a (c\<lparr>queues := q\<rparr>) [] = Some (True, c', []) \<and> conn_inv c' \<and> waiting c' = as \<and> I as c'"
    and "conn_inv c" and "I (waiting c) c"
  shows "\<exists>c'. connection_on_read D E c = Some (c'\<lparr>n_read_requests := 0\<rparr>) \<and> conn_inv (c'\<lparr>n_read_requests := 0\<rparr>) \<and>
    outstanding (c'\<lparr>n_read_requests := 0\<rparr>) = [] \<and> searches (c'\<lparr>n_read_requests := 0\<rparr>) = searches c' \<and> I [] c'"
proof -
  obtain c' where c': "read_loop D E c [] = Some (True, c', [])" "conn_inv c'" "waiting c' = []" "I [] c'"
    using read_loop_answers [of I D E, OF assms(1,2) refl assms(3)] by blast
  note r = restore_pending_compact [OF c'(2,3), of "[]"]
  then have "compact (c'\<lparr>n_read_requests := 0\<rparr>)" "outstanding (c'\<lparr>n_read_requests := 0\<rparr>) = []"
    "searches (c'\<lparr>n_read_requests := 0\<rparr>) = searches c'"
    by simp_all
  then show ?thesis
    using c' by (intro exI [of _ c']) (simp add: connection_on_read_def compact_def)
qed

section \<open>The handlers of the library keep the contract\<close>

lemma bind_on_read_extends:
  assumes "conn_inv c" and "connection_bind_on_read E rc m c = Some (r, c')"
  shows "extends c c'"
proof (cases "rc = LDAP_RES_BIND")
  case False
  then show ?thesis using assms by (simp add: connection_bind_on_read_def)
next
  case True
  obtain rc1 c1 where bind: "(if bind_type c = BIND_TYPE_INTERACTIVE then
                        do { ((r, m), c') \<leftarrow> interactive_bind E m (conn_msgid c) c;
                             Some (r, c'\<lparr>conn_msgid := m\<rparr>) }
                      else Some (rc, c)) = Some (rc1, c1)"
    using assms(2) True by (auto simp: connection_bind_on_read_def split: if_splits elim!: bind_SomeE)
  have t1: "same_tables c c1"
    using bind by (auto simp: interactive_bind_def split: if_splits elim!: bind_SomeE
        dest!: with_ldap_same same_but_world_tables) (simp add: same_tables_def)
  note e1 = extends_same_tables [OF assms(1) t1]
  consider (progress) "rc1 = LDAP_SASL_BIND_IN_PROGRESS" | (done_bind) "rc1 = LDAP_SUCCESS"
    | (failed) "rc1 \<noteq> LDAP_SASL_BIND_IN_PROGRESS" "rc1 \<noteq> LDAP_SUCCESS" by blast
  then show ?thesis
  proof cases
    case progress
    then show ?thesis
      using assms(2) True bind push_extends(1) [OF extends_inv [OF e1]] extends_trans [OF e1]
      by (auto simp: connection_bind_on_read_def simp del: if_Some_None elim!: bind_SomeE)
  next
    case done_bind
    then have "csm_set_state (state_machine c1) LDAP_CONNECTION_STATE_BOUND c1 = Some c'"
      using assms(2) True bind by (auto simp: connection_bind_on_read_def elim!: bind_SomeE)
    then show ?thesis
      using csm_set_state_tables extends_same_tables [OF extends_inv [OF e1]] extends_trans [OF e1] by blast
  next
    case failed
    obtain code c2 where f: "fetch_diagnostics E c1 = Some (code, c2)"
      using assms(2) True bind failed by (auto simp: connection_bind_on_read_def elim!: bind_SomeE)
    have t2: "same_tables c c2"
      using t1 same_but_world_tables [OF fetch_diagnostics_same [OF f]] same_tables_trans by blast
    then have "same_tables c c'"
      using assms(2) True bind failed f same_tables_trans [OF t2 csm_set_state_tables(2)]
      by (cases code) (auto simp: connection_bind_on_read_def split: if_splits elim!: bind_SomeE)
    then show ?thesis by (rule extends_same_tables [OF assms(1)])
  qed
qed

lemma start_tls_on_read_extends:
  assumes "conn_inv c" and "connection_start_tls_on_read E rc m c = Some (r, c')"
  shows "extends c c'"
proof (rule extends_same_tables [OF assms(1)])
  show "same_tables c c'"
  proof (cases "rc = LDAP_RES_EXTENDED")
    case False
    then show ?thesis using assms(2) by (simp add: connection_start_tls_on_read_def)
  next
    case True
    obtain inplace c1 tls c2 where 1: "with_ldap (ldap_tls_inplace E) c = Some (inplace, c1)"
      and 2: "(if \<not> inplace then with_ldap (ldap_install_tls E) c1 else Some (LDAP_SUCCESS, c1)) = Some (tls, c2)"
      and rest: "(if tls \<noteq> LDAP_SUCCESS \<and> tls \<noteq> LDAP_LOCAL_ERROR then
          do { (code, c3) \<leftarrow> fetch_diagnostics E c2;
               (case code of
                  None \<Rightarrow> Some (RETURN_CODE_FAILURE, c3)
                | Some _ \<Rightarrow> do { c4 \<leftarrow> csm_set_state (state_machine c3) LDAP_CONNECTION_STATE_ERROR c3;
                                Some (RETURN_CODE_FAILURE, c4) }) }
        else do { c3 \<leftarrow> csm_set_state (state_machine c2) LDAP_CONNECTION_STATE_TRANSPORT_READY c2;
                  Some (RETURN_CODE_SUCCESS, c3) }) = Some (r, c')"
      using assms(2) True by (auto simp: connection_start_tls_on_read_def simp del: if_Some_None elim!: bind_SomeE)
    have "same_tables c1 c2"
      using 2 by (cases inplace) (auto dest: with_ldap_same same_but_world_tables)
    then have t2: "same_tables c c2"
      using same_but_world_tables [OF with_ldap_same [OF 1]] same_tables_trans by blast
    have t3: "same_tables c c3" if "fetch_diagnostics E c2 = Some (code, c3)" for code c3
      using same_but_world_tables [OF fetch_diagnostics_same [OF that]] t2 same_tables_trans by blast
    show ?thesis
    proof (cases "tls \<noteq> LDAP_SUCCESS \<and> tls \<noteq> LDAP_LOCAL_ERROR")
      case True
      then obtain code c3 where f: "fetch_diagnostics E c2 = Some (code, c3)"
        using rest by (auto elim!: bind_SomeE)
      show ?thesis
        using rest True f t3 [OF f] same_tables_trans [OF t3 [OF f] csm_set_state_tables(2)]
        by (cases code) (auto elim!: bind_SomeE)
    next
      case False
      then have "csm_set_state (state_machine c2) LDAP_CONNECTION_STATE_TRANSPORT_READY c2 = Some c'"
        using rest by (auto elim!: bind_SomeE)
      then show ?thesis using same_tables_trans [OF t2 csm_set_state_tables(3)] by blast
    qed
  qed
qed

lemma call_read_operation_extends:
  assumes "callbacks_ok E" and "conn_inv c" and "call_read_operation E op rc m c = Some (r, c')"
  shows "extends c c'"
proof (cases op)
  case BIND_ON_READ
  then show ?thesis using assms(2,3) bind_on_read_extends by simp
next
  case START_TLS_ON_READ
  then show ?thesis using assms(2,3) start_tls_on_read_extends by simp
next
  case SEARCH_ON_READ
  then show ?thesis using assms search_on_read_extends by simp
next
  case WHOAMI_ON_READ
  then show ?thesis using assms whoami_on_read_grows grows_def by fastforce
next
  case DIRECTORY_PARSE_RESULT
  then show ?thesis using assms directory_parse_result_grows grows_def by fastforce
qed (use assms update_on_read_grows grows_def in
  \<open>fastforce simp: add_on_read_def modify_on_read_def delete_on_read_def rename_on_read_def\<close>)+

interpretation rh: read_handlers callbacks_ok call_read_operation
  by unfold_locales (rule call_read_operation_extends)

section \<open>Properties of the event loop\<close>

lemma connection_on_read_cases:
  assumes "connection_on_read dispatch E c = Some c'"
  obtains (left) pend where "read_loop dispatch E c [] = Some (False, c', pend)"
  | (complete) c1 pend where "read_loop dispatch E c [] = Some (True, c1, pend)"
      and "c' = (restore_pending 0 pend (c1\<lparr>n_read_requests := 0\<rparr>))\<lparr>n_read_requests := int (length pend)\<rparr>"
  using assms by (auto simp: connection_on_read_def split: if_splits elim!: bind_SomeE)

text \<open>A complete run, through the contract of the handlers.\<close>

lemma complete_run:
  assumes "callbacks_ok E" and "conn_inv c"
    and run: "read_loop (call_read_operation E) E c [] = Some (go, c1, pend)"
  shows "conn_inv c1" and "diagnostics_ok E \<Longrightarrow> go" and "steady E waits \<Longrightarrow> go"
    and "go \<Longrightarrow> waiting c1 = []" and "int (length pend) \<le> MAX_REQUESTS"
    and "\<exists>new. subseq (keys pend) (outstanding c @ new) \<and>
      (steady E waits \<longrightarrow> keys pend = filter (waits \<circ> fst) (outstanding c @ new))"
proof -
  have "int (length ([] :: pending) + length (waiting c)) \<le> n_read_requests c"
    using waiting_length [OF assms(2)] by simp
  note ok = rh.read_loop_ok [OF assms(1,2) this run, of waits]
  show inv: "conn_inv c1" using ok by (simp add: loop_ok_def)
  have "int (length pend) \<le> n_read_requests c1" using ok by (simp add: loop_ok_def)
  moreover have "n_read_requests c1 \<le> MAX_REQUESTS" using inv by (rule conn_invE)
  ultimately show "int (length pend) \<le> MAX_REQUESTS" by simp
  show "diagnostics_ok E \<Longrightarrow> go" "steady E waits \<Longrightarrow> go" "go \<Longrightarrow> waiting c1 = []"
    "\<exists>new. subseq (keys pend) (outstanding c @ new) \<and>
      (steady E waits \<longrightarrow> keys pend = filter (waits \<circ> fst) (outstanding c @ new))"
    using ok by (auto simp: loop_ok_def)
qed

lemma event_loop_inv:
  assumes "callbacks_ok E" and "conn_inv c"
    and "connection_on_read (call_read_operation E) E c = Some c'"
  shows "conn_inv c'"
  using assms(3)
proof (cases rule: connection_on_read_cases)
  case (left pend)
  then show ?thesis using complete_run(1) [OF assms(1,2) left] by simp
next
  case (complete c1 pend)
  note run = complete_run [OF assms(1,2) complete(1)]
  show ?thesis
    using restore_pending_compact(1) [OF run(1) run(4) [OF TrueI] run(5) complete(2)] by (simp add: compact_def)
qed

lemma event_loop_settles:
  assumes "callbacks_ok E" and "conn_inv c"
    and "connection_on_read (call_read_operation E) E c = Some c'"
  shows "settles c c'"
proof -
  have "int (length ([] :: pending) + length (waiting c)) \<le> n_read_requests c"
    using waiting_length [OF assms(2)] by simp
  note ok = rh.read_loop_ok [OF assms(1,2) this]
  show ?thesis using assms(3)
    by (cases rule: connection_on_read_cases)
      (use ok in \<open>fastforce simp: loop_ok_def intro: restore_pending_settles\<close>)+
qed



text \<open>Handlers of updates return and change only the world when there is no error callback.\<close>

definition updates_only :: "('w, 'h) conn \<Rightarrow> bool" where
  "updates_only c \<longleftrightarrow> on_error_operation c = None \<and> (\<exists>ld. ldap c = Valid ld) \<and>
     (\<forall>(m, op) \<in> set (outstanding c).
        op \<in> {None, Some ADD_ON_READ, Some MODIFY_ON_READ, Some DELETE_ON_READ, Some RENAME_ON_READ})"

lemma with_ldap_total: "ldap c = Valid ld \<Longrightarrow> \<exists>r w. with_ldap f c = Some (r, c\<lparr>world := w\<rparr>)"
  by (auto simp: with_ldap_def split: prod.splits)

lemma update_on_read_total:
  assumes "on_error_operation c = None" and "ldap c = Valid ld"
  shows "\<exists>r w. update_on_read tag good E rc m c = Some (r, c\<lparr>world := w\<rparr>)"
proof -
  obtain d where d: "get_diagnostics E c = Some d" using get_diagnostics_Some [OF assms(2)] by blast
  obtain w where w: "d = c\<lparr>world := w\<rparr>" using get_diagnostics_same [OF d] by blast
  obtain r v where p: "with_ldap (\<lambda>ld. ldap_parse_result E ld m) c = Some (r, c\<lparr>world := v\<rparr>)"
    using with_ldap_total [OF assms(2), of "\<lambda>ld. ldap_parse_result E ld m"] by blast
  show ?thesis
  proof (cases "rc = tag")
    case True
    then show ?thesis using p assms(1) by (auto simp: update_on_read_def call_error_operation_def Let_def)
  next
    case False
    then show ?thesis using d w assms(1) by (auto simp: update_on_read_def answer_failed_def call_error_operation_def)
  qed
qed

text \<open>Polling one request that belongs to an update.\<close>

lemma poll_update:
  assumes "on_error_operation c = None" and "ldap c = Valid ld" and "steady E waits"
    and op: "on_read_operation (read_requests c i) \<in>
      {None, Some ADD_ON_READ, Some MODIFY_ON_READ, Some DELETE_ON_READ, Some RENAME_ON_READ}"
    and room: "int (length pend) < MAX_REQUESTS"
  shows "\<exists>c' pend'. poll_one (call_read_operation E) E i c pend = Some (True, c', pend') \<and>
    same_tables c c' \<and> ldap c' = ldap c \<and> on_error_operation c' = None \<and>
    keys pend' = keys pend @ (if waits (req_msgid (read_requests c i)) then [request_key (read_requests c i)] else [])"
proof -
  let ?r = "read_requests c i"
  obtain rc m w where poll: "ldap_result E ld (req_msgid ?r) (world c) = ((rc, m), w)" by (metis prod.exhaust_sel)
  have rc: "rc \<noteq> LDAP_RES_ANY" "rc = LDAP_RES_UNSOLICITED \<longleftrightarrow> waits (req_msgid ?r)"
    using assms(3) poll unfolding steady_def by (metis fst_conv)+
  have call: "with_ldap (\<lambda>ld. ldap_result E ld (req_msgid ?r)) c = Some ((rc, m), c\<lparr>world := w\<rparr>)"
    using assms(2) poll by (simp add: with_ldap_def)
  show ?thesis
  proof (cases "rc = LDAP_RES_UNSOLICITED")
    case True
    then show ?thesis
      using call rc room assms(1) by (simp add: poll_one_def Let_def same_tables_def)
  next
    case False
    let ?c = "c\<lparr>world := w, conn_msgid := req_msgid ?r\<rparr>"
    have "\<exists>v. (case on_read_operation ?r of None \<Rightarrow> Some (True, ?c, pend)
        | Some operation \<Rightarrow> do { (_, c3) \<leftarrow> call_read_operation E operation rc m ?c; Some (True, c3, pend) }) =
      Some (True, ?c\<lparr>world := v\<rparr>, pend)"
    proof (cases "on_read_operation ?r")
      case None
      then show ?thesis by (intro exI [of _ w]) simp
    next
      case (Some f)
      have "\<exists>r v. call_read_operation E f rc m ?c = Some (r, ?c\<lparr>world := v\<rparr>)"
        using op Some update_on_read_total [of ?c ld _ _ E rc m] assms(1,2)
        by (auto simp: add_on_read_def modify_on_read_def delete_on_read_def rename_on_read_def)
      then show ?thesis using Some by auto
    qed
    then obtain v where "(case on_read_operation ?r of None \<Rightarrow> Some (True, ?c, pend)
        | Some operation \<Rightarrow> do { (_, c3) \<leftarrow> call_read_operation E operation rc m ?c; Some (True, c3, pend) }) =
      Some (True, ?c\<lparr>world := v\<rparr>, pend)" by blast
    then have "poll_one (call_read_operation E) E i c pend = Some (True, ?c\<lparr>world := v\<rparr>, pend)"
      using call rc(1) False by (simp add: poll_one_def Let_def)
    then show ?thesis
      using rc False assms(1) by (simp add: same_tables_def)
  qed
qed

lemma read_loop_returns:
  assumes "conn_inv c" and "updates_only c" and "steady E waits"
    and "int (length pend + length (waiting c)) \<le> n_read_requests c"
  shows "\<exists>c' pend'. read_loop (call_read_operation E) E c pend = Some (True, c', pend') \<and>
    keys pend' = keys pend @ filter (waits \<circ> fst) (outstanding c)"
  using assms
proof (induction "waiting c" arbitrary: c pend)
  case Nil
  have "outstanding c = []" using Nil.hyps by (simp add: outstanding_def)
  then show ?case
    using empty_waiting [OF Nil.prems(1) Nil.hyps [symmetric]] by (subst read_loop.simps) simp
next
  case (Cons i js)
  have w: "waiting c = i # js" using Cons.hyps(2) by simp
  obtain q where pop: "request_queue_pop (callqueue c) (queues c) = (Some i, q)"
    and inv1: "conn_inv (c\<lparr>queues := q\<rparr>)" and w1: "waiting (c\<lparr>queues := q\<rparr>) = js"
    and ne: "\<not> request_queue_empty (callqueue c) (queues c)"
    by (rule pop_waiting [OF Cons.prems(1) w])
  let ?c1 = "c\<lparr>queues := q\<rparr>"
  have head: "outstanding c = request_key (read_requests ?c1 i) # outstanding ?c1"
    using outstanding_pop [OF w w1] by simp
  obtain ld where ld: "ldap ?c1 = Valid ld" and "on_error_operation ?c1 = None"
    using Cons.prems(2) by (auto simp: updates_only_def)
  moreover have "on_read_operation (read_requests ?c1 i) \<in>
      {None, Some ADD_ON_READ, Some MODIFY_ON_READ, Some DELETE_ON_READ, Some RENAME_ON_READ}"
    using Cons.prems(2) by (auto simp: updates_only_def head request_key_def)
  moreover have "n_read_requests c \<le> MAX_REQUESTS" using Cons.prems(1) by (rule conn_invE)
  then have "int (length pend) < MAX_REQUESTS" using Cons.prems(4) w by simp
  ultimately obtain c2 pend2 where poll: "poll_one (call_read_operation E) E i ?c1 pend = Some (True, c2, pend2)"
    and t: "same_tables ?c1 c2" and c2: "ldap c2 = ldap ?c1" "on_error_operation c2 = None"
    and k: "keys pend2 = keys pend @ (if waits (req_msgid (read_requests ?c1 i)) then [request_key (read_requests ?c1 i)] else [])"
    using poll_update [of ?c1 ld E waits i pend] Cons.prems(3) by blast
  note inv2 = same_tables_inv [OF t]
  have len: "length pend2 \<le> Suc (length pend)"
    using k keys_simps(4) [of pend2] keys_simps(4) [of pend] by (simp split: if_splits)
  have "conn_inv c2" "js = waiting c2" "n_read_requests c2 = n_read_requests c"
    using inv1 inv2 w1 t by (simp_all add: same_tables_def)
  moreover have "updates_only c2"
    using Cons.prems(2) c2 by (auto simp: updates_only_def head inv2(2))
  ultimately obtain c' pend' where "read_loop (call_read_operation E) E c2 pend2 = Some (True, c', pend')"
    and "keys pend' = keys pend2 @ filter (waits \<circ> fst) (outstanding c2)"
    using Cons.hyps(1) [of c2 pend2] Cons.prems(3,4) len w by force
  then show ?case
    using ne pop poll k head inv2(2) by (subst read_loop.simps) (simp add: request_key_def)
qed

text \<open>
  C6: A round of the event loop returns when only updates wait, there is no error callback and libldap
  answers without errors: the unanswered requests wait in compact tables, in their order, and nothing else.
\<close>

theorem event_loop_returns:
  assumes "callbacks_ok E" and "conn_inv c" and "updates_only c" and "steady E waits"
  shows "\<exists>c'. connection_on_read (call_read_operation E) E c = Some c' \<and> compact c' \<and>
    outstanding c' = filter (waits \<circ> fst) (outstanding c)"
proof -
  have "int (length ([] :: pending) + length (waiting c)) \<le> n_read_requests c"
    using waiting_length [OF assms(2)] by simp
  then obtain c1 pend where run: "read_loop (call_read_operation E) E c [] = Some (True, c1, pend)"
    and k: "keys pend = filter (waits \<circ> fst) (outstanding c)"
    using read_loop_returns [OF assms(2-4), of "[]"] by auto
  note r = complete_run [OF assms(1,2) run]
  let ?c' = "(restore_pending 0 pend (c1\<lparr>n_read_requests := 0\<rparr>))\<lparr>n_read_requests := int (length pend)\<rparr>"
  note requeued = restore_pending_compact [OF r(1) r(4) [OF TrueI] r(5) refl]
  have "connection_on_read (call_read_operation E) E c = Some ?c'"
    using run by (simp add: connection_on_read_def)
  then show ?thesis using requeued(1,2) k by auto
qed

text \<open>A connection with an addition and a deletion waiting, and a libldap that has answered the addition.\<close>

definition demo_answers :: "(demo_world, demo_table) ext" where
  "demo_answers = demo_ext\<lparr>ldap_result := \<lambda>_ m w. ((if m = 2 then 0 else LDAP_RES_ADD, []), w)\<rparr>"

lemma demo_answers_ok: "callbacks_ok demo_answers" "steady demo_answers (\<lambda>m. m = 2)" "diagnostics_ok demo_answers"
  by (auto simp: demo_answers_def callbacks_ok_def steady_def diagnostics_ok_def intro: api_calls.stay)

lemma demo_two_requests:
  "\<exists>c :: (demo_world, demo_table) conn. conn_inv c \<and> updates_only c \<and> ldap c = Valid 1 \<and>
     outstanding c = [(1, Some ADD_ON_READ), (2, Some DELETE_ON_READ)]"
proof -
  obtain c1 where 1: "enqueued demo_conn (world demo_conn) 1 ADD_ON_READ c1"
    using push_requested [of demo_conn 1 ADD_ON_READ] by auto
  note f1 = enqueued_frame [OF 1]
  obtain c2 where 2: "enqueued c1 (world c1) 2 DELETE_ON_READ c2"
    using push_requested [of c1 2 DELETE_ON_READ] f1 by auto
  have "outstanding c2 = [(1, Some ADD_ON_READ), (2, Some DELETE_ON_READ)]"
    using enqueued_outstanding [OF 1] enqueued_outstanding [OF 2] by simp
  then show ?thesis
    using enqueued_frame [OF 2] f1
    by (intro exI [of _ c2]) (auto simp: updates_only_def demo_conn_def)
qed

lemma event_loop_returns_witness:
  "\<exists>c c'. outstanding c = [(1, Some ADD_ON_READ), (2, Some DELETE_ON_READ)] \<and>
     connection_on_read (call_read_operation demo_answers) demo_answers c = Some c' \<and>
     outstanding c' = [(2, Some DELETE_ON_READ)]"
proof -
  obtain c :: "(demo_world, demo_table) conn"
    where c: "conn_inv c" "updates_only c" "outstanding c = [(1, Some ADD_ON_READ), (2, Some DELETE_ON_READ)]"
    using demo_two_requests by blast
  show ?thesis
    using event_loop_returns [OF demo_answers_ok(1) c(1,2) demo_answers_ok(2)] c(3) by auto
qed





end
