(* ===== verification/State_Machine.thy ===== *)
theory State_Machine
  imports Event_Loop
begin

text \<open>
  The state machine of a connection, \<open>src/src/connection_state_machine.c\<close>, and the timer callback of
  \<open>src/src/domain.c\<close> that drives it. The lemmas give the edges of the machine, the life of a connection as a
  step relation with its invariant, and the runs that end in \<open>RUN\<close>, in \<open>ERROR\<close> or in undefined behaviour.
\<close>

section \<open>States\<close>

text \<open>The values of \<open>enum LdapConnectionState\<close>, and their names in the log.\<close>

fun state_code :: "LdapConnectionState \<Rightarrow> int" where
  "state_code LDAP_CONNECTION_STATE_INIT = 1"
| "state_code LDAP_CONNECTION_STATE_TLS_NEGOTIATION = 2"
| "state_code LDAP_CONNECTION_STATE_TRANSPORT_READY = 3"
| "state_code LDAP_CONNECTION_STATE_BIND_IN_PROGRESS = 4"
| "state_code LDAP_CONNECTION_STATE_BOUND = 5"
| "state_code LDAP_CONNECTION_STATE_DETECT_DIRECTORY = 6"
| "state_code LDAP_CONNECTION_STATE_RUN = 7"
| "state_code LDAP_CONNECTION_STATE_ERROR = 8"
| "state_code LDAP_CONNECTION_STATE_REQUEST_SCHEMA = 9"
| "state_code LDAP_CONNECTION_STATE_CHECK_SCHEMA = 10"

definition state_strings :: "(int \<times> string) list" where
  "state_strings =
     [(state_code LDAP_CONNECTION_STATE_INIT, ''LDAP_CONNECTION_STATE_INIT''),
      (state_code LDAP_CONNECTION_STATE_TLS_NEGOTIATION, ''LDAP_CONNECTION_STATE_TLS_NEGOTIATION''),
      (state_code LDAP_CONNECTION_STATE_TRANSPORT_READY, ''LDAP_CONNECTION_STATE_TRANSPORT_READY''),
      (state_code LDAP_CONNECTION_STATE_BIND_IN_PROGRESS, ''LDAP_CONNECTION_STATE_BIND_IN_PROGRESS''),
      (state_code LDAP_CONNECTION_STATE_BOUND, ''LDAP_CONNECTION_STATE_BOUND''),
      (state_code LDAP_CONNECTION_STATE_DETECT_DIRECTORY, ''LDAP_CONNECTION_STATE_DETECT_DIRECTORY''),
      (state_code LDAP_CONNECTION_STATE_RUN, ''LDAP_CONNECTION_STATE_RUN''),
      (state_code LDAP_CONNECTION_STATE_ERROR, ''LDAP_CONNECTION_STATE_ERROR''),
      (state_code LDAP_CONNECTION_STATE_REQUEST_SCHEMA, ''LDAP_CONNECTION_STATE_LOAD_SCHEMA''),
      (state_code LDAP_CONNECTION_STATE_CHECK_SCHEMA, ''LDAP_CONNECTION_STATE_SCHEMA_READY'')]"

definition csm_state2str :: "int \<Rightarrow> string" where
  "csm_state2str state =
     (case find (\<lambda>(code, name). code = state) state_strings of
        Some (code, name) \<Rightarrow> name | None \<Rightarrow> ''STATE_NOT_FOUND'')"

text \<open>
  The order in which a connection passes its states, which is not the order of the codes.
\<close>

fun stage :: "LdapConnectionState \<Rightarrow> nat" where
  "stage LDAP_CONNECTION_STATE_INIT = 0"
| "stage LDAP_CONNECTION_STATE_TLS_NEGOTIATION = 1"
| "stage LDAP_CONNECTION_STATE_TRANSPORT_READY = 2"
| "stage LDAP_CONNECTION_STATE_BIND_IN_PROGRESS = 3"
| "stage LDAP_CONNECTION_STATE_BOUND = 4"
| "stage LDAP_CONNECTION_STATE_DETECT_DIRECTORY = 5"
| "stage LDAP_CONNECTION_STATE_REQUEST_SCHEMA = 6"
| "stage LDAP_CONNECTION_STATE_CHECK_SCHEMA = 7"
| "stage LDAP_CONNECTION_STATE_RUN = 8"
| "stage LDAP_CONNECTION_STATE_ERROR = 9"

lemma stage_inj: "stage a = stage b \<Longrightarrow> a = b"
  by (cases a; cases b) simp_all

instantiation LdapConnectionState :: linorder
begin

definition less_eq_LdapConnectionState :: "LdapConnectionState \<Rightarrow> LdapConnectionState \<Rightarrow> bool" where
  "less_eq_LdapConnectionState a b \<longleftrightarrow> stage a \<le> stage b"

definition less_LdapConnectionState :: "LdapConnectionState \<Rightarrow> LdapConnectionState \<Rightarrow> bool" where
  "less_LdapConnectionState a b \<longleftrightarrow> stage a < stage b"

instance
  by standard
    (auto simp: less_eq_LdapConnectionState_def less_LdapConnectionState_def dest: stage_inj)

end

section \<open>One step of the machine\<close>

abbreviation (input) MAX_RECONNECT_ATTEMPTS :: int where "MAX_RECONNECT_ATTEMPTS \<equiv> 10"

text \<open>
  \<open>csm_next_state ctx\<close> on the machine \<open>ctx\<close>; \<open>ctx->ctx\<close> is the connection \<open>c\<close>. The state \<open>ERROR\<close> configures
  the connection anew, which gives it another machine, and then sets the state of the old one.
\<close>

definition tick_init ::
  "('w, 'h) ext \<Rightarrow> nat option \<Rightarrow> ('w, 'h) conn \<Rightarrow> (OperationReturnCode \<times> ('w, 'h) conn) option" where
  "tick_init E ctx c =
     do { cfg \<leftarrow> config c;
          if use_start_tls cfg then
            do { (rc, c1) \<leftarrow> connection_start_tls E c;
                 c2 \<leftarrow> csm_set_state ctx (if rc = RETURN_CODE_SUCCESS then LDAP_CONNECTION_STATE_TLS_NEGOTIATION
                                        else LDAP_CONNECTION_STATE_ERROR) c1;
                 Some (RETURN_CODE_SUCCESS, c2) }
          else do { c1 \<leftarrow> csm_set_state ctx LDAP_CONNECTION_STATE_TRANSPORT_READY c;
                    Some (RETURN_CODE_SUCCESS, c1) } }"

definition tick_transport_ready ::
  "('w, 'h) ext \<Rightarrow> nat option \<Rightarrow> ('w, 'h) conn \<Rightarrow> (OperationReturnCode \<times> ('w, 'h) conn) option" where
  "tick_transport_ready E ctx c =
     do { (rc, c1) \<leftarrow> (if bind_type c = BIND_TYPE_INTERACTIVE then connection_ldap_bind E c
                      else connection_sasl_bind E c);
          c2 \<leftarrow> csm_set_state ctx
                 (case rc of
                    RETURN_CODE_SUCCESS \<Rightarrow> LDAP_CONNECTION_STATE_DETECT_DIRECTORY
                  | RETURN_CODE_OPERATION_IN_PROGRESS \<Rightarrow> LDAP_CONNECTION_STATE_BIND_IN_PROGRESS
                  | RETURN_CODE_REPEAT_LAST_OPERATION \<Rightarrow> LDAP_CONNECTION_STATE_TRANSPORT_READY
                  | _ \<Rightarrow> LDAP_CONNECTION_STATE_ERROR) c1;
          Some (rc, c2) }"

definition tick_detect_directory ::
  "('w, 'h) ext \<Rightarrow> nat option \<Rightarrow> ('w, 'h) conn \<Rightarrow> (OperationReturnCode \<times> ('w, 'h) conn) option" where
  "tick_detect_directory E ctx c =
     (if directory_type c = LDAP_TYPE_UNINITIALIZED then
        do { (rc, c1) \<leftarrow> directory_get_type E c;
             c2 \<leftarrow> csm_set_state ctx (if rc = RETURN_CODE_SUCCESS then LDAP_CONNECTION_STATE_DETECT_DIRECTORY
                                    else LDAP_CONNECTION_STATE_ERROR) c1;
             Some (RETURN_CODE_SUCCESS, c2) }
      else do { c1 \<leftarrow> csm_set_state ctx LDAP_CONNECTION_STATE_REQUEST_SCHEMA c;
                Some (RETURN_CODE_SUCCESS, c1) })"

definition tick_request_schema ::
  "('w, 'h) ext \<Rightarrow> nat option \<Rightarrow> ('w, 'h) conn \<Rightarrow> (OperationReturnCode \<times> ('w, 'h) conn) option" where
  "tick_request_schema E ctx c =
     do { (rc, c1) \<leftarrow> ldap_schema_load E c;
          c2 \<leftarrow> csm_set_state ctx
                 (if rc = RETURN_CODE_SUCCESS then LDAP_CONNECTION_STATE_CHECK_SCHEMA
                  else if rc = RETURN_CODE_OPERATION_IN_PROGRESS then LDAP_CONNECTION_STATE_REQUEST_SCHEMA
                  else LDAP_CONNECTION_STATE_ERROR) c1;
          Some (RETURN_CODE_SUCCESS, c2) }"

definition tick_error ::
  "('w, 'h) ext \<Rightarrow> nat option \<Rightarrow> ('w, 'h) conn \<Rightarrow> (OperationReturnCode \<times> ('w, 'h) conn) option" where
  "tick_error E ctx c =
     do { (_, c1) \<leftarrow> connection_close E c;
          if n_reconnect_attempts c1 < MAX_RECONNECT_ATTEMPTS then
            if \<not> has_handle c1 then None
            else do { (_, c2) \<leftarrow> connection_configure E (config c1) c1;
                      c3 \<leftarrow> csm_set_state ctx LDAP_CONNECTION_STATE_INIT
                             (c2\<lparr>n_reconnect_attempts := n_reconnect_attempts c2 + 1\<rparr>);
                      Some (RETURN_CODE_SUCCESS, c3) }
          else Some (RETURN_CODE_SUCCESS, c1) }"

definition csm_next_state ::
  "('w, 'h) ext \<Rightarrow> nat option \<Rightarrow> ('w, 'h) conn \<Rightarrow> (OperationReturnCode \<times> ('w, 'h) conn) option" where
  "csm_next_state E ctx c =
     do { m \<leftarrow> ctx;
          st \<leftarrow> machines c m;
          (case st of
             LDAP_CONNECTION_STATE_INIT \<Rightarrow> tick_init E ctx c
           | LDAP_CONNECTION_STATE_TLS_NEGOTIATION \<Rightarrow> Some (RETURN_CODE_SUCCESS, c)
           | LDAP_CONNECTION_STATE_TRANSPORT_READY \<Rightarrow> tick_transport_ready E ctx c
           | LDAP_CONNECTION_STATE_BIND_IN_PROGRESS \<Rightarrow> Some (RETURN_CODE_SUCCESS, c)
           | LDAP_CONNECTION_STATE_BOUND \<Rightarrow>
               do { c1 \<leftarrow> csm_set_state ctx LDAP_CONNECTION_STATE_DETECT_DIRECTORY c;
                    Some (RETURN_CODE_SUCCESS, c1) }
           | LDAP_CONNECTION_STATE_DETECT_DIRECTORY \<Rightarrow> tick_detect_directory E ctx c
           | LDAP_CONNECTION_STATE_REQUEST_SCHEMA \<Rightarrow> tick_request_schema E ctx c
           | LDAP_CONNECTION_STATE_CHECK_SCHEMA \<Rightarrow>
               do { ready \<leftarrow> ldap_schema_ready E c;
                    c1 \<leftarrow> (if ready then csm_set_state ctx LDAP_CONNECTION_STATE_RUN c else Some c);
                    Some (RETURN_CODE_SUCCESS, c1) }
           | LDAP_CONNECTION_STATE_RUN \<Rightarrow> Some (RETURN_CODE_SUCCESS, c\<lparr>n_reconnect_attempts := 0\<rparr>)
           | LDAP_CONNECTION_STATE_ERROR \<Rightarrow> tick_error E ctx c) }"

text \<open>
  The timer callback \<open>connection_update\<close> of \<open>domain.c\<close>: one step of the machine; the timer \<open>ev\<close> deletes
  itself when the connection is in the state \<open>RUN\<close> or \<open>ERROR\<close>. The result says whether the timer is left.
\<close>

definition connection_update ::
  "('w, 'h) ext \<Rightarrow> nat \<Rightarrow> ('w, 'h) conn \<Rightarrow> (bool \<times> ('w, 'h) conn) option" where
  "connection_update E ev c =
     do { (_, c1) \<leftarrow> csm_next_state E (state_machine c) c;
          run \<leftarrow> csm_is_in_state (state_machine c1) LDAP_CONNECTION_STATE_RUN c1;
          failed \<leftarrow> csm_is_in_state (state_machine c1) LDAP_CONNECTION_STATE_ERROR c1;
          Some (if run \<or> failed then (False, c1\<lparr>world := verto_del E ev (world c1)\<rparr>) else (True, c1)) }"

section \<open>What the steps leave alone\<close>

definition same_life :: "('w, 'h) conn \<Rightarrow> ('w, 'h) conn \<Rightarrow> bool" where
  "same_life c c' \<longleftrightarrow> state_machine c' = state_machine c \<and> machines c' = machines c \<and>
     directory_type c' = directory_type c \<and> n_reconnect_attempts c' = n_reconnect_attempts c \<and>
     has_handle c' = has_handle c \<and> config c' = config c \<and> (conn_inv c \<longrightarrow> conn_inv c')"

lemma same_life_refl [simp]: "same_life c c"
  by (simp add: same_life_def)

lemma same_life_trans [trans]: "same_life a b \<Longrightarrow> same_life b c \<Longrightarrow> same_life a c"
  by (simp add: same_life_def)

lemma same_life_upd [simp]:
  "same_life a (b\<lparr>world := w\<rparr>) = same_life a b" "same_life a (b\<lparr>ldap := l\<rparr>) = same_life a b"
  "same_life a (b\<lparr>read_event := r\<rparr>) = same_life a b" "same_life a (b\<lparr>write_event := r\<rparr>) = same_life a b"
  "same_life a (b\<lparr>handlers_installed := h\<rparr>) = same_life a b" "same_life a (b\<lparr>rmech := x\<rparr>) = same_life a b"
  "same_life a (b\<lparr>base := y\<rparr>) = same_life a b" "same_life a (b\<lparr>ldap_defaults := d\<rparr>) = same_life a b"
  by (simp_all add: same_life_def conn_inv_fields)

lemma same_but_world_life: "same_but_world c c' \<Longrightarrow> same_life c c'"
  by (auto elim!: same_but_worldE)

lemma with_ldap_life: "with_ldap f c = Some (r, c') \<Longrightarrow> same_life c c'"
  by (rule same_but_world_life [OF with_ldap_same])

lemma unbind_life: "unbind E c = Some c' \<Longrightarrow> same_life c c'"
  by (auto simp: unbind_def elim!: bind_SomeE)

lemma unbind_life_event: "unbind E c = Some c' \<Longrightarrow> same_life c c' \<and> read_event c' = read_event c"
  by (auto simp: unbind_def elim!: bind_SomeE)

lemma push_life: "push_read_request m h c = Some c' \<Longrightarrow> same_life c c'"
  using push_extends(1) [of c m h c'] extends_inv
  by (fastforce simp: same_life_def push_read_request_def Let_def split: if_splits)

lemma submit_life:
  assumes "submit send h c = Some (rc, c')"
  shows "same_life c c'"
proof -
  obtain code m c1 where call: "with_ldap send c = Some ((code, m), c1)"
    using assms by (auto simp: submit_def elim!: bind_SomeE)
  show ?thesis
    using assms call with_ldap_life [OF call] same_life_trans [OF with_ldap_life [OF call] push_life]
    by (auto simp: submit_def split: if_splits elim!: bind_SomeE)
qed

lemma search_life:
  assumes "search E c dn sc flt attrs only f ud = Some (rc, c')"
  shows "same_life c c'"
proof -
  obtain code m c1 where call: "with_ldap (\<lambda>ld. ldap_search_ext E ld dn sc flt attrs only) c = Some ((code, m), c1)"
    using assms by (auto simp: search_def elim!: bind_SomeE)
  have "conn_inv c \<longrightarrow> conn_inv c'" using search_extends [OF _ assms] extends_inv by blast
  moreover have "same_life c c2" if "push_read_request m SEARCH_ON_READ c1 = Some c2" for c2
    by (rule same_life_trans [OF with_ldap_life [OF call] push_life [OF that]])
  ultimately show ?thesis
    using assms call with_ldap_life [OF call]
    by (auto simp: search_def Let_def same_life_def split: if_splits elim!: bind_SomeE)
qed

lemma install_handlers_life: "connection_install_handlers E c = Some (rc, c') \<Longrightarrow> same_life c c'"
  by (auto simp: connection_install_handlers_def Let_def split: if_splits prod.splits elim!: bind_SomeE
      dest!: with_ldap_life unbind_life) (blast intro: same_life_trans)+

lemma install_and_push_life:
  assumes "install_and_push E m h s c = Some (rc, c')"
  shows "same_life c c'"
proof -
  obtain r c1 where i: "(if handlers_installed c then Some (RETURN_CODE_SUCCESS, c)
                      else connection_install_handlers E c) = Some (r, c1)"
    and rest: "(if r \<noteq> RETURN_CODE_SUCCESS then do { c2 \<leftarrow> unbind E c1; Some (RETURN_CODE_FAILURE, c2) }
          else do { c2 \<leftarrow> push_read_request m h c1; Some (s, c2) }) = Some (rc, c')"
    using assms by (auto simp: install_and_push_def simp del: if_Some_None elim!: bind_SomeE)
  have "same_life c c1" using i install_handlers_life by (auto split: if_splits)
  moreover have "same_life c1 c'"
    using rest unbind_life push_life by (auto split: if_splits elim!: bind_SomeE)
  ultimately show ?thesis by (rule same_life_trans)
qed

lemma start_tls_life: "connection_start_tls E c = Some (rc, c') \<Longrightarrow> same_life c c'"
  by (auto simp: connection_start_tls_def split: if_splits elim!: bind_SomeE
      dest!: with_ldap_life unbind_life install_and_push_life intro: same_life_trans)

lemma sasl_bind_life: "connection_sasl_bind E c = Some (rc, c') \<Longrightarrow> same_life c c'"
  by (auto simp: connection_sasl_bind_def split: if_splits elim!: bind_SomeE
      dest!: with_ldap_life unbind_life install_and_push_life intro: same_life_trans)

lemma interactive_bind_life: "interactive_bind E m i c = Some (r, c') \<Longrightarrow> same_life c c'"
  by (auto simp: interactive_bind_def elim!: bind_SomeE dest!: with_ldap_life)

lemma fetch_diagnostics_life: "fetch_diagnostics E c = Some (r, c') \<Longrightarrow> same_life c c'"
  by (rule same_but_world_life [OF fetch_diagnostics_same])

lemma ldap_bind_life: "connection_ldap_bind E c = Some (rc, c') \<Longrightarrow> same_life c c'"
  by (auto simp: connection_ldap_bind_def split: if_splits elim!: bind_SomeE
      dest!: interactive_bind_life fetch_diagnostics_life unbind_life install_and_push_life)
    (blast intro: same_life_trans)+

lemma search_both_life: "search_both E c dn f g ud = Some (rc, c') \<Longrightarrow> same_life c c'"
  by (auto simp: search_both_def split: if_splits elim!: bind_SomeE dest!: search_life)
    (blast intro: same_life_trans)+

lemma schema_load_life: "ldap_schema_load E c = Some (rc, c') \<Longrightarrow> same_life c c'"
  by (auto simp: ldap_schema_load_def schema_load_openldap_def schema_load_active_directory_def
      split: LdapDirectoryType.splits option.splits if_splits elim!: bind_SomeE
      dest: search_life search_both_life)

lemma get_type_life: "directory_get_type E c = Some (rc, c') \<Longrightarrow> same_life c c'"
  by (auto simp: directory_get_type_def dest: submit_life)

lemma connection_close_life:
  assumes "connection_close E c = Some (rc, c')"
  shows "same_life c c'" and "\<exists>w w'. close_event E (read_event c) w = Some (read_event c', w')"
proof -
  let ?c1 = "\<lambda>r wr w. c\<lparr>read_event := r, write_event := wr, world := w\<rparr>"
  have unbind: "same_life c x \<and> read_event x = r" if "(case base c of Dangling \<Rightarrow> None | Null \<Rightarrow> unbind E (?c1 r wr w)
      | Valid b \<Rightarrow> unbind E ((?c1 r wr w)\<lparr>world := verto_free E b w, base := Dangling\<rparr>)) = Some x" for r wr w x
    using that by (cases "base c") (auto dest!: unbind_life_event simp: same_life_def conn_inv_fields)
  have free: "same_life c x \<and> read_event x = read_event y" if "(case ldap_defaults y of
           Valid _ \<Rightarrow> let (ok, c3) = free_block E y in
             Some (if ok then RETURN_CODE_SUCCESS else RETURN_CODE_FAILURE, c3\<lparr>ldap_defaults := Null\<rparr>)
         | _ \<Rightarrow> Some (RETURN_CODE_FAILURE, y)) = Some (rc, x)" and "same_life c y" for x y
    using that by (auto simp: free_block_def split: cptr.splits prod.splits)
  obtain r w1 where 1: "close_event E (read_event c) (world c) = Some (r, w1)"
    using assms by (auto simp: connection_close_def split: if_splits elim!: bind_SomeE)
  obtain wr w2 where 2: "close_event E (write_event c) w1 = Some (wr, w2)"
    using assms 1 by (auto simp: connection_close_def split: if_splits elim!: bind_SomeE)
  obtain e where 3: "csm_is_in_state (state_machine c) LDAP_CONNECTION_STATE_ERROR (?c1 r wr w2) = Some e"
    using assms 1 2 by (auto simp: connection_close_def Let_def simp del: if_Some_None elim!: bind_SomeE split: if_splits)
  have "same_life c c' \<and> read_event c' = r"
  proof (cases e)
    case True
    then show ?thesis using assms 1 2 3 free [of "?c1 r wr w2" c']
      by (simp add: connection_close_def Let_def del: if_Some_None split: if_splits)
  next
    case False
    then obtain c2 where "(case base c of Dangling \<Rightarrow> None | Null \<Rightarrow> unbind E (?c1 r wr w2)
        | Valid b \<Rightarrow> unbind E ((?c1 r wr w2)\<lparr>world := verto_free E b w2, base := Dangling\<rparr>)) = Some c2"
      and "(case ldap_defaults c2 of
           Valid _ \<Rightarrow> let (ok, c3) = free_block E c2 in
             Some (if ok then RETURN_CODE_SUCCESS else RETURN_CODE_FAILURE, c3\<lparr>ldap_defaults := Null\<rparr>)
         | _ \<Rightarrow> Some (RETURN_CODE_FAILURE, c2)) = Some (rc, c')"
      using assms 1 2 3
      by (cases "base c") (auto simp: connection_close_def Let_def simp del: if_Some_None split: if_splits elim!: bind_SomeE)
    then show ?thesis using unbind free by blast
  qed
  then show "same_life c c'" and "\<exists>w w'. close_event E (read_event c) w = Some (read_event c', w')"
    using 1 by auto
qed

section \<open>The edges of the machine\<close>

text \<open>
  \<open>csm_edge t a b\<close>: with a directory of kind \<open>t\<close>, one step can take the machine from \<open>a\<close> to \<open>b\<close>.
\<close>

inductive csm_edge :: "LdapDirectoryType \<Rightarrow> LdapConnectionState \<Rightarrow> LdapConnectionState \<Rightarrow> bool" for t where
  "csm_edge t LDAP_CONNECTION_STATE_INIT LDAP_CONNECTION_STATE_TLS_NEGOTIATION"
| "csm_edge t LDAP_CONNECTION_STATE_INIT LDAP_CONNECTION_STATE_TRANSPORT_READY"
| "csm_edge t LDAP_CONNECTION_STATE_INIT LDAP_CONNECTION_STATE_ERROR"
| "csm_edge t LDAP_CONNECTION_STATE_TLS_NEGOTIATION LDAP_CONNECTION_STATE_TLS_NEGOTIATION"
| "csm_edge t LDAP_CONNECTION_STATE_TRANSPORT_READY LDAP_CONNECTION_STATE_TRANSPORT_READY"
| "csm_edge t LDAP_CONNECTION_STATE_TRANSPORT_READY LDAP_CONNECTION_STATE_BIND_IN_PROGRESS"
| "csm_edge t LDAP_CONNECTION_STATE_TRANSPORT_READY LDAP_CONNECTION_STATE_DETECT_DIRECTORY"
| "csm_edge t LDAP_CONNECTION_STATE_TRANSPORT_READY LDAP_CONNECTION_STATE_ERROR"
| "csm_edge t LDAP_CONNECTION_STATE_BIND_IN_PROGRESS LDAP_CONNECTION_STATE_BIND_IN_PROGRESS"
| "csm_edge t LDAP_CONNECTION_STATE_BOUND LDAP_CONNECTION_STATE_DETECT_DIRECTORY"
| "t = LDAP_TYPE_UNINITIALIZED \<Longrightarrow> csm_edge t LDAP_CONNECTION_STATE_DETECT_DIRECTORY LDAP_CONNECTION_STATE_DETECT_DIRECTORY"
| "t = LDAP_TYPE_UNINITIALIZED \<Longrightarrow> csm_edge t LDAP_CONNECTION_STATE_DETECT_DIRECTORY LDAP_CONNECTION_STATE_ERROR"
| "t \<noteq> LDAP_TYPE_UNINITIALIZED \<Longrightarrow> csm_edge t LDAP_CONNECTION_STATE_DETECT_DIRECTORY LDAP_CONNECTION_STATE_REQUEST_SCHEMA"
| "t = LDAP_TYPE_ACTIVE_DIRECTORY \<Longrightarrow> csm_edge t LDAP_CONNECTION_STATE_REQUEST_SCHEMA LDAP_CONNECTION_STATE_REQUEST_SCHEMA"
| "csm_edge t LDAP_CONNECTION_STATE_REQUEST_SCHEMA LDAP_CONNECTION_STATE_CHECK_SCHEMA"
| "csm_edge t LDAP_CONNECTION_STATE_REQUEST_SCHEMA LDAP_CONNECTION_STATE_ERROR"
| "csm_edge t LDAP_CONNECTION_STATE_CHECK_SCHEMA LDAP_CONNECTION_STATE_CHECK_SCHEMA"
| "csm_edge t LDAP_CONNECTION_STATE_CHECK_SCHEMA LDAP_CONNECTION_STATE_RUN"
| "csm_edge t LDAP_CONNECTION_STATE_RUN LDAP_CONNECTION_STATE_RUN"
| "csm_edge t LDAP_CONNECTION_STATE_ERROR LDAP_CONNECTION_STATE_INIT"
| "csm_edge t LDAP_CONNECTION_STATE_ERROR LDAP_CONNECTION_STATE_ERROR"

inductive_cases csm_edgeE: "csm_edge t a b"
inductive_simps csm_edge_run: "csm_edge t a LDAP_CONNECTION_STATE_RUN"
inductive_simps csm_edge_request: "csm_edge t a LDAP_CONNECTION_STATE_REQUEST_SCHEMA"
inductive_simps csm_edge_check: "csm_edge t a LDAP_CONNECTION_STATE_CHECK_SCHEMA"

lemma csm_edge_forward: "csm_edge t a b \<Longrightarrow> a \<noteq> LDAP_CONNECTION_STATE_ERROR \<Longrightarrow> a \<le> b"
  by (erule csm_edgeE) (simp_all add: less_eq_LdapConnectionState_def)

text \<open>\<open>moves m st c c'\<close>: the machine \<open>m\<close> is set to \<open>st\<close> and the life of the connection goes on.\<close>

definition moves :: "nat \<Rightarrow> LdapConnectionState \<Rightarrow> ('w, 'h) conn \<Rightarrow> ('w, 'h) conn \<Rightarrow> bool" where
  "moves m st c c' \<longleftrightarrow> state_machine c' = state_machine c \<and> machines c' = (machines c)(m \<mapsto> st) \<and>
     directory_type c' = directory_type c \<and> n_reconnect_attempts c' \<in> {0, n_reconnect_attempts c} \<and>
     has_handle c' = has_handle c \<and> config c' = config c \<and> (conn_inv c \<longrightarrow> conn_inv c')"

lemma csm_set_state_moves:
  "csm_set_state (Some m) st c1 = Some c' \<Longrightarrow> same_life c c1 \<Longrightarrow> moves m st c c'"
  by (auto simp: csm_set_state_def moves_def same_life_def conn_inv_fields elim!: bind_SomeE)

lemma moves_stay: "machines c m = Some st \<Longrightarrow> moves m st c c"
  by (auto simp: moves_def)

lemma tick_init_edge:
  assumes "tick_init E (Some m) c = Some (rc, c')"
  shows "rc = RETURN_CODE_SUCCESS \<and> (\<exists>st. moves m st c c' \<and> csm_edge t LDAP_CONNECTION_STATE_INIT st)"
  using assms
  by (auto simp: tick_init_def split: if_splits elim!: bind_SomeE intro: csm_edge.intros
      dest: start_tls_life csm_set_state_moves)
    (blast dest: start_tls_life csm_set_state_moves intro: csm_edge.intros same_life_refl)+

lemma tick_transport_ready_edge:
  assumes "tick_transport_ready E (Some m) c = Some (rc, c')"
  shows "\<exists>st. moves m st c c' \<and> csm_edge t LDAP_CONNECTION_STATE_TRANSPORT_READY st"
proof -
  obtain r c1 where b: "(if bind_type c = BIND_TYPE_INTERACTIVE then connection_ldap_bind E c
                      else connection_sasl_bind E c) = Some (r, c1)"
    and s: "csm_set_state (Some m)
                 (case r of
                    RETURN_CODE_SUCCESS \<Rightarrow> LDAP_CONNECTION_STATE_DETECT_DIRECTORY
                  | RETURN_CODE_OPERATION_IN_PROGRESS \<Rightarrow> LDAP_CONNECTION_STATE_BIND_IN_PROGRESS
                  | RETURN_CODE_REPEAT_LAST_OPERATION \<Rightarrow> LDAP_CONNECTION_STATE_TRANSPORT_READY
                  | _ \<Rightarrow> LDAP_CONNECTION_STATE_ERROR) c1 = Some c'"
    using assms by (auto simp: tick_transport_ready_def simp del: if_Some_None elim!: bind_SomeE)
  have "same_life c c1" using b by (auto split: if_splits dest: ldap_bind_life sasl_bind_life)
  note m = csm_set_state_moves [OF s this]
  show ?thesis
    by (rule exI, rule conjI, rule m) (cases r; simp add: csm_edge.intros)
qed

lemma tick_detect_directory_edge:
  assumes "tick_detect_directory E (Some m) c = Some (rc, c')"
  shows "rc = RETURN_CODE_SUCCESS \<and>
    (\<exists>st. moves m st c c' \<and> csm_edge (directory_type c) LDAP_CONNECTION_STATE_DETECT_DIRECTORY st)"
  using assms
  by (auto simp: tick_detect_directory_def split: if_splits elim!: bind_SomeE)
    (blast dest: get_type_life csm_set_state_moves intro: csm_edge.intros same_life_refl)+

lemma ldap_schema_load_progress:
  "ldap_schema_load E c = Some (RETURN_CODE_OPERATION_IN_PROGRESS, c') \<Longrightarrow> directory_type c = LDAP_TYPE_ACTIVE_DIRECTORY"
  by (auto simp: ldap_schema_load_def schema_load_openldap_def search_both_def
      split: LdapDirectoryType.splits if_splits elim!: bind_SomeE)

lemma tick_request_schema_edge:
  assumes "tick_request_schema E (Some m) c = Some (rc, c')"
  shows "rc = RETURN_CODE_SUCCESS \<and>
    (\<exists>st. moves m st c c' \<and> csm_edge (directory_type c) LDAP_CONNECTION_STATE_REQUEST_SCHEMA st)"
  using assms
  by (auto simp: tick_request_schema_def split: if_splits elim!: bind_SomeE)
    (blast dest: schema_load_life csm_set_state_moves ldap_schema_load_progress intro: csm_edge.intros)+

lemma tick_error_reconfigures:
  assumes "tick_error E (Some m) c = Some (rc, c')" and "n_reconnect_attempts c < MAX_RECONNECT_ATTEMPTS"
  obtains r c1 cfg r2 c2 where "connection_close E c = Some (r, c1)" and "same_life c c1"
    and "connection_configure E (Some cfg) c1 = Some (r2, c2)" and "machines c2 m \<noteq> None"
    and "c' = c2\<lparr>n_reconnect_attempts := n_reconnect_attempts c2 + 1,
        machines := (machines c2)(m \<mapsto> LDAP_CONNECTION_STATE_INIT)\<rparr>" and "rc = RETURN_CODE_SUCCESS"
proof -
  obtain r c1 where close: "connection_close E c = Some (r, c1)"
    using assms(1) by (auto simp: tick_error_def elim!: bind_SomeE)
  note l = connection_close_life(1) [OF close]
  obtain cfg r2 c2 where "connection_configure E (Some cfg) c1 = Some (r2, c2)"
    and "csm_set_state (Some m) LDAP_CONNECTION_STATE_INIT
           (c2\<lparr>n_reconnect_attempts := n_reconnect_attempts c2 + 1\<rparr>) = Some c'" and "rc = RETURN_CODE_SUCCESS"
    using assms close l
    by (auto simp: tick_error_def connection_configure_def same_life_def split: if_splits elim!: bind_SomeE)
  then show thesis using that close l by (auto simp: csm_set_state_def elim!: bind_SomeE)
qed

lemma tick_error_cases:
  assumes "memory_ok E" and "sessions_ok E" and "tick_error E (Some m) c = Some (rc, c')"
    and "state_machine c = Some m"
  obtains (given_up) "MAX_RECONNECT_ATTEMPTS \<le> n_reconnect_attempts c" and "same_life c c'" and "rc = RETURN_CODE_SUCCESS"
  | (reconnected) k where "n_reconnect_attempts c < MAX_RECONNECT_ATTEMPTS" and "rc = RETURN_CODE_SUCCESS"
      and "state_machine c' = Some k" and "machines c' k = Some LDAP_CONNECTION_STATE_INIT \<or> machines c' k = None"
      and "machines c' m = Some LDAP_CONNECTION_STATE_INIT" and "conn_inv c \<longrightarrow> conn_inv c'"
proof -
  obtain r c1 where close: "connection_close E c = Some (r, c1)"
    using assms(3) by (auto simp: tick_error_def elim!: bind_SomeE)
  note l = connection_close_life(1) [OF close]
  show thesis
  proof (cases "n_reconnect_attempts c < MAX_RECONNECT_ATTEMPTS")
    case False
    then show ?thesis
      using given_up assms(3) close l by (auto simp: tick_error_def same_life_def)
  next
    case True
    obtain r c1 cfg r2 c2 where "connection_close E c = Some (r, c1)" and l: "same_life c c1"
      and conf: "connection_configure E (Some cfg) c1 = Some (r2, c2)" and "machines c2 m \<noteq> None"
      and c': "c' = c2\<lparr>n_reconnect_attempts := n_reconnect_attempts c2 + 1,
        machines := (machines c2)(m \<mapsto> LDAP_CONNECTION_STATE_INIT)\<rparr>" and rc: "rc = RETURN_CODE_SUCCESS"
      by (rule tick_error_reconfigures [OF assms(3) True])
    obtain st where st: "machines c2 m = Some st" using \<open>machines c2 m \<noteq> None\<close> by blast
    have inv: "conn_inv c \<longrightarrow> conn_inv c'"
      using l connection_configure_keeps(2) [OF assms(1,2) conf] by (simp add: c' conn_inv_fields same_life_def)
    from assms(1,2) conf show ?thesis
    proof (cases rule: connection_configure_cases)
      case session
      then show ?thesis
        using reconnected [of m] True rc inv assms(4) l by (simp add: c' same_life_def)
    next
      case failed
      then show ?thesis
        using reconnected [of "machine_count c1"] True rc inv st by (auto simp: c')
    next
      case (finished freed)
      then show ?thesis
        using reconnected [of "machine_count c1"] True rc inv
        by (auto simp: c' configured_def csm_is_in_state_def elim!: bind_SomeE)
    qed
  qed
qed

lemma next_state_moves:
  assumes "csm_next_state E (state_machine c) c = Some (rc, c')" and "state_machine c = Some m"
    and "machines c m = Some st" and False: "st \<noteq> LDAP_CONNECTION_STATE_ERROR"
  shows "\<exists>st'. moves m st' c c' \<and> csm_edge (directory_type c) st st' \<and>
      (st \<noteq> LDAP_CONNECTION_STATE_TRANSPORT_READY \<longrightarrow> rc = RETURN_CODE_SUCCESS) \<and>
      (st' = LDAP_CONNECTION_STATE_RUN \<longrightarrow> st = LDAP_CONNECTION_STATE_RUN \<or> ldap_schema_ready E c = Some True)"
proof (cases st)
  case LDAP_CONNECTION_STATE_INIT
  then show ?thesis
    using assms(1-3) tick_init_edge [of E m c rc c'] by (fastforce simp: csm_next_state_def csm_edge_run)
next
  case LDAP_CONNECTION_STATE_TRANSPORT_READY
  then show ?thesis
    using assms(1-3) tick_transport_ready_edge [of E m c rc c'] by (fastforce simp: csm_next_state_def csm_edge_run)
next
  case LDAP_CONNECTION_STATE_BOUND
  then have "csm_set_state (Some m) LDAP_CONNECTION_STATE_DETECT_DIRECTORY c = Some c'" "rc = RETURN_CODE_SUCCESS"
    using assms(1-3) by (auto simp: csm_next_state_def elim!: bind_SomeE)
  then show ?thesis
    using LDAP_CONNECTION_STATE_BOUND csm_set_state_moves [OF _ same_life_refl] csm_edge.intros
    by blast
next
  case LDAP_CONNECTION_STATE_DETECT_DIRECTORY
  then show ?thesis
    using assms(1-3) tick_detect_directory_edge [of E m c rc c'] by (fastforce simp: csm_next_state_def csm_edge_run)
next
  case LDAP_CONNECTION_STATE_REQUEST_SCHEMA
  then show ?thesis
    using assms(1-3) tick_request_schema_edge [of E m c rc c'] by (fastforce simp: csm_next_state_def csm_edge_run)
next
  case LDAP_CONNECTION_STATE_CHECK_SCHEMA
  then obtain ready where "ldap_schema_ready E c = Some ready" and "rc = RETURN_CODE_SUCCESS"
    and set: "(if ready then csm_set_state (Some m) LDAP_CONNECTION_STATE_RUN c else Some c) = Some c'"
    using assms(1-3) by (auto simp: csm_next_state_def simp del: if_Some_None elim!: bind_SomeE)
  then show ?thesis
    using LDAP_CONNECTION_STATE_CHECK_SCHEMA csm_set_state_moves [OF _ same_life_refl, of m _ c c']
      moves_stay [OF assms(3)]
    by (cases ready) (auto intro: csm_edge.intros)
next
  case LDAP_CONNECTION_STATE_RUN
  then have "c' = c\<lparr>n_reconnect_attempts := 0\<rparr>" "rc = RETURN_CODE_SUCCESS"
    using assms(1-3) by (auto simp: csm_next_state_def)
  moreover from this have "moves m LDAP_CONNECTION_STATE_RUN c c'"
    using assms(3) LDAP_CONNECTION_STATE_RUN by (auto simp: moves_def conn_inv_fields)
  ultimately show ?thesis using LDAP_CONNECTION_STATE_RUN by (auto intro: csm_edge.intros)
qed (use assms(1-3) moves_stay [OF assms(3)] False in \<open>auto simp: csm_next_state_def intro: csm_edge.intros\<close>)

lemma next_state_edge:
  assumes "memory_ok E" and "sessions_ok E" and "csm_next_state E (state_machine c) c = Some (rc, c')"
    and "state_machine c = Some m" and "machines c m = Some st"
  shows "\<exists>st'. machines c' m = Some st' \<and> csm_edge (directory_type c) st st' \<and>
    (st \<noteq> LDAP_CONNECTION_STATE_ERROR \<longrightarrow> st \<le> st' \<and> state_machine c' = Some m \<and>
       machines c' = (machines c)(m \<mapsto> st') \<and> directory_type c' = directory_type c) \<and>
    (st \<noteq> LDAP_CONNECTION_STATE_TRANSPORT_READY \<longrightarrow> rc = RETURN_CODE_SUCCESS) \<and>
    (st' = LDAP_CONNECTION_STATE_RUN \<longrightarrow> st = LDAP_CONNECTION_STATE_RUN \<or> ldap_schema_ready E c = Some True) \<and>
    (conn_inv c \<longrightarrow> conn_inv c')"
proof (cases "st = LDAP_CONNECTION_STATE_ERROR")
  case True
  have "tick_error E (Some m) c = Some (rc, c')"
    using assms(3-5) True by (simp add: csm_next_state_def)
  from assms(1,2) this assms(4) show ?thesis
    by (cases rule: tick_error_cases)
      (use True assms(5) in \<open>auto simp: same_life_def intro: csm_edge.intros\<close>)
next
  case False
  note next_state_moves [OF assms(3-5) False]
  then show ?thesis
    using False csm_edge_forward assms(4) by (fastforce simp: moves_def)
qed

text \<open>
  C8: One step takes the machine along an edge. Except for the reconnection it only goes forward, changes
  neither another machine nor the kind of directory, and only binding returns something else than success.
  The state RUN is entered only with a schema that is ready.
\<close>

theorem next_state_follows_edges:
  assumes "memory_ok E" and "sessions_ok E" and "csm_next_state E (state_machine c) c = Some (rc, c')"
    and "state_machine c = Some m" and "machines c m = Some st"
  shows "\<exists>st'. machines c' m = Some st' \<and> csm_edge (directory_type c) st st' \<and>
    (st \<noteq> LDAP_CONNECTION_STATE_ERROR \<longrightarrow> st \<le> st' \<and> state_machine c' = Some m \<and>
       machines c' = (machines c)(m \<mapsto> st') \<and> directory_type c' = directory_type c) \<and>
    (st \<noteq> LDAP_CONNECTION_STATE_TRANSPORT_READY \<longrightarrow> rc = RETURN_CODE_SUCCESS) \<and>
    (st' = LDAP_CONNECTION_STATE_RUN \<longrightarrow> st = LDAP_CONNECTION_STATE_RUN \<or> ldap_schema_ready E c = Some True) \<and>
    (conn_inv c \<longrightarrow> conn_inv c')"
  by (rule next_state_edge [OF assms])

lemma next_state_follows_edges_witness:
  "\<exists>c'. csm_next_state demo_ext (Some 0) (demo_ready\<lparr>machines := [0 \<mapsto> LDAP_CONNECTION_STATE_BOUND]\<rparr>) =
     Some (RETURN_CODE_SUCCESS, c') \<and> machines c' 0 = Some LDAP_CONNECTION_STATE_DETECT_DIRECTORY"
proof -
  let ?c = "demo_ready\<lparr>machines := [0 \<mapsto> LDAP_CONNECTION_STATE_BOUND]\<rparr>"
  obtain c' where run: "csm_next_state demo_ext (Some 0) ?c = Some (RETURN_CODE_SUCCESS, c')"
    by (simp add: csm_next_state_def csm_set_state_def)
  from next_state_follows_edges [of demo_ext ?c RETURN_CODE_SUCCESS c' 0 LDAP_CONNECTION_STATE_BOUND] run
  show ?thesis by (auto elim: csm_edgeE)
qed

section \<open>The life of a connection\<close>

text \<open>
  The events in the life of a connection: the timer fires while it is there, libldap's descriptor becomes
  readable, the application sends requests. The Boolean says whether the timer is still there.
\<close>

inductive conn_step :: "('w, 'h) ext \<Rightarrow> nat \<Rightarrow> bool \<times> ('w, 'h) conn \<Rightarrow> bool \<times> ('w, 'h) conn \<Rightarrow> bool" for E ev where
  tick: "connection_update E ev c = Some (t, c') \<Longrightarrow> conn_step E ev (True, c) (t, c')"
| readable: "connection_on_read (call_read_operation E) E c = Some c' \<Longrightarrow> conn_step E ev (t, c) (t, c')"
| request: "api_calls E c c' \<Longrightarrow> conn_step E ev (t, c) (t, c')"

inductive reachable :: "('w, 'h) ext \<Rightarrow> nat \<Rightarrow> ldap_connection_config \<Rightarrow> bool \<times> ('w, 'h) conn \<Rightarrow> bool" for E ev cfg where
  start: "configured cfg c \<Longrightarrow> reachable E ev cfg (True, c)"
| step: "reachable E ev cfg s \<Longrightarrow> conn_step E ev s s' \<Longrightarrow> reachable E ev cfg s'"

definition life_inv :: "bool \<times> ('w, 'h) conn \<Rightarrow> bool" where
  "life_inv s \<longleftrightarrow> (case s of (timer, c) \<Rightarrow>
     conn_inv c \<and>
     (\<forall>m st. state_machine c = Some m \<longrightarrow> machines c m = Some st \<longrightarrow>
        (st \<in> {LDAP_CONNECTION_STATE_REQUEST_SCHEMA, LDAP_CONNECTION_STATE_CHECK_SCHEMA, LDAP_CONNECTION_STATE_RUN} \<longrightarrow>
           directory_type c \<noteq> LDAP_TYPE_UNINITIALIZED) \<and>
        (timer \<longrightarrow> st \<noteq> LDAP_CONNECTION_STATE_RUN)))"

lemma settles_life_inv:
  assumes "life_inv (t, c)" and "settles c c'" and "conn_inv c'"
  shows "life_inv (t, c')"
proof -
  have "(st \<in> {LDAP_CONNECTION_STATE_REQUEST_SCHEMA, LDAP_CONNECTION_STATE_CHECK_SCHEMA, LDAP_CONNECTION_STATE_RUN} \<longrightarrow>
           directory_type c' \<noteq> LDAP_TYPE_UNINITIALIZED) \<and> (t \<longrightarrow> st \<noteq> LDAP_CONNECTION_STATE_RUN)"
    if "state_machine c' = Some m" and st: "machines c' m = Some st" for m st
  proof -
    have "state_machine c = Some m" using that(1) assms(2) by (simp add: settles_def)
    moreover have "machines c' m = machines c m \<or> machines c' m \<in>
        Some ` {LDAP_CONNECTION_STATE_BOUND, LDAP_CONNECTION_STATE_ERROR, LDAP_CONNECTION_STATE_TRANSPORT_READY}"
      using assms(2) unfolding settles_def by blast
    then consider "machines c m = Some st"
      | "st \<in> {LDAP_CONNECTION_STATE_BOUND, LDAP_CONNECTION_STATE_ERROR, LDAP_CONNECTION_STATE_TRANSPORT_READY}"
      using st by auto
    moreover have "directory_type c' = LDAP_TYPE_UNINITIALIZED \<longrightarrow> directory_type c = LDAP_TYPE_UNINITIALIZED"
      using assms(2) unfolding settles_def by blast
    ultimately show ?thesis using assms(1) by cases (auto simp: life_inv_def)
  qed
  then show ?thesis using assms(3) by (simp add: life_inv_def)
qed

lemma connection_updateE:
  assumes "connection_update E ev c = Some (t, c')"
  obtains rc c1 m st where "csm_next_state E (state_machine c) c = Some (rc, c1)"
    and "state_machine c1 = Some m" and "machines c1 m = Some st"
    and "t \<longleftrightarrow> st \<notin> {LDAP_CONNECTION_STATE_RUN, LDAP_CONNECTION_STATE_ERROR}" and "same_but_world c1 c'"
proof -
  obtain rc c1 run failed where n: "csm_next_state E (state_machine c) c = Some (rc, c1)"
    and r: "csm_is_in_state (state_machine c1) LDAP_CONNECTION_STATE_RUN c1 = Some run"
    and f: "csm_is_in_state (state_machine c1) LDAP_CONNECTION_STATE_ERROR c1 = Some failed"
    and res: "(if run \<or> failed then (False, c1\<lparr>world := verto_del E ev (world c1)\<rparr>) else (True, c1)) = (t, c')"
    using assms by (auto simp: connection_update_def simp del: if_Some_None elim!: bind_SomeE)
  obtain m st where st: "state_machine c1 = Some m" "machines c1 m = Some st"
    using r by (auto simp: csm_is_in_state_def elim!: bind_SomeE)
  have "t \<longleftrightarrow> st \<notin> {LDAP_CONNECTION_STATE_RUN, LDAP_CONNECTION_STATE_ERROR}"
    using res r f st by (auto simp: csm_is_in_state_def split: if_splits)
  moreover have "same_but_world c1 c'" using res by (auto split: if_splits)
  ultimately show thesis using that n st by blast
qed

lemma update_life_inv:
  assumes "memory_ok E" and "sessions_ok E" and "life_inv (True, c)" and "connection_update E ev c = Some (t, c')"
  shows "life_inv (t, c')"
proof -
  obtain rc c1 m1 st1 where n: "csm_next_state E (state_machine c) c = Some (rc, c1)"
    and r: "state_machine c1 = Some m1" "machines c1 m1 = Some st1"
    and t: "t \<longleftrightarrow> st1 \<notin> {LDAP_CONNECTION_STATE_RUN, LDAP_CONNECTION_STATE_ERROR}" and c': "same_but_world c1 c'"
    using assms(4) by (rule connection_updateE)
  obtain m where m: "state_machine c = Some m" "machines c m \<noteq> None"
    using n by (auto simp: csm_next_state_def elim!: bind_SomeE)
  then obtain st where st: "machines c m = Some st" by blast
  note edge = next_state_edge [OF assms(1,2) n m(1) st]
  have inv: "conn_inv c1" using edge assms(3) by (auto simp: life_inv_def)
  have "life_inv (t, c1)"
  proof (cases "st = LDAP_CONNECTION_STATE_ERROR")
    case True
    have "tick_error E (Some m) c = Some (rc, c1)"
      using n m(1) st True by (simp add: csm_next_state_def)
    from assms(1,2) this m(1) show ?thesis
    proof (cases rule: tick_error_cases)
      case given_up
      then show ?thesis using m(1) st True inv by (auto simp: life_inv_def same_life_def)
    next
      case (reconnected k)
      then show ?thesis using inv by (auto simp: life_inv_def)
    qed
  next
    case False
    obtain st' where st': "machines c1 m = Some st'" "csm_edge (directory_type c) st st'"
      "state_machine c1 = Some m" "directory_type c1 = directory_type c"
      using edge False by blast
    have "st \<noteq> LDAP_CONNECTION_STATE_RUN" using assms(3) m(1) st by (auto simp: life_inv_def)
    moreover have "t \<longrightarrow> st' \<noteq> LDAP_CONNECTION_STATE_RUN"
      using r t st' by auto
    ultimately show ?thesis
      using inv st' assms(3) m(1) st
      by (auto simp: life_inv_def csm_edge_run csm_edge_request csm_edge_check)
  qed
  then show ?thesis using c' by (auto simp: life_inv_def elim!: same_but_worldE)
qed

lemma conn_step_life_inv:
  assumes "callbacks_ok E" and "memory_ok E" and "sessions_ok E" and "conn_step E ev s s'" and "life_inv s"
  shows "life_inv s'"
  using assms(4,5)
proof cases
  case (tick c t c')
  then show ?thesis using update_life_inv [OF assms(2,3)] assms(5) by blast
next
  case (readable c c' t)
  then have "conn_inv c" using assms(5) by (simp add: life_inv_def)
  then show ?thesis
    using readable event_loop_settles [OF assms(1)] event_loop_inv [OF assms(1)] settles_life_inv assms(5) by blast
next
  case (request c c' t)
  then have "extends c c'" using api_calls_extends assms(5) by (auto simp: life_inv_def)
  then show ?thesis
    using request settles_life_inv extends_settles extends_inv assms(5) by blast
qed



section \<open>Reconnecting\<close>

text \<open>\<open>reconnects E\<close>: configurations succeed.\<close>

definition reconnects :: "('w, 'h) ext \<Rightarrow> bool" where
  "reconnects E \<longleftrightarrow> (\<forall>cfg c rc c'. connection_configure E cfg c = Some (rc, c') \<longrightarrow> rc = RETURN_CODE_SUCCESS)"

lemma reconnected_state:
  assumes "memory_ok E" and "sessions_ok E" and "reconnects E" and "tick_error E (Some m) c = Some (rc, c')"
    and "n_reconnect_attempts c < MAX_RECONNECT_ATTEMPTS"
  shows "n_reconnect_attempts c' = 1 \<and> csm_is_in_state (state_machine c') LDAP_CONNECTION_STATE_INIT c' = Some True \<and>
    outstanding c' = [] \<and> \<not> handlers_installed c' \<and>
    (\<forall>r c1. connection_close E c = Some (r, c1) \<longrightarrow> read_event c' = read_event c1)"
proof -
  obtain r c1 cfg r2 c2 where close: "connection_close E c = Some (r, c1)" and "same_life c c1"
    and conf: "connection_configure E (Some cfg) c1 = Some (r2, c2)" and "machines c2 m \<noteq> None"
    and c': "c' = c2\<lparr>n_reconnect_attempts := n_reconnect_attempts c2 + 1,
        machines := (machines c2)(m \<mapsto> LDAP_CONNECTION_STATE_INIT)\<rparr>" and "rc = RETURN_CODE_SUCCESS"
    by (rule tick_error_reconfigures [OF assms(4,5)])
  have "r2 = RETURN_CODE_SUCCESS" using assms(3) conf by (auto simp: reconnects_def)
  with conf have c2: "configured cfg c2" using configured_after(1) [OF assms(1,2)] by blast
  then obtain k where "state_machine c2 = Some k" "machines c2 k = Some LDAP_CONNECTION_STATE_INIT"
    by (auto simp: configured_def csm_is_in_state_def elim!: bind_SomeE)
  moreover have "waiting c' = waiting c2" by (simp add: c' waiting_def split: option.splits)
  ultimately show ?thesis
    using c2 close connection_configure_keeps(1) [OF assms(1,2) conf]
    by (simp add: configured_def tables_ready_def csm_is_in_state_def outstanding_def) (simp add: c')
qed

text \<open>
  C19: While configurations succeed, the counter of reconnections never gets beyond one: \<open>connection_configure\<close>
  resets it before it is incremented, so that the limit of ten attempts is never reached.
\<close>

theorem reconnection_limit_not_reached:
  assumes "callbacks_ok E" and "memory_ok E" and "sessions_ok E" and "reconnects E"
    and "reachable E ev cfg (timer, c)"
  shows "0 \<le> n_reconnect_attempts c \<and> n_reconnect_attempts c \<le> 1"
proof -
  have settled: "n_reconnect_attempts c' = n_reconnect_attempts c" if "settles c c'" for c c' :: "('a, 'b) conn"
    using that by (simp add: settles_def)
  have counted: "n_reconnect_attempts c' \<in> {0, 1, n_reconnect_attempts c}"
    if "csm_next_state E (state_machine c) c = Some (rc, c')" for rc and c c' :: "('a, 'b) conn"
  proof -
    have "\<exists>m st. state_machine c = Some m \<and> machines c m = Some st"
      using that by (auto simp: csm_next_state_def elim!: bind_SomeE)
    then obtain m st where m: "state_machine c = Some m" "machines c m = Some st" by blast
    show ?thesis
    proof (cases "st = LDAP_CONNECTION_STATE_ERROR")
      case True
      then have e: "tick_error E (Some m) c = Some (rc, c')"
        using that m by (simp add: csm_next_state_def)
      show ?thesis
      proof (cases "n_reconnect_attempts c < MAX_RECONNECT_ATTEMPTS")
        case True
        then show ?thesis using reconnected_state [OF assms(2-4) e] by simp
      next
        case False
        from assms(2,3) e m(1) show ?thesis
          by (cases rule: tick_error_cases) (use False in \<open>simp_all add: same_life_def\<close>)
      qed
    next
      case False
      then show ?thesis using next_state_moves [OF that m] by (auto simp: moves_def)
    qed
  qed
  have "conn_inv c \<and> 0 \<le> n_reconnect_attempts c \<and> n_reconnect_attempts c \<le> 1"
    using assms(5)
  proof (induction "(timer, c)" arbitrary: timer c rule: reachable.induct)
    case (start c)
    then show ?case by (simp add: configured_def tables_ready_def)
  next
    case (step s timer c)
    obtain t0 c0 where s: "s = (t0, c0)" by (cases s)
    have IH: "conn_inv c0" "0 \<le> n_reconnect_attempts c0" "n_reconnect_attempts c0 \<le> 1" using step.hyps(2) s by auto
    from step.hyps(3) show ?case unfolding s
    proof cases
      case tick
      obtain rc c1 m1 st1 where n: "csm_next_state E (state_machine c0) c0 = Some (rc, c1)"
        and "state_machine c1 = Some m1" and "machines c1 m1 = Some st1"
        and "timer \<longleftrightarrow> st1 \<notin> {LDAP_CONNECTION_STATE_RUN, LDAP_CONNECTION_STATE_ERROR}" and c: "same_but_world c1 c"
        using tick(2) by (rule connection_updateE)
      obtain m st where "state_machine c0 = Some m" "machines c0 m = Some st"
        using n by (auto simp: csm_next_state_def elim!: bind_SomeE)
      then have "conn_inv c1" using next_state_edge [OF assms(2,3) n] IH(1) by blast
      then show ?thesis using counted [OF n] IH c by (auto elim!: same_but_worldE)
    next
      case readable
      then show ?thesis using event_loop_settles event_loop_inv settled assms(1) IH by metis
    next
      case request
      then have "extends c0 c" using api_calls_extends IH(1) by blast
      then show ?thesis using settled IH extends_settles extends_inv by metis
    qed
  qed
  then show ?thesis by blast
qed

text \<open>Every step of a configuration succeeds in the demonstration world.\<close>

definition never_fails :: "('w, 'h) step \<Rightarrow> bool" where
  "never_fails f \<longleftrightarrow> (\<forall>c ok c'. f c = Some (ok, c') \<longrightarrow> ok)"

lemma never_failsI: "(\<And>c ok c'. f c = Some (ok, c') \<Longrightarrow> ok) \<Longrightarrow> never_fails f"
  unfolding never_fails_def by blast

lemma never_failsD: "never_fails f \<Longrightarrow> f c = Some (ok, c') \<Longrightarrow> ok"
  unfolding never_fails_def by blast

lemma never_fails_False: "never_fails f \<Longrightarrow> f c \<noteq> Some (False, c')"
  unfolding never_fails_def by blast

lemma run_steps_never_fails: "\<forall>f \<in> set fs. never_fails f \<Longrightarrow> never_fails (run_steps fs)"
proof (induction fs)
  case Nil
  then show ?case by (simp add: never_fails_def)
next
  case (Cons f fs)
  have fs: "never_fails f" "never_fails (run_steps fs)" using Cons by simp_all
  show ?case
  proof (rule never_failsI)
    fix c ok c'
    assume "run_steps (f # fs) c = Some (ok, c')"
    then obtain go c1 where "f c = Some (go, c1)" "(if go then run_steps fs c1 else Some (False, c1)) = Some (ok, c')"
      by (auto elim!: bind_SomeE)
    then show ok using never_failsD [OF fs(1)] never_failsD [OF fs(2)] by (cases go) auto
  qed
qed

lemma never_fails_cases:
  "never_fails f \<Longrightarrow> never_fails (\<lambda>c. if b then f c else Some (True, c))"
  "never_fails f \<Longrightarrow> never_fails (\<lambda>c. if b then Some (True, c) else f c)"
  "(\<And>x. never_fails (g x)) \<Longrightarrow> never_fails (\<lambda>c. do { x \<leftarrow> m; g x c })"
  by (auto simp: never_fails_def elim!: bind_SomeE)

lemma demo_steps_never_fail:
  "never_fails (set_option demo_ext opt v)" "never_fails (set_timeout demo_ext opt us)"
  "never_fails (get_default demo_ext opt upd)" "never_fails (defaults_step demo_ext)"
  "never_fails (tables_step demo_ext cfg)" "never_fails (base_step demo_ext)"
  "never_fails (when_given x (\<lambda>f. set_option demo_ext opt (StringValue (Some f))))"
  "never_fails (\<lambda>c. do { d \<leftarrow> deref (ldap_defaults c); Some (True, c\<lparr>ldap_defaults := Valid (f d)\<rparr>) })"
  "never_fails (\<lambda>c. do { d \<leftarrow> deref (ldap_defaults c);
        (case y of
           None \<Rightarrow> Some (True, c)
         | Some m \<Rightarrow> let (ok, c1) = alloc demo_ext c in
             Some (ok, c1\<lparr>ldap_defaults := Valid (d\<lparr>sd_mechanism := (if ok then Some m else None)\<rparr>)\<rparr>)) })"
  by (auto simp: never_fails_def set_option_def set_timeout_def connection_microseconds_to_timeval_def with_ldap_def
      get_default_def defaults_step_def tables_step_def base_step_def when_given_def Let_def
      split: if_splits prod.splits option.splits elim!: bind_SomeE)

lemma demo_reconnects: "reconnects demo_ext"
proof -
  have option: "never_fails (option_steps demo_ext cfg)" for cfg
    unfolding option_steps_def
    by (intro run_steps_never_fails) (simp add: demo_steps_never_fail never_fails_cases(1))
  have "never_fails (tls_steps demo_ext cfg)" for cfg
    unfolding tls_steps_def
    by (intro never_fails_cases run_steps_never_fails) (simp add: demo_steps_never_fail)
  moreover have "never_fails (sasl_steps demo_ext cfg)" for cfg
    unfolding sasl_steps_def
    by (intro never_fails_cases run_steps_never_fails) (simp add: demo_steps_never_fail)
  ultimately have resources: "never_fails (resource_steps demo_ext cfg)" for cfg
    unfolding resource_steps_def by (intro run_steps_never_fails) (simp add: demo_steps_never_fail)
  have first: "never_fails (run_steps [initialize_step demo_ext cfg, machine_step demo_ext])" for cfg
    by (intro run_steps_never_fails) (auto simp: never_fails_def initialize_step_def machine_step_def Let_def)
  show ?thesis
    by (auto simp: reconnects_def connection_configure_def Let_def simp del: run_steps.simps split: if_splits
        simp: never_fails_False [OF first] never_fails_False [OF option] never_fails_False [OF resources] elim!: bind_SomeE)
qed

lemma reconnection_limit_not_reached_witness:
  "\<exists>c. reachable demo_ext 0 demo_config (True, c) \<and> n_reconnect_attempts c \<le> 1"
proof -
  obtain c where "connection_configure demo_ext (Some demo_config) demo_conn = Some (RETURN_CODE_SUCCESS, c)"
    using demo_configure by blast
  then have "reachable demo_ext 0 demo_config (True, c)"
    by (intro reachable.start configured_after) simp_all
  then show ?thesis
    using reconnection_limit_not_reached [of demo_ext 0 demo_config True c] demo_reconnects by auto
qed

text \<open>
  C22: A reconnection starts over with a fresh machine, but the connection still holds the address of the read
  event that \<open>connection_close\<close> has deleted: closing the connection before event handlers are installed
  again is undefined.
\<close>

theorem reconnection_keeps_deleted_events:
  assumes "memory_ok E" and "sessions_ok E" and "reconnects E"
    and "csm_next_state E (state_machine c) c = Some (rc, c')"
    and "csm_is_in_state (state_machine c) LDAP_CONNECTION_STATE_ERROR c = Some True"
    and "n_reconnect_attempts c < MAX_RECONNECT_ATTEMPTS" and "read_event c = Valid r"
  shows "csm_is_in_state (state_machine c') LDAP_CONNECTION_STATE_INIT c' = Some True \<and>
    outstanding c' = [] \<and> \<not> handlers_installed c' \<and> n_reconnect_attempts c' = 1 \<and>
    read_event c' = Dangling \<and> connection_close E c' = None"
proof -
  obtain m where m: "state_machine c = Some m" "machines c m = Some LDAP_CONNECTION_STATE_ERROR"
    using assms(5) by (auto simp: csm_is_in_state_def elim!: bind_SomeE)
  have e: "tick_error E (Some m) c = Some (rc, c')"
    using assms(4) m by (simp add: csm_next_state_def)
  note state = reconnected_state [OF assms(1-3) e assms(6)]
  obtain x c1 where close: "connection_close E c = Some (x, c1)"
    using e by (auto simp: tick_error_def elim!: bind_SomeE)
  have "read_event c1 = Dangling"
    using connection_close_life(2) [OF close] assms(7) by (auto simp: close_event_def)
  then have d: "read_event c' = Dangling" using state close by metis
  then have "connection_close E c' = None" by (simp add: connection_close_def close_event_def)
  with state d show ?thesis by blast
qed

lemma reconnection_keeps_deleted_events_witness:
  "\<exists>c'. csm_next_state demo_ext (Some 0) (demo_ready\<lparr>machines := [0 \<mapsto> LDAP_CONNECTION_STATE_ERROR],
       config := Some demo_config\<rparr>) = Some (RETURN_CODE_SUCCESS, c') \<and>
     n_reconnect_attempts c' = 1 \<and> connection_close demo_ext c' = None"
proof -
  let ?c = "demo_ready\<lparr>machines := [0 \<mapsto> LDAP_CONNECTION_STATE_ERROR], config := Some demo_config\<rparr>"
  have f: "read_event ?c = Valid 0" "write_event ?c = Valid 0" "n_reconnect_attempts ?c = 0" "has_handle ?c"
    "csm_is_in_state (state_machine ?c) LDAP_CONNECTION_STATE_ERROR ?c = Some True"
    by (simp_all add: demo_ready_def demo_conn_def csm_is_in_state_def)
  obtain x c1 where close: "connection_close demo_ext ?c = Some (x, c1)"
    using f by (auto simp: connection_close_def close_event_def demo_ready_params csm_is_in_state_def)
  then have l: "same_life ?c c1" by (rule connection_close_life)
  obtain c2 where conf: "connection_configure demo_ext (Some demo_config) c1 = Some (RETURN_CODE_SUCCESS, c2)"
    and m: "machines c2 = (machines c1)(machine_count c1 \<mapsto> LDAP_CONNECTION_STATE_INIT)"
    using demo_configure_any [of c1] by blast
  have "machines c2 0 \<noteq> None" using l m by (simp add: same_life_def)
  then have "tick_error demo_ext (Some 0) ?c = Some (RETURN_CODE_SUCCESS,
      c2\<lparr>n_reconnect_attempts := n_reconnect_attempts c2 + 1, machines := (machines c2)(0 \<mapsto> LDAP_CONNECTION_STATE_INIT)\<rparr>)"
    using close conf l f by (auto simp: tick_error_def csm_set_state_def same_life_def)
  then have run: "csm_next_state demo_ext (state_machine ?c) ?c = Some (RETURN_CODE_SUCCESS,
      c2\<lparr>n_reconnect_attempts := n_reconnect_attempts c2 + 1, machines := (machines c2)(0 \<mapsto> LDAP_CONNECTION_STATE_INIT)\<rparr>)"
    by (simp add: csm_next_state_def)
  show ?thesis
    using reconnection_keeps_deleted_events [OF _ _ demo_reconnects run f(5)] f run by auto
qed

section \<open>Runs of the timer\<close>

text \<open>\<open>in_state m st c\<close>: the connection's machine is \<open>m\<close>, in state \<open>st\<close>. \<open>ticks\<close>: the timer fires up to \<open>n\<close> times.\<close>

definition in_state :: "nat \<Rightarrow> LdapConnectionState \<Rightarrow> ('w, 'h) conn \<Rightarrow> bool" where
  "in_state m st c \<longleftrightarrow> state_machine c = Some m \<and> machines c m = Some st"

fun ticks :: "('w, 'h) ext \<Rightarrow> nat \<Rightarrow> nat \<Rightarrow> ('w, 'h) conn \<Rightarrow> (bool \<times> ('w, 'h) conn) option" where
  "ticks E ev 0 c = Some (True, c)"
| "ticks E ev (Suc n) c =
     do { (t, c1) \<leftarrow> connection_update E ev c; if t then ticks E ev n c1 else Some (False, c1) }"

lemma update_goes_on:
  assumes "csm_next_state E (state_machine c) c = Some (rc, c')" and "in_state m st c'"
    and "st \<notin> {LDAP_CONNECTION_STATE_RUN, LDAP_CONNECTION_STATE_ERROR}"
  shows "connection_update E ev c = Some (True, c')"
  using assms by (auto simp: connection_update_def csm_is_in_state_def in_state_def)

lemma update_ends:
  assumes "csm_next_state E (state_machine c) c = Some (rc, c')" and "in_state m st c'"
    and "st \<in> {LDAP_CONNECTION_STATE_RUN, LDAP_CONNECTION_STATE_ERROR}"
  shows "connection_update E ev c = Some (False, c'\<lparr>world := verto_del E ev (world c')\<rparr>)"
  using assms by (auto simp: connection_update_def csm_is_in_state_def in_state_def)

abbreviation set_machine :: "nat \<Rightarrow> LdapConnectionState \<Rightarrow> ('w, 'h) conn \<Rightarrow> ('w, 'h) conn" where
  "set_machine m st c \<equiv> c\<lparr>machines := (machines c)(m \<mapsto> st)\<rparr>"

lemma in_state_set_machine [simp]: "in_state m st (set_machine m st' c) \<longleftrightarrow> state_machine c = Some m \<and> st = st'"
  by (auto simp: in_state_def)

lemma set_machine_tables [simp]:
  "outstanding (c\<lparr>machines := ms\<rparr>) = outstanding c" "waiting (c\<lparr>machines := ms\<rparr>) = waiting c"
  "searches (c\<lparr>machines := ms\<rparr>) = searches c" "can_install E (c\<lparr>machines := ms\<rparr>) = can_install E c"
  "conn_inv (c\<lparr>machines := ms\<rparr>) = conn_inv c"
  by (simp_all add: outstanding_def waiting_def searches_def can_install_def conn_inv_fields split: option.splits)

text \<open>The message ids that libldap returns for a bind and for a search of one entry.\<close>

definition bind_id :: "('w, 'h) ext \<Rightarrow> nat \<Rightarrow> int \<Rightarrow> bool" where
  "bind_id E ld i \<longleftrightarrow> (\<exists>dn mech pw w. fst (ldap_sasl_bind E ld dn mech pw w) = (LDAP_SUCCESS, i))"

definition search_id :: "('w, 'h) ext \<Rightarrow> nat \<Rightarrow> string \<Rightarrow> string \<Rightarrow> string \<Rightarrow> int \<Rightarrow> bool" where
  "search_id E ld dn flt attr i \<longleftrightarrow>
     (\<exists>w. fst (ldap_search_ext E ld (Some dn) LDAP_SCOPE_BASE (Some flt) (Some [attr]) False w) = (LDAP_SUCCESS, i))"

lemma detect_tick:
  assumes "conn_inv c" and "ldap c = Valid ld" and "in_state m LDAP_CONNECTION_STATE_DETECT_DIRECTORY c"
    and "directory_type c = LDAP_TYPE_UNINITIALIZED" and "accepts_searches E" and "n_read_requests c < MAX_REQUESTS"
  shows "\<exists>c' i. connection_update E ev c = Some (True, c') \<and> conn_inv c' \<and> ldap c' = Valid ld \<and>
    in_state m LDAP_CONNECTION_STATE_DETECT_DIRECTORY c' \<and> directory_type c' = LDAP_TYPE_UNINITIALIZED \<and>
    n_read_requests c' = n_read_requests c + 1 \<and> outstanding c' = outstanding c @ [(i, Some DIRECTORY_PARSE_RESULT)] \<and>
    bind_type c' = bind_type c \<and> schema c' = schema c \<and> n_search_requests c' = n_search_requests c \<and>
    schemas c' = schemas c \<and> has_handle c' = has_handle c \<and> search_id E ld '''' ''(objectClass=*)'' ''*'' i"
proof -
  obtain i w where s: "ldap_search_ext E ld (Some '''') LDAP_SCOPE_BASE (Some ''(objectClass=*)'') (Some [''*'']) False (world c) =
      ((LDAP_SUCCESS, i), w)"
    using assms(5) unfolding accepts_searches_def by (metis prod.exhaust_sel)
  obtain c1 where get: "directory_get_type E c = Some (RETURN_CODE_SUCCESS, c1)"
    and e: "enqueued c w i DIRECTORY_PARSE_RESULT c1"
    using submit_submitted [OF assms(1,2,6), of "\<lambda>ld. ldap_search_ext E ld (Some '''') LDAP_SCOPE_BASE (Some ''(objectClass=*)'')
        (Some [''*'']) False" DIRECTORY_PARSE_RESULT] s
    by (auto simp: directory_get_type_def submitted_def)
  note f = enqueued_frame [OF e]
  let ?c = "set_machine m LDAP_CONNECTION_STATE_DETECT_DIRECTORY c1"
  have "csm_next_state E (state_machine c) c = Some (RETURN_CODE_SUCCESS, ?c)"
    using assms(3,4) get f by (simp add: csm_next_state_def tick_detect_directory_def csm_set_state_def in_state_def)
  then have "connection_update E ev c = Some (True, ?c)"
    by (rule update_goes_on [where m = m and st = LDAP_CONNECTION_STATE_DETECT_DIRECTORY])
      (use assms(3) f in \<open>simp_all add: in_state_def\<close>)
  moreover have "search_id E ld '''' ''(objectClass=*)'' ''*'' i"
    unfolding search_id_def using s by (intro exI [of _ "world c"]) simp
  ultimately show ?thesis
    using assms(2-4) f enqueued_outstanding [OF e]
    by (intro exI [of _ ?c] exI [of _ i]) (simp add: in_state_def)
qed

lemma detect_ticks:
  assumes "conn_inv c" and "ldap c = Valid ld" and "in_state m LDAP_CONNECTION_STATE_DETECT_DIRECTORY c"
    and "directory_type c = LDAP_TYPE_UNINITIALIZED" and "accepts_searches E" and "n_read_requests c + int k \<le> MAX_REQUESTS"
  shows "\<exists>c' is. ticks E ev k c = Some (True, c') \<and> length is = k \<and> conn_inv c' \<and> ldap c' = Valid ld \<and>
    in_state m LDAP_CONNECTION_STATE_DETECT_DIRECTORY c' \<and> directory_type c' = LDAP_TYPE_UNINITIALIZED \<and>
    n_read_requests c' = n_read_requests c + int k \<and>
    outstanding c' = outstanding c @ map (\<lambda>i. (i, Some DIRECTORY_PARSE_RESULT)) is"
  using assms
proof (induction k arbitrary: c)
  case 0
  then show ?case by (intro exI [of _ c] exI [of _ "[]"]) simp
next
  case (Suc k)
  have room: "n_read_requests c < MAX_REQUESTS" using Suc.prems(6) by simp
  obtain c1 i where 1: "connection_update E ev c = Some (True, c1)" "conn_inv c1" "ldap c1 = Valid ld"
    "in_state m LDAP_CONNECTION_STATE_DETECT_DIRECTORY c1" "directory_type c1 = LDAP_TYPE_UNINITIALIZED"
    "n_read_requests c1 = n_read_requests c + 1" "outstanding c1 = outstanding c @ [(i, Some DIRECTORY_PARSE_RESULT)]"
    using detect_tick [OF Suc.prems(1-5) room] by blast
  then have "n_read_requests c1 + int k \<le> MAX_REQUESTS" using Suc.prems(6) by simp
  from Suc.IH [OF 1(2-5) assms(5) this] obtain c2 ids where 2: "ticks E ev k c1 = Some (True, c2)" "length ids = k"
    "conn_inv c2" "ldap c2 = Valid ld" "in_state m LDAP_CONNECTION_STATE_DETECT_DIRECTORY c2"
    "directory_type c2 = LDAP_TYPE_UNINITIALIZED" "n_read_requests c2 = n_read_requests c1 + int k"
    "outstanding c2 = outstanding c1 @ map (\<lambda>i. (i, Some DIRECTORY_PARSE_RESULT)) ids"
    by blast
  then show ?case using 1 by (intro exI [of _ c2] exI [of _ "i # ids"]) simp
qed

lemma ticks_Suc_right:
  "ticks E ev n c = Some (True, c1) \<Longrightarrow> ticks E ev (Suc n) c =
     do { (t, c2) \<leftarrow> connection_update E ev c1; if t then Some (True, c2) else Some (False, c2) }"
proof (induction n arbitrary: c)
  case 0
  then show ?case by (cases "connection_update E ev c") auto
next
  case (Suc n)
  obtain t c2 where u: "connection_update E ev c = Some (t, c2)"
    using Suc.prems by (auto elim!: bind_SomeE)
  then have "t" "ticks E ev n c2 = Some (True, c1)" using Suc.prems by (auto split: if_splits)
  with Suc.IH [of c2] u show ?case by simp
qed

text \<open>
  C21: While the server does not answer, every tick of the timer asks for the kind of directory once more: after
  \<open>k\<close> ticks \<open>k\<close> further searches are outstanding. With the table of requests full, the next tick writes
  behind its end.
\<close>

theorem detection_fills_the_table:
  assumes "conn_inv c" and "ldap c = Valid ld" and "in_state m LDAP_CONNECTION_STATE_DETECT_DIRECTORY c"
    and "directory_type c = LDAP_TYPE_UNINITIALIZED" and "accepts_searches E" and "n_read_requests c + int n = MAX_REQUESTS"
  shows "(\<forall>k \<le> n. \<exists>c' is. ticks E ev k c = Some (True, c') \<and> length is = k \<and>
      outstanding c' = outstanding c @ map (\<lambda>i. (i, Some DIRECTORY_PARSE_RESULT)) is) \<and>
    ticks E ev (Suc n) c = None"
proof
  show "\<forall>k \<le> n. \<exists>c' is. ticks E ev k c = Some (True, c') \<and> length is = k \<and>
      outstanding c' = outstanding c @ map (\<lambda>i. (i, Some DIRECTORY_PARSE_RESULT)) is"
    using detect_ticks [OF assms(1-5)] assms(6) by (metis add_left_mono of_nat_mono)
  obtain c1 where run: "ticks E ev n c = Some (True, c1)" and c1: "ldap c1 = Valid ld"
    "in_state m LDAP_CONNECTION_STATE_DETECT_DIRECTORY c1" "directory_type c1 = LDAP_TYPE_UNINITIALIZED"
    "n_read_requests c1 = MAX_REQUESTS"
    using detect_ticks [OF assms(1-5), of n ev] assms(6) by auto
  have "directory_get_type E c1 = None"
    unfolding directory_get_type_def
    by (rule submit_full [OF c1(1,4)]) (use assms(5) in \<open>simp add: accepts_searches_def\<close>)
  then have "connection_update E ev c1 = None"
    using c1 by (simp add: connection_update_def csm_next_state_def tick_detect_directory_def in_state_def)
  then show "ticks E ev (Suc n) c = None" by (simp only: ticks_Suc_right [OF run]) simp
qed

lemma demo_conn_machine: "state_machine demo_conn = Some 0" "directory_type demo_conn = LDAP_TYPE_UNINITIALIZED"
  by (simp_all add: demo_conn_def)

lemma detection_fills_the_table_witness:
  "ticks demo_ext 0 8193 (set_machine 0 LDAP_CONNECTION_STATE_DETECT_DIRECTORY demo_conn) = None"
  using detection_fills_the_table [of "set_machine 0 LDAP_CONNECTION_STATE_DETECT_DIRECTORY demo_conn" 1 0 demo_ext 8192 0]
  by (simp add: accepts_searches_def demo_send_def demo_conn_machine del: ticks.simps)

text \<open>
  A step that the machine takes in a known state, as the timer sees it.
\<close>

lemma tick_plain:
  assumes "in_state m LDAP_CONNECTION_STATE_INIT c" and "config c = Some cfg" and "\<not> use_start_tls cfg"
  shows "connection_update E ev c = Some (True, set_machine m LDAP_CONNECTION_STATE_TRANSPORT_READY c)"
  by (rule update_goes_on [of E c RETURN_CODE_SUCCESS _ m LDAP_CONNECTION_STATE_TRANSPORT_READY])
    (use assms in \<open>simp_all add: csm_next_state_def tick_init_def csm_set_state_def in_state_def\<close>)

lemma tick_simple_bind:
  assumes "in_state m LDAP_CONNECTION_STATE_TRANSPORT_READY c" and "bind_type c = BIND_TYPE_SIMPLE"
    and "connection_sasl_bind E c = Some (RETURN_CODE_SUCCESS, c1)"
    and "state_machine c1 = state_machine c" and "machines c1 = machines c"
  shows "connection_update E ev c = Some (True, set_machine m LDAP_CONNECTION_STATE_DETECT_DIRECTORY c1)"
  by (rule update_goes_on [of E c RETURN_CODE_SUCCESS _ m LDAP_CONNECTION_STATE_DETECT_DIRECTORY])
    (use assms in \<open>simp_all add: csm_next_state_def tick_transport_ready_def csm_set_state_def in_state_def\<close>)

lemma ticks_unknown_directory:
  assumes "in_state m LDAP_CONNECTION_STATE_DETECT_DIRECTORY c" and "directory_type c = LDAP_TYPE_UNKNOWN"
  shows "\<exists>c'. ticks E ev 3 c = Some (False, c') \<and> in_state m LDAP_CONNECTION_STATE_RUN c' \<and>
    conn_inv c' = conn_inv c \<and> ldap c' = ldap c \<and> outstanding c' = outstanding c \<and>
    n_read_requests c' = n_read_requests c \<and> directory_type c' = LDAP_TYPE_UNKNOWN"
proof -
  let ?c1 = "set_machine m LDAP_CONNECTION_STATE_REQUEST_SCHEMA c"
  let ?c2 = "set_machine m LDAP_CONNECTION_STATE_CHECK_SCHEMA ?c1"
  let ?c3 = "set_machine m LDAP_CONNECTION_STATE_RUN ?c2"
  have "connection_update E ev c = Some (True, ?c1)"
    by (rule update_goes_on [of E c RETURN_CODE_SUCCESS _ m LDAP_CONNECTION_STATE_REQUEST_SCHEMA])
      (use assms in \<open>simp_all add: csm_next_state_def tick_detect_directory_def csm_set_state_def in_state_def\<close>)
  moreover have "connection_update E ev ?c1 = Some (True, ?c2)"
    by (rule update_goes_on [of E ?c1 RETURN_CODE_SUCCESS _ m LDAP_CONNECTION_STATE_CHECK_SCHEMA])
      (use assms in \<open>simp_all add: csm_next_state_def tick_request_schema_def ldap_schema_load_def csm_set_state_def in_state_def\<close>)
  moreover have "connection_update E ev ?c2 = Some (False, ?c3\<lparr>world := verto_del E ev (world ?c3)\<rparr>)"
    by (rule update_ends [of E ?c2 RETURN_CODE_SUCCESS _ m LDAP_CONNECTION_STATE_RUN])
      (use assms in \<open>simp_all add: csm_next_state_def ldap_schema_ready_def csm_set_state_def in_state_def\<close>)
  ultimately show ?thesis
    using assms by (simp add: eval_nat_numeral in_state_def)
qed

definition accepts_simple_binds :: "('w, 'h) ext \<Rightarrow> bool" where
  "accepts_simple_binds E \<longleftrightarrow> (\<forall>ld dn mech pw w. fst (fst (ldap_sasl_bind E ld dn mech pw w)) = LDAP_SUCCESS)"

text \<open>
  A configured connection with a simple bind and without TLS comes up: after three ticks the bind and the
  search for the kind of directory are outstanding, and the machine already waits for the latter only.
\<close>

lemma simple_bind_up:
  assumes "configured cfg c" and "\<not> use_start_tls cfg" and "cfg_bind_type cfg = BIND_TYPE_SIMPLE"
    and "ldap_params c = Some p" and "ldap_defaults c = Valid d" and "can_install E c"
    and "accepts_simple_binds E" and "accepts_searches E"
  shows "\<exists>c1 m ld i j. ticks E ev 3 c = Some (True, c1) \<and> in_state m LDAP_CONNECTION_STATE_DETECT_DIRECTORY c1 \<and>
    outstanding c1 = [(i, Some BIND_ON_READ), (j, Some DIRECTORY_PARSE_RESULT)] \<and> conn_inv c1 \<and> ldap c1 = Valid ld \<and>
    directory_type c1 = LDAP_TYPE_UNINITIALIZED \<and> bind_type c1 = BIND_TYPE_SIMPLE \<and> schema c1 = schema c \<and>
    n_search_requests c1 = 0 \<and> schemas c1 = schemas c \<and> has_handle c1 = has_handle c \<and>
    bind_id E ld i \<and> search_id E ld '''' ''(objectClass=*)'' ''*'' j"
proof -
  obtain m ld where m: "in_state m LDAP_CONNECTION_STATE_INIT c" and ld: "ldap c = Valid ld"
    using assms(1) by (auto simp: configured_def csm_is_in_state_def in_state_def elim!: bind_SomeE)
  have c: "conn_inv c" "outstanding c = []" "n_read_requests c = 0" "bind_type c = BIND_TYPE_SIMPLE"
    "directory_type c = LDAP_TYPE_UNINITIALIZED" "config c = Some cfg"
    using assms(1,3) by (auto simp: configured_def tables_ready_def outstanding_def)
  let ?c1 = "set_machine m LDAP_CONNECTION_STATE_TRANSPORT_READY c"
  have 1: "connection_update E ev c = Some (True, ?c1)"
    by (rule tick_plain [OF m c(6) assms(2)])
  obtain i w where b: "ldap_sasl_bind E ld (sp_dn p) (sd_mechanism d) (sp_passwd p) (world c) = ((LDAP_SUCCESS, i), w)"
    using assms(7) unfolding accepts_simple_binds_def by (metis prod.exhaust_sel)
  obtain c2 where bind: "connection_sasl_bind E ?c1 = Some (RETURN_CODE_SUCCESS, c2)"
    and req: "requested ?c1 i BIND_ON_READ c2" and life: "same_life ?c1 c2"
  proof -
    have "conn_inv (?c1\<lparr>world := w\<rparr>)" "ldap (?c1\<lparr>world := w\<rparr>) = Valid ld" "can_install E (?c1\<lparr>world := w\<rparr>)"
      "n_read_requests (?c1\<lparr>world := w\<rparr>) < MAX_REQUESTS"
      using c ld assms(6) by simp_all
    then obtain x where "install_and_push E i BIND_ON_READ RETURN_CODE_SUCCESS (?c1\<lparr>world := w\<rparr>) = Some (RETURN_CODE_SUCCESS, x)"
      and "requested (?c1\<lparr>world := w\<rparr>) i BIND_ON_READ x"
      using install_and_push_ok by blast
    moreover from this have "connection_sasl_bind E ?c1 = Some (RETURN_CODE_SUCCESS, x)"
      using b ld assms(4,5) by (simp add: connection_sasl_bind_def with_ldap_def)
    ultimately show thesis using that sasl_bind_life by (metis requested_world(1))
  qed
  let ?c2 = "set_machine m LDAP_CONNECTION_STATE_DETECT_DIRECTORY c2"
  have 2: "connection_update E ev ?c1 = Some (True, ?c2)"
    by (rule tick_simple_bind [OF _ _ bind]) (use m c req in \<open>simp_all add: in_state_def requested_def\<close>)
  have "conn_inv ?c2" "ldap ?c2 = Valid ld" "in_state m LDAP_CONNECTION_STATE_DETECT_DIRECTORY ?c2"
    "directory_type ?c2 = LDAP_TYPE_UNINITIALIZED" "n_read_requests ?c2 < MAX_REQUESTS"
    using m ld c req life by (simp_all add: requested_def in_state_def same_life_def)
  from detect_tick [OF this(1-4) assms(8) this(5), of ev] obtain c3 j where 3:
      "connection_update E ev ?c2 = Some (True, c3)" "in_state m LDAP_CONNECTION_STATE_DETECT_DIRECTORY c3"
      "directory_type c3 = LDAP_TYPE_UNINITIALIZED" "outstanding c3 = outstanding ?c2 @ [(j, Some DIRECTORY_PARSE_RESULT)]"
      "conn_inv c3" "n_read_requests c3 = n_read_requests ?c2 + 1" "ldap c3 = Valid ld"
      "bind_type c3 = bind_type ?c2" "schema c3 = schema ?c2" "n_search_requests c3 = n_search_requests ?c2"
      "schemas c3 = schemas ?c2" "has_handle c3 = has_handle ?c2" "search_id E ld '''' ''(objectClass=*)'' ''*'' j"
    by blast
  have "ticks E ev 3 c = Some (True, c3)" using 1 2 3(1) by (simp add: eval_nat_numeral)
  moreover have "outstanding c3 = [(i, Some BIND_ON_READ), (j, Some DIRECTORY_PARSE_RESULT)]"
    using 3(4) req c(2) by (simp add: requested_def)
  moreover have "bind_type c3 = BIND_TYPE_SIMPLE" "schema c3 = schema c" "n_search_requests c3 = 0"
    "schemas c3 = schemas c" "has_handle c3 = has_handle c"
    using 3(8-12) req life c(4) assms(1) by (simp_all add: requested_def configured_def tables_ready_def same_life_def)
  moreover have "bind_id E ld i" unfolding bind_id_def using b by (metis fst_conv)
  ultimately show ?thesis using 3(2,3,5,7,13) by blast
qed


definition demo_waiting :: "(demo_world, demo_table) conn" where
  "demo_waiting = set_machine 0 LDAP_CONNECTION_STATE_INIT
     (demo_ready\<lparr>handlers_installed := False, config := Some demo_config\<rparr>)"

lemma demo_waiting_configured: "configured demo_config demo_waiting"
proof -
  have "conn_inv demo_waiting"
    using demo_ready_inv(1) by (simp add: demo_waiting_def conn_inv_fields)
  moreover have "waiting demo_waiting = waiting demo_conn"
    by (simp add: demo_waiting_def demo_ready_def waiting_def split: option.splits)
  ultimately show ?thesis
    by (simp add: configured_def tables_ready_def csm_is_in_state_def)
      (simp add: demo_waiting_def demo_ready_def demo_conn_def demo_config_def)
qed


section \<open>The names of the states\<close>

lemma state_code_inj: "state_code a = state_code b \<longleftrightarrow> a = b"
  by (cases a; cases b) simp_all

text \<open>
  Every state has its own name in the log, and every other code has none. The names of the last two states
  are not those of the enumeration.
\<close>

theorem state_names:
  "(csm_state2str (state_code a) = csm_state2str (state_code b) \<longleftrightarrow> a = b) \<and>
   csm_state2str (state_code a) \<noteq> ''STATE_NOT_FOUND'' \<and>
   (n \<notin> {1..10} \<longrightarrow> csm_state2str n = ''STATE_NOT_FOUND'') \<and>
   csm_state2str (state_code LDAP_CONNECTION_STATE_REQUEST_SCHEMA) = ''LDAP_CONNECTION_STATE_LOAD_SCHEMA'' \<and>
   csm_state2str (state_code LDAP_CONNECTION_STATE_CHECK_SCHEMA) = ''LDAP_CONNECTION_STATE_SCHEMA_READY''"
proof -
  have "csm_state2str (state_code a) = csm_state2str (state_code b) \<longleftrightarrow> a = b"
    by (cases a; cases b) (simp_all add: csm_state2str_def state_strings_def)
  moreover have "csm_state2str (state_code a) \<noteq> ''STATE_NOT_FOUND''"
    by (cases a) (simp_all add: csm_state2str_def state_strings_def)
  moreover have "csm_state2str n = ''STATE_NOT_FOUND''" if "n \<notin> {1..10}"
    using that by (auto simp: csm_state2str_def state_strings_def)
  ultimately show ?thesis by (simp add: csm_state2str_def state_strings_def)
qed

lemma state_names_witness: "csm_state2str 11 = ''STATE_NOT_FOUND''"
  using state_names [of LDAP_CONNECTION_STATE_INIT LDAP_CONNECTION_STATE_RUN 11] by simp

end
