(* ===== verification/Domain.thy ===== *)
theory Domain
  imports State_Machine
begin

text \<open>
  The public interface of \<open>src/src/domain.c\<close> and \<open>domain_p.h\<close>: configurations, the handle of a session, the
  operations on entries that \<open>user.c\<close>, \<open>group.c\<close>, \<open>computer.c\<close>, \<open>organizational_unit.c\<close> and \<open>attribute.c\<close>
  are built from. The lemmas show what a configuration becomes, that a session starts configured, and which
  request each operation on an entry sends.
\<close>

section \<open>Configurations\<close>

record ld_config =
  host :: string
  protocol_version :: int
  base_dn :: string
  username :: "string option"
  password :: "string option"
  simple_bind :: bool
  use_tls :: bool
  use_sasl :: bool
  use_anon :: bool
  timeout :: int
  cacertfile :: string
  certfile :: string
  keyfile :: string

text \<open>The decimal numeral of \<open>%d\<close> for a positive number, and \<open>"%s:%d"\<close>.\<close>

fun decimal :: "nat \<Rightarrow> string" where
  "decimal n = (if n < 10 then [char_of (48 + n)] else decimal (n div 10) @ [char_of (48 + n mod 10)])"

definition host_with_port :: "string \<Rightarrow> int \<Rightarrow> string" where
  "host_with_port h p = (if p > 0 then h @ '':'' @ decimal (nat p) else h)"

text \<open>\<open>n\<close> allocations up to the first that fails, before there is a connection to carry the world.\<close>

fun tallocs :: "('w, 'h) ext \<Rightarrow> nat \<Rightarrow> 'w \<Rightarrow> bool \<times> 'w" where
  "tallocs E 0 w = (True, w)"
| "tallocs E (Suc n) w = (let (ok, w1) = talloc E w in if ok then tallocs E n w1 else (False, w1))"

definition or_empty :: "string option \<Rightarrow> string" where
  "or_empty s = (case s of None \<Rightarrow> '''' | Some x \<Rightarrow> x)"

definition present :: "'a option \<Rightarrow> nat" where
  "present x = (if x = None then 0 else 1)"

text \<open>
  \<open>ld_create_config\<close>. \<open>talloc_ctx\<close> says whether a context was given; a NULL host or base DN is undefined,
  because it is formatted or measured. On a failed allocation the structure is freed.
\<close>

definition ld_create_config ::
  "('w, 'h) ext \<Rightarrow> bool \<Rightarrow> string option \<Rightarrow> int \<Rightarrow> int \<Rightarrow> string option \<Rightarrow> string option \<Rightarrow> string option \<Rightarrow>
     bool \<Rightarrow> bool \<Rightarrow> bool \<Rightarrow> bool \<Rightarrow> int \<Rightarrow> string option \<Rightarrow> string option \<Rightarrow> string option \<Rightarrow> 'w \<Rightarrow>
     (ld_config option \<times> 'w) option" where
  "ld_create_config E talloc_ctx h port version dn user pass simple tls sasl anon tmo ca cert key w =
     (if \<not> talloc_ctx then Some (None, w)
      else let (ok, w1) = talloc E w in
      if \<not> ok then Some (None, w1)
      else do {
        h' \<leftarrow> h;
        let (ok, w2) = talloc E w1;
        if \<not> ok then Some (None, snd (talloc_free E w2))
        else do {
          base' \<leftarrow> dn;
          let (ok, w3) = tallocs E (1 + present user + present pass + 3) w2;
          Some (if \<not> ok then (None, snd (talloc_free E w3))
                else (Some \<lparr>host = host_with_port h' port, protocol_version = version, base_dn = base',
                            username = user, password = pass, simple_bind = simple, use_tls = tls, use_sasl = sasl,
                            use_anon = anon, timeout = tmo, cacertfile = or_empty ca, certfile = or_empty cert,
                            keyfile = or_empty key\<rparr>, w3)) } })"

text \<open>
  libconfig's view of a file: whether it can be read, and the settings of each type. \<open>ld_load_config\<close> does
  not free its structure when a required setting is missing, and its context keeps it.
\<close>

record config_file =
  config_read :: bool
  lookup_string :: "string \<Rightarrow> string option"
  lookup_int :: "string \<Rightarrow> int option"
  lookup_bool :: "string \<Rightarrow> bool option"

definition setting :: "'a option \<Rightarrow> 'a \<Rightarrow> 'a" where
  "setting x dflt = (case x of None \<Rightarrow> dflt | Some y \<Rightarrow> y)"

definition ld_load_config :: "('w, 'h) ext \<Rightarrow> config_file \<Rightarrow> 'w \<Rightarrow> ld_config option \<times> 'w" where
  "ld_load_config E cfg w =
     (let (ok, w1) = talloc E w in
      if \<not> ok then (None, w1)
      else if \<not> config_read cfg then (None, w1)
      else case lookup_string cfg ''host'' of
        None \<Rightarrow> (None, w1)
      | Some h \<Rightarrow>
          let port = setting (lookup_int cfg ''port'') 0; (ok, w2) = talloc E w1 in
          if \<not> ok then (None, snd (talloc_free E w2))
          else case lookup_string cfg ''base_dn'' of
            None \<Rightarrow> (None, w2)
          | Some dn \<Rightarrow>
              let user = lookup_string cfg ''username''; pass = lookup_string cfg ''password'';
                  (ok, w3) = tallocs E (1 + present user + present pass + 3) w2 in
              if \<not> ok then (None, snd (talloc_free E w3))
              else (Some \<lparr>host = host_with_port h port,
                          protocol_version = setting (lookup_int cfg ''protocol_version'') 3, base_dn = dn,
                          username = user, password = pass,
                          simple_bind = setting (lookup_bool cfg ''simple_bind'') False,
                          use_tls = setting (lookup_bool cfg ''use_tls'') False,
                          use_sasl = setting (lookup_bool cfg ''use_sasl'') False,
                          use_anon = setting (lookup_bool cfg ''use_anon'') False,
                          timeout = setting (lookup_int cfg ''timeout'') 0,
                          cacertfile = or_empty (lookup_string cfg ''ca_cert_file''),
                          certfile = or_empty (lookup_string cfg ''cert_file''),
                          keyfile = or_empty (lookup_string cfg ''key_file'')\<rparr>, w3))"

section \<open>Handles\<close>

text \<open>
  \<open>LDHandle\<close>: a configured session. A pointer to a handle is NULL, points to memory that was never
  initialised, or to a handle.
\<close>

record ('w, 'h) ldhandle =
  global_config :: ld_config
  config_ctx :: ldap_connection_config
  connection_ctx :: "('w, 'h) conn"

datatype 'a handle_ptr = NoHandle | Uninitialised | Handle 'a

text \<open>
  A connection of zeroed memory; zero is no value of \<open>enum BindType\<close>, and \<open>connection_configure\<close> sets the
  field before it is read.
\<close>

definition zero_conn :: "'w \<Rightarrow> ('w, 'h) conn" where
  "zero_conn w =
     \<lparr>has_handle = False, ldap = Null, handlers_installed = False, base = Null, read_event = Null,
      write_event = Null, on_error_operation = None, bind_type = BIND_TYPE_INTERACTIVE,
      directory_type = LDAP_TYPE_UNKNOWN, conn_msgid = 0, schema = None, schemas = Map.empty, schema_count = 0,
      rmech = None, callqueue = None,
      queues = \<lparr>queue_at = (\<lambda>_. \<lparr>rq_head = None, rq_tail = None, rq_size = 0, rq_capacity = 0\<rparr>), prev = (\<lambda>_. None)\<rparr>,
      queue_count = 0,
      read_requests = (\<lambda>_. \<lparr>req_msgid = 0, on_read_operation = None, on_write_operation = None\<rparr>),
      write_requests = (\<lambda>_. \<lparr>req_msgid = 0, on_read_operation = None, on_write_operation = None\<rparr>),
      search_requests = (\<lambda>_. \<lparr>search_msgid = 0, on_search_operation = None, search_user_data = NO_DATA\<rparr>),
      n_read_requests = 0, n_write_requests = 0, n_search_requests = 0, n_reconnect_attempts = 0,
      state_machine = None, machines = Map.empty, machine_count = 0, ldap_defaults = Null, ldap_params = None,
      config = None, schema_entry_path = None, world = w\<rparr>"

text \<open>The configuration of the connection that \<open>ld_init\<close> derives from that of the library.\<close>

definition connection_config :: "ld_config \<Rightarrow> ldap_connection_config" where
  "connection_config cfg =
     \<lparr>server = Some (host cfg), protocol_verion = protocol_version cfg, chase_referrals = False,
      use_start_tls = use_tls cfg, cfg_use_sasl = use_sasl cfg,
      cfg_bind_type = (if simple_bind cfg then BIND_TYPE_SIMPLE else BIND_TYPE_INTERACTIVE),
      sasl_options =
        (if use_sasl cfg
         then Some \<lparr>so_mechanism = (if simple_bind cfg then None else Some ''GSSAPI''), so_passwd = password cfg,
                    sasl_nocanon = True, sasl_flags = 2, sasl_secprops = ''minssf=56''\<rparr>
         else None),
      tls_ca_cert_file = (if use_tls cfg then Some (cacertfile cfg) else None), tls_ca_cert_path = None,
      tls_cert_file = (if use_tls cfg then Some (certfile cfg) else None),
      tls_key_file = (if use_tls cfg then Some (keyfile cfg) else None),
      search_timelimit = 0, network_timeout = 0\<rparr>"

text \<open>
  \<open>ld_init\<close>; \<open>malloc_ok\<close> is the result of \<open>malloc\<close>. Five allocations build the contexts; with SASL the
  options and a copy of the password follow, and the copy of a NULL password counts as a failed allocation;
  with TLS three copies; then the parameters of the bind, whose DN formats the user name, undefined for a
  NULL one. Every failure frees the contexts and the handle.
\<close>

definition ld_init ::
  "('w, 'h) ext \<Rightarrow> bool \<Rightarrow> ld_config option \<Rightarrow> 'w \<Rightarrow> (('w, 'h) ldhandle handle_ptr \<times> 'w) option" where
  "ld_init E malloc_ok config_ptr w =
     (if \<not> malloc_ok then Some (NoHandle, w)
      else case config_ptr of None \<Rightarrow> Some (Uninitialised, w)
      | Some cfg \<Rightarrow>
          let (ok, w1) = talloc E w in
          if \<not> ok then Some (NoHandle, w1)
          else let (ok, w2) = tallocs E 4 w1 in
          if \<not> ok then Some (NoHandle, snd (talloc_free E w2))
          else let (_, w3) = ldap_set_option E None LDAP_OPT_DEBUG_LEVEL (IntValue (-1)) w2;
                   (ok, w4) = (if use_sasl cfg then tallocs E (1 + present (password cfg)) w3 else (True, w3)) in
          if \<not> ok \<or> use_sasl cfg \<and> password cfg = None then Some (NoHandle, snd (talloc_free E w4))
          else let (ok, w5) = (if use_tls cfg then tallocs E 3 w4 else (True, w4)) in
          if \<not> ok then Some (NoHandle, snd (talloc_free E w5))
          else let (ok, w6) = talloc E w5 in
          if \<not> ok then Some (NoHandle, snd (talloc_free E w6))
          else do {
            user \<leftarrow> username cfg;
            let (ok, w7) = tallocs E (2 + present (password cfg)) w6;
            if \<not> ok then Some (NoHandle, snd (talloc_free E w7))
            else do {
              let c = (zero_conn w7)\<lparr>ldap_params :=
                Some \<lparr>sp_dn = Some (''cn='' @ user @ '','' @ base_dn cfg), sp_passwd = password cfg\<rparr>\<rparr>;
              (rc, c1) \<leftarrow> connection_configure E (Some (connection_config cfg)) c;
              Some (if rc \<noteq> RETURN_CODE_SUCCESS then (NoHandle, snd (talloc_free E (world c1)))
                    else (Handle \<lparr>global_config = cfg, config_ctx = connection_config cfg,
                                  connection_ctx = c1\<lparr>has_handle := True\<rparr>\<rparr>, world c1)) } })"

section \<open>Operations of a session\<close>

text \<open>
  \<open>ld_install_default_handlers\<close> and \<open>ld_install_handler\<close> add a timer to the event base of the connection;
  the result is the event verto returns. Without a handle nothing happens.
\<close>

definition ld_install_handler ::
  "('w, 'h) ext \<Rightarrow> int \<Rightarrow> ('w, 'h) ldhandle option \<Rightarrow> (nat option \<times> ('w, 'h) ldhandle option) option" where
  "ld_install_handler E interval h =
     (case h of
        None \<Rightarrow> Some (None, None)
      | Some hl \<Rightarrow>
          do { b \<leftarrow> deref (base (connection_ctx hl));
               let (ev, w) = verto_add_timeout E b interval (world (connection_ctx hl));
               Some (ev, Some (hl\<lparr>connection_ctx := (connection_ctx hl)\<lparr>world := w\<rparr>\<rparr>)) })"

definition ld_install_default_handlers ::
  "('w, 'h) ext \<Rightarrow> ('w, 'h) ldhandle option \<Rightarrow> (nat option \<times> ('w, 'h) ldhandle option) option" where
  "ld_install_default_handlers E h = ld_install_handler E 1000 h"

text \<open>The event loop of libverto: \<open>run\<close> is \<open>verto_run\<close>, \<open>run_once\<close> is \<open>verto_run_once\<close> on the connection's base.\<close>

definition ld_exec ::
  "(nat \<Rightarrow> ('w, 'h) ldhandle \<Rightarrow> ('w, 'h) ldhandle option) \<Rightarrow> ('w, 'h) ldhandle option \<Rightarrow>
     ('w, 'h) ldhandle option option" where
  "ld_exec run h =
     (case h of
        None \<Rightarrow> Some None
      | Some hl \<Rightarrow> do { b \<leftarrow> deref (base (connection_ctx hl)); hl' \<leftarrow> run b hl; Some (Some hl') })"

definition ld_exec_once ::
  "(nat \<Rightarrow> ('w, 'h) ldhandle \<Rightarrow> ('w, 'h) ldhandle option) \<Rightarrow> ('w, 'h) ldhandle option \<Rightarrow>
     ('w, 'h) ldhandle option option" where
  "ld_exec_once run_once h =
     (case h of
        None \<Rightarrow> Some None
      | Some hl \<Rightarrow> do { b \<leftarrow> deref (base (connection_ctx hl)); hl' \<leftarrow> run_once b hl; Some (Some hl') })"

definition ld_install_error_handler ::
  "nat option \<Rightarrow> ('w, 'h) ldhandle option \<Rightarrow> ('w, 'h) ldhandle option" where
  "ld_install_error_handler callback h =
     (case (h, callback) of
        (Some hl, Some f) \<Rightarrow> Some (hl\<lparr>connection_ctx := (connection_ctx hl)\<lparr>on_error_operation := Some f\<rparr>\<rparr>)
      | _ \<Rightarrow> h)"

text \<open>
  \<open>ld_free\<close> closes the connection, whatever the result, and frees the handle; what is left is the world. Without
  a handle nothing happens.
\<close>

definition ld_free :: "('w, 'h) ext \<Rightarrow> ('w, 'h) ldhandle option \<Rightarrow> 'w option option" where
  "ld_free E h =
     (case h of
        None \<Rightarrow> Some None
      | Some hl \<Rightarrow>
          do { (_, c) \<leftarrow> connection_close E (connection_ctx hl); Some (Some (snd (talloc_free E (world c)))) })"

section \<open>Operations on entries\<close>

text \<open>
  \<open>fill_attributes\<close>: modifications with the operation \<open>op\<close> from a NULL-terminated array of attributes. The
  copy of a NULL name fails like an allocation; a NULL array, of attributes or of values, is undefined.
\<close>

fun fill_mods ::
  "('w, 'h) ext \<Rightarrow> int \<Rightarrow> ld_attribute list \<Rightarrow> ('w, 'h) conn \<Rightarrow> (ldap_mod list option \<times> ('w, 'h) conn) option" where
  "fill_mods E op [] c = Some (Some [], c)"
| "fill_mods E op (a # as) c =
     (let (ok, c1) = alloc E c in
      if \<not> ok then Some (None, c1)
      else case attr_name a of
        None \<Rightarrow> Some (None, c1)
      | Some name \<Rightarrow>
          let (ok, c2) = alloc E c1 in
          if \<not> ok then Some (None, c2)
          else case attr_values a of
            None \<Rightarrow> None
          | Some vs \<Rightarrow>
              let (ok, c3) = allocs E (1 + length vs) c2 in
              if \<not> ok then Some (None, c3)
              else do { (ms, c4) \<leftarrow> fill_mods E op as c3;
                        Some (map_option (\<lambda>ms. \<lparr>mod_op = op, mod_type = name, mod_values = vs\<rparr> # ms) ms, c4) })"

definition fill_attributes ::
  "('w, 'h) ext \<Rightarrow> ld_attribute list option \<Rightarrow> int \<Rightarrow> ('w, 'h) conn \<Rightarrow>
     (ldap_mod list option \<times> ('w, 'h) conn) option" where
  "fill_attributes E attrs op c =
     do { as \<leftarrow> attrs;
          let (ok, c1) = alloc E c;
          if \<not> ok then Some (None, c1)
          else do { (ms, c2) \<leftarrow> fill_mods E op as c1;
                    Some (ms, if ms = None then snd (free_block E c2) else c2) } }"

text \<open>
  The macros \<open>check_handle\<close> and \<open>check_string\<close>, followed by an operation on the connection of the handle.
\<close>

definition missing :: "string option \<Rightarrow> bool" where
  "missing s \<longleftrightarrow> s = None \<or> s = Some ''''"

definition checked ::
  "string option list \<Rightarrow> (('w, 'h) conn \<Rightarrow> (OperationReturnCode \<times> ('w, 'h) conn) option) \<Rightarrow>
     ('w, 'h) ldhandle option \<Rightarrow> (OperationReturnCode \<times> ('w, 'h) ldhandle option) option" where
  "checked strings operation h =
     (case h of
        None \<Rightarrow> Some (RETURN_CODE_FAILURE, None)
      | Some hl \<Rightarrow>
          if list_ex missing strings then Some (RETURN_CODE_FAILURE, Some hl)
          else do { (rc, c) \<leftarrow> operation (connection_ctx hl); Some (rc, Some (hl\<lparr>connection_ctx := c\<rparr>)) })"

text \<open>
  A temporary talloc context around \<open>body\<close>, whose result \<open>None\<close> is the jump to \<open>error_exit\<close>; freeing the
  context at the end can fail too.
\<close>

definition in_context ::
  "('w, 'h) ext \<Rightarrow> (('w, 'h) conn \<Rightarrow> (OperationReturnCode option \<times> ('w, 'h) conn) option) \<Rightarrow>
     ('w, 'h) conn \<Rightarrow> (OperationReturnCode \<times> ('w, 'h) conn) option" where
  "in_context E body c =
     (let (ok, c1) = alloc E c in
      if \<not> ok then Some (RETURN_CODE_FAILURE, c1)
      else do {
        (r, c2) \<leftarrow> body c1;
        let (freed, c3) = free_block E c2;
        Some (case r of Some rc \<Rightarrow> if freed then rc else RETURN_CODE_FAILURE | None \<Rightarrow> RETURN_CODE_FAILURE, c3) })"

text \<open>A formatted string, which takes one allocation, and the rest of the body.\<close>

definition formatted ::
  "('w, 'h) ext \<Rightarrow> (('w, 'h) conn \<Rightarrow> (OperationReturnCode option \<times> ('w, 'h) conn) option) \<Rightarrow>
     ('w, 'h) conn \<Rightarrow> (OperationReturnCode option \<times> ('w, 'h) conn) option" where
  "formatted E rest c = (let (ok, c1) = alloc E c in if ok then rest c1 else Some (None, c1))"

definition returned :: "(OperationReturnCode \<times> ('w, 'h) conn) option \<Rightarrow> (OperationReturnCode option \<times> ('w, 'h) conn) option" where
  "returned r = do { (rc, c) \<leftarrow> r; Some (Some rc, c) }"

text \<open>\<open>"%s=%s,%s"\<close> and \<open>"%s=%s"\<close>\<close>

definition entry_rdn :: "string \<Rightarrow> string option \<Rightarrow> string" where
  "entry_rdn pfx name = pfx @ ''='' @ or_empty name"

definition entry_dn_of :: "string \<Rightarrow> string option \<Rightarrow> string option \<Rightarrow> string" where
  "entry_dn_of pfx name parent = entry_rdn pfx name @ '','' @ or_empty parent"

definition ld_add_entry ::
  "('w, 'h) ext \<Rightarrow> ('w, 'h) ldhandle option \<Rightarrow> string option \<Rightarrow> string option \<Rightarrow> string \<Rightarrow>
     ld_attribute list option \<Rightarrow> (OperationReturnCode \<times> ('w, 'h) ldhandle option) option" where
  "ld_add_entry E h name parent pfx attrs =
     checked [name, parent]
       (in_context E (formatted E (\<lambda>c.
          do { (mods, c1) \<leftarrow> fill_attributes E attrs LDAP_MOD_ADD c;
               returned (add E c1 (Some (entry_dn_of pfx name parent)) mods) }))) h"

definition ld_del_entry ::
  "('w, 'h) ext \<Rightarrow> ('w, 'h) ldhandle option \<Rightarrow> string option \<Rightarrow> string option \<Rightarrow> string \<Rightarrow>
     (OperationReturnCode \<times> ('w, 'h) ldhandle option) option" where
  "ld_del_entry E h name parent pfx =
     checked [name, parent]
       (in_context E (formatted E (\<lambda>c. returned (ld_delete E c (Some (entry_dn_of pfx name parent)))))) h"

definition ld_mod_entry ::
  "('w, 'h) ext \<Rightarrow> ('w, 'h) ldhandle option \<Rightarrow> string option \<Rightarrow> string option \<Rightarrow> string \<Rightarrow>
     ld_attribute list option \<Rightarrow> (OperationReturnCode \<times> ('w, 'h) ldhandle option) option" where
  "ld_mod_entry E h name parent pfx attrs =
     checked [name, parent]
       (in_context E (\<lambda>c.
          do { (mods, c1) \<leftarrow> fill_attributes E attrs LDAP_MOD_REPLACE c;
               formatted E (\<lambda>c2. returned (modify E c2 (Some (entry_dn_of pfx name parent)) mods)) c1 })) h"

definition ld_rename_entry ::
  "('w, 'h) ext \<Rightarrow> ('w, 'h) ldhandle option \<Rightarrow> string option \<Rightarrow> string option \<Rightarrow> string option \<Rightarrow> string \<Rightarrow>
     (OperationReturnCode \<times> ('w, 'h) ldhandle option) option" where
  "ld_rename_entry E h old_name new_name parent pfx =
     checked [old_name, new_name, parent]
       (in_context E (formatted E (formatted E (\<lambda>c.
          returned (ld_rename E c (Some (entry_dn_of pfx old_name parent)) (Some (entry_rdn pfx new_name))
            parent True))))) h"

definition ld_mod_entry_attrs ::
  "('w, 'h) ext \<Rightarrow> ('w, 'h) ldhandle option \<Rightarrow> string option \<Rightarrow> string option \<Rightarrow> string \<Rightarrow>
     ld_attribute list option \<Rightarrow> int \<Rightarrow> (OperationReturnCode \<times> ('w, 'h) ldhandle option) option" where
  "ld_mod_entry_attrs E h name parent pfx attrs opcode =
     checked [name, parent]
       (in_context E (\<lambda>c.
          do { (mods, c1) \<leftarrow> fill_attributes E attrs opcode c;
               formatted E (\<lambda>c2. returned (modify E c2
                 (Some (if pfx \<noteq> '''' then entry_dn_of pfx name parent
                        else or_empty name @ '','' @ or_empty parent)) mods)) c1 })) h"

section \<open>The two sources of a configuration agree\<close>

text \<open>
  Loading a file that can be read and has a host and a base DN is creating a configuration from its
  settings, with their defaults: no port, version 3, every switch off. Without a readable file, a host or a
  base DN there is no configuration.
\<close>

theorem load_config_is_create_config:
  "(config_read cfg \<and> lookup_string cfg ''host'' \<noteq> None \<and> lookup_string cfg ''base_dn'' \<noteq> None \<longrightarrow>
      ld_create_config E True (lookup_string cfg ''host'') (setting (lookup_int cfg ''port'') 0)
        (setting (lookup_int cfg ''protocol_version'') 3) (lookup_string cfg ''base_dn'')
        (lookup_string cfg ''username'') (lookup_string cfg ''password'')
        (setting (lookup_bool cfg ''simple_bind'') False) (setting (lookup_bool cfg ''use_tls'') False)
        (setting (lookup_bool cfg ''use_sasl'') False) (setting (lookup_bool cfg ''use_anon'') False)
        (setting (lookup_int cfg ''timeout'') 0) (lookup_string cfg ''ca_cert_file'')
        (lookup_string cfg ''cert_file'') (lookup_string cfg ''key_file'') w =
      Some (ld_load_config E cfg w)) \<and>
   (\<not> config_read cfg \<or> lookup_string cfg ''host'' = None \<or> lookup_string cfg ''base_dn'' = None \<longrightarrow>
      fst (ld_load_config E cfg w) = None)"
  by (auto simp: ld_create_config_def ld_load_config_def Let_def split: prod.splits option.splits)

definition demo_file :: config_file where
  "demo_file = \<lparr>config_read = True,
     lookup_string = [''host'' \<mapsto> ''ldap://dc'', ''base_dn'' \<mapsto> ''dc=a'', ''username'' \<mapsto> ''admin'', ''password'' \<mapsto> ''secret''],
     lookup_int = [''port'' \<mapsto> 389], lookup_bool = [''simple_bind'' \<mapsto> True]\<rparr>"

lemma load_config_is_create_config_witness:
  "ld_create_config demo_ext True (Some ''ldap://dc'') 389 3 (Some ''dc=a'') (Some ''admin'') (Some ''secret'')
     True False False False 0 None None None (world demo_conn) =
     Some (ld_load_config demo_ext demo_file (world demo_conn)) \<and>
   map_option host (fst (ld_load_config demo_ext demo_file (world demo_conn))) = Some ''ldap://dc:389''"
proof -
  have t: "tallocs demo_ext n w = (True, w)" for n w by (induction n) simp_all
  have d: "decimal 389 = ''389''" by code_simp
  have "map_option host (fst (ld_load_config demo_ext demo_file (world demo_conn))) = Some ''ldap://dc:389''"
    by (simp add: ld_load_config_def demo_file_def t host_with_port_def setting_def Let_def d del: decimal.simps)
  moreover have "ld_create_config demo_ext True (Some ''ldap://dc'') 389 3 (Some ''dc=a'') (Some ''admin'') (Some ''secret'')
      True False False False 0 None None None w = Some (ld_load_config demo_ext demo_file w)" for w
    using load_config_is_create_config [of demo_file demo_ext w] by (simp add: demo_file_def setting_def)
  ultimately show ?thesis by blast
qed

section \<open>Starting a session\<close>

definition frees_ok :: "('w, 'h) ext \<Rightarrow> bool" where
  "frees_ok E \<longleftrightarrow> (\<forall>w. fst (talloc_free E w))"

text \<open>
  \<open>services_ok\<close>: memory is there, libldap initialises sessions and accepts options, verto has an event base.
\<close>

definition services_ok :: "('w, 'h) ext \<Rightarrow> bool" where
  "services_ok E \<longleftrightarrow> memory_ok E \<and> sessions_ok E \<and> frees_ok E \<and>
     (\<forall>p opt v w. fst (ldap_set_option E p opt v w) = LDAP_OPT_SUCCESS) \<and>
     (\<forall>u w. fst (fst (ldap_initialize E u w)) = LDAP_SUCCESS) \<and> (\<forall>w. fst (verto_default E w) \<noteq> None)"

lemma tallocs_ok: "memory_ok E \<Longrightarrow> \<exists>v. tallocs E n w = (True, v)"
proof (induction n arbitrary: w)
  case 0
  then show ?case by simp
next
  case (Suc n)
  obtain v where "talloc E w = (True, v)" using Suc.prems unfolding memory_ok_def by (metis prod.exhaust_sel)
  then show ?case using Suc by simp
qed

text \<open>Steps of a configuration that succeed on a connection with a session.\<close>

definition succeeds :: "('w, 'h) step \<Rightarrow> bool" where
  "succeeds f \<longleftrightarrow> (\<forall>c. (\<exists>ld. ldap c = Valid ld) \<longrightarrow>
     (\<exists>c'. f c = Some (True, c') \<and> ldap c' = ldap c \<and> ldap_params c' = ldap_params c \<and>
        (\<forall>d. ldap_defaults c = Valid d \<longrightarrow> (\<exists>d'. ldap_defaults c' = Valid d'))))"

lemma succeedsE:
  assumes "succeeds f" and "ldap c = Valid ld"
  obtains c' where "f c = Some (True, c')" and "ldap c' = Valid ld" and "ldap_params c' = ldap_params c"
    and "\<And>d. ldap_defaults c = Valid d \<Longrightarrow> \<exists>d'. ldap_defaults c' = Valid d'"
  using assms unfolding succeeds_def by metis

lemma succeedsI:
  assumes "\<And>c ld. ldap c = Valid ld \<Longrightarrow> \<exists>c'. f c = Some (True, c') \<and> ldap c' = ldap c \<and>
    ldap_params c' = ldap_params c \<and> (\<forall>d. ldap_defaults c = Valid d \<longrightarrow> (\<exists>d'. ldap_defaults c' = Valid d'))"
  shows "succeeds f"
  using assms unfolding succeeds_def by blast

lemma run_steps_succeeds: "\<forall>f \<in> set fs. succeeds f \<Longrightarrow> succeeds (run_steps fs)"
proof (induction fs)
  case Nil
  then show ?case by (intro succeedsI) simp
next
  case (Cons f fs)
  show ?case
  proof (rule succeedsI)
    fix c :: "('a, 'b) conn" and ld
    assume "ldap c = Valid ld"
    moreover have "succeeds f" "succeeds (run_steps fs)" using Cons by simp_all
    ultimately obtain c1 c2 where 1: "f c = Some (True, c1)" "ldap c1 = Valid ld" "ldap_params c1 = ldap_params c"
        "\<And>d. ldap_defaults c = Valid d \<Longrightarrow> \<exists>d'. ldap_defaults c1 = Valid d'"
      and 2: "run_steps fs c1 = Some (True, c2)" "ldap c2 = Valid ld" "ldap_params c2 = ldap_params c1"
        "\<And>d. ldap_defaults c1 = Valid d \<Longrightarrow> \<exists>d'. ldap_defaults c2 = Valid d'"
      by (metis succeedsE)
    show "\<exists>c'. run_steps (f # fs) c = Some (True, c') \<and> ldap c' = ldap c \<and> ldap_params c' = ldap_params c \<and>
        (\<forall>d. ldap_defaults c = Valid d \<longrightarrow> (\<exists>d'. ldap_defaults c' = Valid d'))"
      using 1 2 \<open>ldap c = Valid ld\<close> by (intro exI [of _ c2]) auto
  qed
qed

lemma services_steps_succeed:
  assumes "services_ok E"
  shows "succeeds (set_option E opt v)" and "succeeds (set_timeout E opt us)" and "succeeds (tables_step E cfg)"
    and "succeeds (base_step E)"
proof -
  have al: "\<exists>w. alloc E x = (True, x\<lparr>world := w\<rparr>)" for x :: "('a, 'b) conn"
    using assms by (intro memory_ok_alloc) (simp add: services_ok_def)
  have opt: "\<exists>w'. ldap_set_option E p opt v w = (0, w')" for p opt v w
    using assms unfolding services_ok_def by (metis prod.exhaust_sel)
  have option: "succeeds (set_option E opt v)" for opt v
  proof (rule succeedsI)
    fix c :: "('a, 'b) conn" and ld
    assume "ldap c = Valid ld"
    moreover obtain w where "ldap_set_option E (Some ld) opt v (world c) = (0, w)" using opt by blast
    ultimately show "\<exists>c'. set_option E opt v c = Some (True, c') \<and> ldap c' = ldap c \<and> ldap_params c' = ldap_params c \<and>
        (\<forall>d. ldap_defaults c = Valid d \<longrightarrow> (\<exists>d'. ldap_defaults c' = Valid d'))"
      by (intro exI [of _ "c\<lparr>world := w\<rparr>"]) (simp add: set_option_def with_ldap_def)
  qed
  then show "succeeds (set_option E opt v)" .
  show "succeeds (set_timeout E opt us)"
  proof (rule succeedsI)
    fix c :: "('a, 'b) conn" and ld
    assume ld: "ldap c = Valid ld"
    obtain w where a: "alloc E c = (True, c\<lparr>world := w\<rparr>)" using al by blast
    have t: "ldap (c\<lparr>world := w\<rparr>) = Valid ld" using ld by simp
    obtain c' where "set_option E opt (if us < 0 then TimeValue (-1) 0 else TimeValue 0 us) (c\<lparr>world := w\<rparr>) = Some (True, c')"
      "ldap c' = Valid ld" "ldap_params c' = ldap_params (c\<lparr>world := w\<rparr>)"
      "\<And>d. ldap_defaults (c\<lparr>world := w\<rparr>) = Valid d \<Longrightarrow> \<exists>d'. ldap_defaults c' = Valid d'"
      using succeedsE [OF option t] by metis
    then show "\<exists>c'. set_timeout E opt us c = Some (True, c') \<and> ldap c' = ldap c \<and> ldap_params c' = ldap_params c \<and>
        (\<forall>d. ldap_defaults c = Valid d \<longrightarrow> (\<exists>d'. ldap_defaults c' = Valid d'))"
      using ld by (intro exI [of _ c'])
        (auto simp: set_timeout_def connection_microseconds_to_timeval_def a split: if_splits)
  qed
  show "succeeds (tables_step E cfg)"
  proof (rule succeedsI)
    fix c :: "('a, 'b) conn" and ld
    have "\<exists>c'. tables_step E cfg c = Some (True, c')"
      by (simp add: tables_step_def Let_def split: prod.splits)
    then obtain c' where t: "tables_step E cfg c = Some (True, c')" by blast
    moreover have "ldap_params c' = ldap_params c \<and> ldap_defaults c' = ldap_defaults c"
      using t by (auto simp: tables_step_def Let_def alloc_def split: prod.splits option.splits
          dest!: ldap_schema_new_same elim!: same_but_worldE)
    ultimately show "\<exists>c'. tables_step E cfg c = Some (True, c') \<and> ldap c' = ldap c \<and> ldap_params c' = ldap_params c \<and>
        (\<forall>d. ldap_defaults c = Valid d \<longrightarrow> (\<exists>d'. ldap_defaults c' = Valid d'))"
      using setup_stepD(5) [OF tables_step_setup t] assms by (auto simp: services_ok_def)
  qed
  show "succeeds (base_step E)"
  proof (rule succeedsI)
    fix c :: "('a, 'b) conn" and ld
    obtain b w where "verto_default E (world c) = (Some b, w)"
      using assms unfolding services_ok_def by (metis option.exhaust prod.exhaust_sel)
    then show "\<exists>c'. base_step E c = Some (True, c') \<and> ldap c' = ldap c \<and> ldap_params c' = ldap_params c \<and>
        (\<forall>d. ldap_defaults c = Valid d \<longrightarrow> (\<exists>d'. ldap_defaults c' = Valid d'))"
      by (simp add: base_step_def)
  qed
qed

lemma plain_configure_succeeds:
  fixes c :: "('w, 'h) conn"
  assumes "services_ok E" and "\<not> cfg_use_sasl cfg" and "\<not> use_start_tls cfg"
  shows "\<exists>c'. connection_configure E (Some cfg) c = Some (RETURN_CODE_SUCCESS, c') \<and>
    ldap_params c' = ldap_params c \<and> (\<exists>d. ldap_defaults c' = Valid d)"
proof -
  have al: "\<exists>w. alloc E x = (True, x\<lparr>world := w\<rparr>)" for x :: "('w, 'h) conn"
    using assms(1) by (intro memory_ok_alloc) (simp add: services_ok_def)
  obtain w where a: "alloc E c = (True, c\<lparr>world := w\<rparr>)" using al by blast
  obtain ld v where i: "ldap_initialize E (server cfg) w = ((LDAP_SUCCESS, Some ld), v)"
    using assms(1) unfolding services_ok_def sessions_ok_def by (metis option.exhaust prod.exhaust_sel)
  let ?x = "c\<lparr>world := v, ldap := Valid ld, config := Some cfg, handlers_installed := False, rmech := None\<rparr>"
  obtain v' where a': "alloc E ?x = (True, ?x\<lparr>world := v'\<rparr>)" using al by blast
  obtain c1 where 1: "run_steps [initialize_step E cfg, machine_step E] (c\<lparr>world := w\<rparr>) = Some (True, c1)"
    and c1: "ldap c1 = Valid ld" "ldap_params c1 = ldap_params c"
    using i a' by (simp add: initialize_step_def machine_step_def Let_def csm_init_def)
  have "succeeds (option_steps E cfg)"
    unfolding option_steps_def
    by (rule run_steps_succeeds)
      (use services_steps_succeed [OF assms(1)] in \<open>auto simp: succeeds_def split: if_splits\<close>)
  then obtain c2 where 2: "option_steps E cfg c1 = Some (True, c2)" "ldap c2 = Valid ld" "ldap_params c2 = ldap_params c"
    using c1 by (metis succeedsE)
  obtain u where d: "alloc E c2 = (True, c2\<lparr>world := u\<rparr>)" using al by blast
  let ?d = "\<lparr>sd_flags = 0, sd_mechanism = None, realm = None, authcid = None, authzid = None, sd_passwd = None\<rparr>"
  let ?c3 = "c2\<lparr>world := u, ldap_defaults := Valid ?d\<rparr>"
  have "succeeds (run_steps [tables_step E cfg, base_step E])"
    by (rule run_steps_succeeds) (simp add: services_steps_succeed [OF assms(1)])
  moreover have "ldap ?c3 = Valid ld" using 2 by simp
  ultimately obtain c4 where 4: "run_steps [tables_step E cfg, base_step E] ?c3 = Some (True, c4)"
      "ldap_params c4 = ldap_params ?c3" "\<exists>d'. ldap_defaults c4 = Valid d'"
    by (rule succeedsE) auto
  have "resource_steps E cfg c2 = Some (True, c4)"
    using 4(1) assms(2,3) d by (simp add: resource_steps_def defaults_step_def sasl_steps_def tls_steps_def)
  moreover have "fst (talloc_free E (world c4))"
    using assms(1) by (simp add: services_ok_def frees_ok_def)
  then obtain t where "free_block E c4 = (True, c4\<lparr>world := t\<rparr>)"
    by (cases "talloc_free E (world c4)") (simp add: free_block_def)
  ultimately show ?thesis
    using 2 4 by (simp add: connection_configure_def Let_def a 1 del: run_steps.simps)
qed

lemma services_memory: "services_ok E \<Longrightarrow> memory_ok E" "services_ok E \<Longrightarrow> sessions_ok E" "services_ok E \<Longrightarrow> frees_ok E"
  by (simp_all add: services_ok_def)

lemma ld_init_started:
  fixes E :: "('w, 'h) ext"
  assumes "services_ok E" and "username cfg = Some user" and "\<not> use_sasl cfg" and "\<not> use_tls cfg"
  shows "\<exists>hl w'. ld_init E True (Some cfg) w = Some (Handle hl, w') \<and> global_config hl = cfg \<and>
    configured (connection_config cfg) (connection_ctx hl) \<and> has_handle (connection_ctx hl) \<and>
    ldap_params (connection_ctx hl) = Some \<lparr>sp_dn = Some (''cn='' @ user @ '','' @ base_dn cfg), sp_passwd = password cfg\<rparr> \<and>
    (\<exists>d. ldap_defaults (connection_ctx hl) = Valid d) \<and>
    (glib_ok E \<longrightarrow> fresh_schema E (connection_ctx hl))"
proof -
  note mem = services_memory [OF assms(1)]
  obtain w1 where 1: "talloc E w = (True, w1)" using tallocs_ok [OF mem(1), of 1 w] by (auto split: prod.splits if_splits)
  obtain w2 where 2: "tallocs E 4 w1 = (True, w2)" using tallocs_ok [OF mem(1)] by blast
  obtain r w3 where 3: "ldap_set_option E None LDAP_OPT_DEBUG_LEVEL (IntValue (-1)) w2 = (r, w3)" by fastforce
  obtain w4 where 4: "talloc E w3 = (True, w4)" using tallocs_ok [OF mem(1), of 1 w3] by (auto split: prod.splits if_splits)
  obtain w5 where 5: "tallocs E (2 + present (password cfg)) w4 = (True, w5)" using tallocs_ok [OF mem(1)] by blast
  let ?c = "(zero_conn w5 :: ('w, 'h) conn)\<lparr>ldap_params := Some \<lparr>sp_dn = Some (''cn='' @ user @ '','' @ base_dn cfg), sp_passwd = password cfg\<rparr>\<rparr>"
  have plain: "\<not> cfg_use_sasl (connection_config cfg)" "\<not> use_start_tls (connection_config cfg)"
    using assms(3,4) by (simp_all add: connection_config_def)
  from plain_configure_succeeds [OF assms(1) plain, of ?c]
  obtain c' where conf: "connection_configure E (Some (connection_config cfg)) ?c = Some (RETURN_CODE_SUCCESS, c')"
    and c': "ldap_params c' = ldap_params ?c" "\<exists>d. ldap_defaults c' = Valid d"
    by blast
  have "ld_init E True (Some cfg) w = Some (Handle \<lparr>global_config = cfg, config_ctx = connection_config cfg,
      connection_ctx = c'\<lparr>has_handle := True\<rparr>\<rparr>, world c')"
    using assms(2-4) conf 5 by (simp add: ld_init_def Let_def 1 2 3 4 del: tallocs.simps)
  moreover have "configured (connection_config cfg) (c'\<lparr>has_handle := True\<rparr>)"
    using configured_after(1) [OF mem(1,2) conf]
    by (simp add: configured_def tables_ready_def conn_inv_def waiting_def csm_is_in_state_def split: option.splits)
  moreover have "fresh_schema E (c'\<lparr>has_handle := True\<rparr>)" if "glib_ok E"
    using configured_schema [OF that mem(1,2) conf] by (simp add: fresh_schema_def)
  ultimately show ?thesis using c' by simp
qed

text \<open>
  Starting a session without SASL and TLS in a working environment yields a configured connection that will
  bind as \<open>cn=user,base\<close>. With SASL but without a password no session can be started, also for GSSAPI, which
  needs none; without a configuration the handle is left uninitialised; without a user name the formatting
  of the DN is undefined.
\<close>

theorem session_start:
  assumes "services_ok E"
  shows "(\<forall>user. username cfg = Some user \<and> \<not> use_sasl cfg \<and> \<not> use_tls cfg \<longrightarrow>
      (\<exists>hl w'. ld_init E True (Some cfg) w = Some (Handle hl, w') \<and> global_config hl = cfg \<and>
         configured (connection_config cfg) (connection_ctx hl) \<and> has_handle (connection_ctx hl) \<and>
         ldap_params (connection_ctx hl) =
           Some \<lparr>sp_dn = Some (''cn='' @ user @ '','' @ base_dn cfg), sp_passwd = password cfg\<rparr>)) \<and>
    (use_sasl cfg \<and> password cfg = None \<longrightarrow> (\<exists>w'. ld_init E True (Some cfg) w = Some (NoHandle, w'))) \<and>
    (username cfg = None \<and> \<not> (use_sasl cfg \<and> password cfg = None) \<longrightarrow> ld_init E True (Some cfg) w = None) \<and>
    ld_init E True None w = Some (Uninitialised, w) \<and> ld_init E False (Some cfg) w = Some (NoHandle, w)"
proof (intro conjI)
  note ok = tallocs_ok [OF services_memory(1) [OF assms]]
  have t: "\<exists>v. talloc E w = (True, v)" for w using ok [of 1 w] by (auto split: prod.splits if_splits)
  obtain w1 w2 r w3 where 1: "talloc E w = (True, w1)" and 2: "tallocs E 4 w1 = (True, w2)"
    and 3: "ldap_set_option E None LDAP_OPT_DEBUG_LEVEL (IntValue (-1)) w2 = (r, w3)"
    using t ok by (metis prod.exhaust)
  show "\<forall>user. username cfg = Some user \<and> \<not> use_sasl cfg \<and> \<not> use_tls cfg \<longrightarrow>
      (\<exists>hl w'. ld_init E True (Some cfg) w = Some (Handle hl, w') \<and> global_config hl = cfg \<and>
         configured (connection_config cfg) (connection_ctx hl) \<and> has_handle (connection_ctx hl) \<and>
         ldap_params (connection_ctx hl) =
           Some \<lparr>sp_dn = Some (''cn='' @ user @ '','' @ base_dn cfg), sp_passwd = password cfg\<rparr>)"
    using ld_init_started [OF assms, of cfg] by blast
  show "use_sasl cfg \<and> password cfg = None \<longrightarrow> (\<exists>w'. ld_init E True (Some cfg) w = Some (NoHandle, w'))"
    by (auto simp: ld_init_def 1 2 3 split: prod.splits)
  show "username cfg = None \<and> \<not> (use_sasl cfg \<and> password cfg = None) \<longrightarrow> ld_init E True (Some cfg) w = None"
  proof
    have if_ok: "\<exists>v. (if b then tallocs E n w else (True, w)) = (True, v)" for b n w
      using ok by (cases b) simp_all
    assume u: "username cfg = None \<and> \<not> (use_sasl cfg \<and> password cfg = None)"
    obtain w4 where 4: "(if use_sasl cfg then tallocs E (1 + present (password cfg)) w3 else (True, w3)) = (True, w4)"
      using if_ok by blast
    obtain w5 where 5: "(if use_tls cfg then tallocs E 3 w4 else (True, w4)) = (True, w5)"
      using if_ok by blast
    obtain w6 where 6: "talloc E w5 = (True, w6)" using t by blast
    show "ld_init E True (Some cfg) w = None"
      using u unfolding ld_init_def by (simp only: 1 2 3 4 5 6 Let_def prod.case option.case) auto
  qed
qed (simp_all add: ld_init_def)

definition demo_ld_config :: ld_config where
  "demo_ld_config = \<lparr>host = ''ldap://dc'', protocol_version = 3, base_dn = ''dc=a'', username = Some ''admin'',
     password = Some ''secret'', simple_bind = True, use_tls = False, use_sasl = False, use_anon = False,
     timeout = 0, cacertfile = '''', certfile = '''', keyfile = ''''\<rparr>"

lemma demo_services_ok [simp]: "services_ok demo_ext" "frees_ok demo_ext"
  by (simp_all add: services_ok_def frees_ok_def)

lemma session_start_witness:
  "\<exists>hl w'. ld_init demo_ext True (Some demo_ld_config) (world demo_conn) = Some (Handle hl, w') \<and>
     configured (connection_config demo_ld_config) (connection_ctx hl)"
  using session_start [of demo_ext demo_ld_config "world demo_conn"] by (auto simp: demo_ld_config_def)

section \<open>What the operations on entries send\<close>

text \<open>
  \<open>sends hl send handler result\<close>: the operation made one call \<open>send\<close> of libldap on the session. An accepted
  request is the new last outstanding one, of a refused one there is no trace; the handle and its searches
  are otherwise as before.
\<close>

definition sends ::
  "('w, 'h) ldhandle \<Rightarrow> (nat \<Rightarrow> 'w \<Rightarrow> (int \<times> int) \<times> 'w) \<Rightarrow> read_operation \<Rightarrow>
     (OperationReturnCode \<times> ('w, 'h) ldhandle option) option \<Rightarrow> bool" where
  "sends hl send handler result \<longleftrightarrow> (\<exists>ld w code m w' c.
     ldap (connection_ctx hl) = Valid ld \<and> send ld w = ((code, m), w') \<and>
     result = Some (if code = LDAP_SUCCESS then RETURN_CODE_SUCCESS else RETURN_CODE_FAILURE,
                    Some (hl\<lparr>connection_ctx := c\<rparr>)) \<and>
     conn_inv c \<and> ldap c = Valid ld \<and> searches c = searches (connection_ctx hl) \<and>
     outstanding c = outstanding (connection_ctx hl) @ (if code = LDAP_SUCCESS then [(m, Some handler)] else []))"

lemma context_sends:
  fixes E :: "('w, 'h) ext"
  assumes "memory_ok E" and "frees_ok E" and "conn_inv (connection_ctx hl)" and "ldap (connection_ctx hl) = Valid ld"
    and "n_read_requests (connection_ctx hl) < MAX_REQUESTS" and "\<not> list_ex missing strings"
    and body: "\<And>w. \<exists>w'. body ((connection_ctx hl)\<lparr>world := w\<rparr>) =
      returned (submit send handler ((connection_ctx hl)\<lparr>world := w'\<rparr>))"
  shows "sends hl send handler (checked strings (in_context E body) (Some hl))"
proof -
  let ?c = "connection_ctx hl"
  obtain w where a: "alloc E ?c = (True, ?c\<lparr>world := w\<rparr>)" using memory_ok_alloc [OF assms(1)] by blast
  obtain w' where b: "body (?c\<lparr>world := w\<rparr>) = returned (submit send handler (?c\<lparr>world := w'\<rparr>))" using body by blast
  obtain code m v where reply: "send ld w' = ((code, m), v)" by (metis prod.exhaust)
  have free: "\<exists>u. free_block E x = (True, x\<lparr>world := u\<rparr>)" for x :: "('w, 'h) conn"
    using assms(2) by (cases "talloc_free E (world x)") (auto simp: frees_ok_def free_block_def, metis fst_conv)
  have s: "submitted (?c\<lparr>world := w'\<rparr>) (send ld w') handler (submit send handler (?c\<lparr>world := w'\<rparr>))"
    using submit_submitted [of "?c\<lparr>world := w'\<rparr>" ld send handler] assms(3-5) by simp
  show ?thesis
  proof (cases "code = LDAP_SUCCESS")
    case True
    then obtain c' where sub: "submit send handler (?c\<lparr>world := w'\<rparr>) = Some (RETURN_CODE_SUCCESS, c')"
      and e: "enqueued (?c\<lparr>world := w'\<rparr>) v m handler c'"
      using s reply by (auto simp: submitted_def)
    obtain u where u: "free_block E c' = (True, c'\<lparr>world := u\<rparr>)" using free by blast
    have "checked strings (in_context E body) (Some hl) =
        Some (RETURN_CODE_SUCCESS, Some (hl\<lparr>connection_ctx := c'\<lparr>world := u\<rparr>\<rparr>))"
      using assms(6) by (simp add: checked_def in_context_def a b sub returned_def u)
    then show ?thesis
      using reply True assms(4) enqueued_frame [OF e] enqueued_outstanding [OF e]
      unfolding sends_def by (intro exI [of _ ld] exI [of _ w'] exI [of _ code] exI [of _ m] exI [of _ v]
          exI [of _ "c'\<lparr>world := u\<rparr>"]) simp
  next
    case False
    then have sub: "submit send handler (?c\<lparr>world := w'\<rparr>) = Some (RETURN_CODE_FAILURE, ?c\<lparr>world := v\<rparr>)"
      using s reply by (simp add: submitted_def)
    obtain u where u: "free_block E (?c\<lparr>world := v\<rparr>) = (True, ?c\<lparr>world := u\<rparr>)" using free [of "?c\<lparr>world := v\<rparr>"] by auto
    have "checked strings (in_context E body) (Some hl) =
        Some (RETURN_CODE_FAILURE, Some (hl\<lparr>connection_ctx := ?c\<lparr>world := u\<rparr>\<rparr>))"
      using assms(6) by (simp add: checked_def in_context_def a b sub returned_def u)
    then show ?thesis
      using reply False assms(3,4)
      unfolding sends_def by (intro exI [of _ ld] exI [of _ w'] exI [of _ code] exI [of _ m] exI [of _ v]
          exI [of _ "?c\<lparr>world := u\<rparr>"]) simp
  qed
qed

text \<open>The modifications that a list of attributes stands for.\<close>

definition filled :: "ld_attribute \<Rightarrow> bool" where
  "filled a \<longleftrightarrow> attr_name a \<noteq> None \<and> attr_values a \<noteq> None"

definition mods_of :: "int \<Rightarrow> ld_attribute list \<Rightarrow> ldap_mod list" where
  "mods_of op as = map (\<lambda>a. \<lparr>mod_op = op, mod_type = the (attr_name a), mod_values = the (attr_values a)\<rparr>) as"

lemma fill_mods_ok:
  "memory_ok E \<Longrightarrow> list_all filled as \<Longrightarrow> \<exists>w. fill_mods E op as c = Some (Some (mods_of op as), c\<lparr>world := w\<rparr>)"
proof (induction as arbitrary: c)
  case Nil
  then show ?case by (intro exI [of _ "world c"]) (simp add: mods_of_def)
next
  case (Cons a as)
  obtain n vs where a: "attr_name a = Some n" "attr_values a = Some vs" using Cons.prems(2) by (auto simp: filled_def)
  obtain w1 where 1: "alloc E c = (True, c\<lparr>world := w1\<rparr>)" using memory_ok_alloc [OF Cons.prems(1)] by blast
  obtain w2 where 2: "alloc E (c\<lparr>world := w1\<rparr>) = (True, c\<lparr>world := w2\<rparr>)"
    using memory_ok_alloc [OF Cons.prems(1), of "c\<lparr>world := w1\<rparr>"] by auto
  obtain w3 where 3: "allocs E (1 + length vs) (c\<lparr>world := w2\<rparr>) = (True, c\<lparr>world := w3\<rparr>)"
    using memory_ok_allocs [OF Cons.prems(1), of "1 + length vs" "c\<lparr>world := w2\<rparr>"] by auto
  obtain w4 where 4: "fill_mods E op as (c\<lparr>world := w3\<rparr>) = Some (Some (mods_of op as), c\<lparr>world := w4\<rparr>)"
    using Cons.IH [of "c\<lparr>world := w3\<rparr>"] Cons.prems by auto
  show ?case
    using 3 by (intro exI [of _ w4]) (simp add: a 1 2 4 mods_of_def del: allocs.simps)
qed

lemma fill_attributes_ok:
  assumes "memory_ok E" and "list_all filled as"
  shows "\<exists>w. fill_attributes E (Some as) op c = Some (Some (mods_of op as), c\<lparr>world := w\<rparr>)"
proof -
  obtain w1 where "alloc E c = (True, c\<lparr>world := w1\<rparr>)" using memory_ok_alloc [OF assms(1)] by blast
  then show ?thesis
    using fill_mods_ok [OF assms, of op "c\<lparr>world := w1\<rparr>"] by (auto simp: fill_attributes_def)
qed

lemma formatted_ok:
  assumes "memory_ok E"
  shows "\<exists>w. formatted E rest c = rest (c\<lparr>world := w\<rparr>)"
  using memory_ok_alloc [OF assms, of c] by (auto simp: formatted_def)

lemma entry_operations_send:
  fixes E :: "('w, 'h) ext"
  assumes "memory_ok E" and "frees_ok E" and "conn_inv (connection_ctx hl)" and "ldap (connection_ctx hl) = Valid ld"
    and "n_read_requests (connection_ctx hl) < MAX_REQUESTS"
    and names: "name \<noteq> ''''" "new_name \<noteq> ''''" "parent \<noteq> ''''" and attrs: "list_all filled as"
  shows "sends hl (\<lambda>ld. ldap_add_ext E ld (Some (pfx @ ''='' @ name @ '','' @ parent)) (Some (mods_of LDAP_MOD_ADD as)))
      ADD_ON_READ (ld_add_entry E (Some hl) (Some name) (Some parent) pfx (Some as))"
    and "sends hl (\<lambda>ld. ldap_delete_ext E ld (Some (pfx @ ''='' @ name @ '','' @ parent)))
      DELETE_ON_READ (ld_del_entry E (Some hl) (Some name) (Some parent) pfx)"
    and "sends hl (\<lambda>ld. ldap_modify_ext E ld (Some (pfx @ ''='' @ name @ '','' @ parent)) (Some (mods_of LDAP_MOD_REPLACE as)))
      MODIFY_ON_READ (ld_mod_entry E (Some hl) (Some name) (Some parent) pfx (Some as))"
    and "sends hl (\<lambda>ld. ldap_rename E ld (Some (pfx @ ''='' @ name @ '','' @ parent)) (Some (pfx @ ''='' @ new_name))
        (Some parent) True)
      RENAME_ON_READ (ld_rename_entry E (Some hl) (Some name) (Some new_name) (Some parent) pfx)"
    and "sends hl (\<lambda>ld. ldap_modify_ext E ld
        (Some (if pfx = '''' then name @ '','' @ parent else pfx @ ''='' @ name @ '','' @ parent)) (Some (mods_of op as)))
      MODIFY_ON_READ (ld_mod_entry_attrs E (Some hl) (Some name) (Some parent) pfx (Some as) op)"
proof -
  note sendsI = context_sends [OF assms(1-5)]
  have ok: "\<not> list_ex missing [Some name, Some parent]" "\<not> list_ex missing [Some name, Some new_name, Some parent]"
    using names by (simp_all add: missing_def)
  note dn = entry_dn_of_def entry_rdn_def or_empty_def
  note fill = fill_attributes_ok [OF assms(1) attrs] and format = formatted_ok [OF assms(1)]
  let ?c = "connection_ctx hl"
  show "sends hl (\<lambda>ld. ldap_add_ext E ld (Some (pfx @ ''='' @ name @ '','' @ parent)) (Some (mods_of LDAP_MOD_ADD as)))
      ADD_ON_READ (ld_add_entry E (Some hl) (Some name) (Some parent) pfx (Some as))"
    unfolding ld_add_entry_def
  proof (rule sendsI [OF ok(1)])
    fix w
    let ?rest = "\<lambda>c. do { (mods, c1) \<leftarrow> fill_attributes E (Some as) LDAP_MOD_ADD c;
               returned (add E c1 (Some (entry_dn_of pfx (Some name) (Some parent))) mods) }"
    obtain v where v: "formatted E ?rest (?c\<lparr>world := w\<rparr>) = ?rest (?c\<lparr>world := v\<rparr>)"
      using format [of ?rest "?c\<lparr>world := w\<rparr>"] by auto
    obtain u where "fill_attributes E (Some as) LDAP_MOD_ADD (?c\<lparr>world := v\<rparr>) = Some (Some (mods_of LDAP_MOD_ADD as), ?c\<lparr>world := u\<rparr>)"
      using fill [of LDAP_MOD_ADD "?c\<lparr>world := v\<rparr>"] by auto
    then show "\<exists>w'. formatted E ?rest (?c\<lparr>world := w\<rparr>) = returned (submit
        (\<lambda>ld. ldap_add_ext E ld (Some (pfx @ ''='' @ name @ '','' @ parent)) (Some (mods_of LDAP_MOD_ADD as)))
        ADD_ON_READ (?c\<lparr>world := w'\<rparr>))"
      unfolding v by (intro exI [of _ u]) (simp add: add_def dn)
  qed
  show "sends hl (\<lambda>ld. ldap_delete_ext E ld (Some (pfx @ ''='' @ name @ '','' @ parent)))
      DELETE_ON_READ (ld_del_entry E (Some hl) (Some name) (Some parent) pfx)"
    unfolding ld_del_entry_def
    by (rule sendsI [OF ok(1)])
      (use format [of "\<lambda>c. returned (ld_delete E c (Some (entry_dn_of pfx (Some name) (Some parent))))" "?c\<lparr>world := w\<rparr>" for w]
       in \<open>auto simp: ld_delete_def dn\<close>)
  have modify: "\<exists>w'. do { (mods, c1) \<leftarrow> fill_attributes E (Some as) k (?c\<lparr>world := w\<rparr>);
        formatted E (\<lambda>c2. returned (modify E c2 dn mods)) c1 } =
      returned (submit (\<lambda>ld. ldap_modify_ext E ld dn (Some (mods_of k as))) MODIFY_ON_READ (?c\<lparr>world := w'\<rparr>))" for w k dn
  proof -
    obtain u where "fill_attributes E (Some as) k (?c\<lparr>world := w\<rparr>) = Some (Some (mods_of k as), ?c\<lparr>world := u\<rparr>)"
      using fill [of k "?c\<lparr>world := w\<rparr>"] by auto
    then show ?thesis
      using format [of "\<lambda>c2. returned (modify E c2 dn (Some (mods_of k as)))" "?c\<lparr>world := u\<rparr>"]
      by (auto simp: modify_def)
  qed
  show "sends hl (\<lambda>ld. ldap_modify_ext E ld (Some (pfx @ ''='' @ name @ '','' @ parent)) (Some (mods_of LDAP_MOD_REPLACE as)))
      MODIFY_ON_READ (ld_mod_entry E (Some hl) (Some name) (Some parent) pfx (Some as))"
    unfolding ld_mod_entry_def
    by (rule sendsI [OF ok(1)]) (use modify in \<open>simp add: dn\<close>)
  show "sends hl (\<lambda>ld. ldap_modify_ext E ld
        (Some (if pfx = '''' then name @ '','' @ parent else pfx @ ''='' @ name @ '','' @ parent)) (Some (mods_of op as)))
      MODIFY_ON_READ (ld_mod_entry_attrs E (Some hl) (Some name) (Some parent) pfx (Some as) op)"
    unfolding ld_mod_entry_attrs_def
    by (rule sendsI [OF ok(1)]) (use modify in \<open>simp add: dn\<close>)
  show "sends hl (\<lambda>ld. ldap_rename E ld (Some (pfx @ ''='' @ name @ '','' @ parent)) (Some (pfx @ ''='' @ new_name))
        (Some parent) True)
      RENAME_ON_READ (ld_rename_entry E (Some hl) (Some name) (Some new_name) (Some parent) pfx)"
    unfolding ld_rename_entry_def
  proof (rule sendsI [OF ok(2)])
    fix w
    let ?rest = "\<lambda>c. returned (ld_rename E c (Some (entry_dn_of pfx (Some name) (Some parent)))
        (Some (entry_rdn pfx (Some new_name))) (Some parent) True)"
    obtain v where "formatted E (formatted E ?rest) (?c\<lparr>world := w\<rparr>) = formatted E ?rest (?c\<lparr>world := v\<rparr>)"
      using format [of "formatted E ?rest" "?c\<lparr>world := w\<rparr>"] by auto
    then show "\<exists>w'. formatted E (formatted E ?rest) (?c\<lparr>world := w\<rparr>) = returned (submit (\<lambda>ld. ldap_rename E ld
        (Some (pfx @ ''='' @ name @ '','' @ parent)) (Some (pfx @ ''='' @ new_name)) (Some parent) True)
        RENAME_ON_READ (?c\<lparr>world := w'\<rparr>))"
      using format [of ?rest "?c\<lparr>world := v\<rparr>"] by (auto simp: ld_rename_def dn)
  qed
qed


definition demo_handle :: "(demo_world, demo_table) ldhandle" where
  "demo_handle = \<lparr>global_config = demo_ld_config, config_ctx = connection_config demo_ld_config,
     connection_ctx = demo_conn\<rparr>"

lemma demo_handle_sel [simp]: "connection_ctx demo_handle = demo_conn" "global_config demo_handle = demo_ld_config"
  by (simp_all add: demo_handle_def)


text \<open>
  Without a handle, and with a missing or empty name or parent, an operation on an entry fails and neither
  sends nor changes anything.
\<close>

theorem entry_operations_check_arguments:
  assumes "h = None \<or> missing name \<or> missing parent"
  shows "ld_add_entry E h name parent pfx attrs = Some (RETURN_CODE_FAILURE, h) \<and>
    ld_del_entry E h name parent pfx = Some (RETURN_CODE_FAILURE, h) \<and>
    ld_mod_entry E h name parent pfx attrs = Some (RETURN_CODE_FAILURE, h) \<and>
    ld_rename_entry E h name new_name parent pfx = Some (RETURN_CODE_FAILURE, h) \<and>
    ld_rename_entry E h new_name name parent pfx = Some (RETURN_CODE_FAILURE, h) \<and>
    ld_mod_entry_attrs E h name parent pfx attrs op = Some (RETURN_CODE_FAILURE, h)"
  using assms
  by (auto simp: ld_add_entry_def ld_del_entry_def ld_mod_entry_def ld_rename_entry_def ld_mod_entry_attrs_def
      checked_def split: option.splits)

lemma entry_operations_check_arguments_witness:
  "ld_del_entry demo_ext (Some demo_handle) (Some '''') (Some ''dc=a'') ''cn'' = Some (RETURN_CODE_FAILURE, Some demo_handle)"
  using entry_operations_check_arguments [of "Some demo_handle" "Some ''''" "Some ''dc=a''" demo_ext]
  by (simp add: missing_def)

lemma fill_mods_unnamed:
  assumes "memory_ok E" and "list_all filled as" and "attr_name a = None"
  shows "\<exists>w. fill_mods E op (as @ a # bs) c = Some (None, c\<lparr>world := w\<rparr>)"
  using assms(2)
proof (induction as arbitrary: c)
  case Nil
  obtain w1 where "alloc E c = (True, c\<lparr>world := w1\<rparr>)" using memory_ok_alloc [OF assms(1)] by blast
  then show ?case by (intro exI [of _ w1]) (simp add: assms(3))
next
  case (Cons x as)
  obtain n vs where x: "attr_name x = Some n" "attr_values x = Some vs" using Cons.prems by (auto simp: filled_def)
  obtain w1 where 1: "alloc E c = (True, c\<lparr>world := w1\<rparr>)" using memory_ok_alloc [OF assms(1)] by blast
  obtain w2 where 2: "alloc E (c\<lparr>world := w1\<rparr>) = (True, c\<lparr>world := w2\<rparr>)"
    using memory_ok_alloc [OF assms(1), of "c\<lparr>world := w1\<rparr>"] by auto
  obtain w3 where 3: "allocs E (1 + length vs) (c\<lparr>world := w2\<rparr>) = (True, c\<lparr>world := w3\<rparr>)"
    using memory_ok_allocs [OF assms(1), of "1 + length vs" "c\<lparr>world := w2\<rparr>"] by auto
  obtain w4 where 4: "fill_mods E op (as @ a # bs) (c\<lparr>world := w3\<rparr>) = Some (None, c\<lparr>world := w4\<rparr>)"
    using Cons.IH [of "c\<lparr>world := w3\<rparr>"] Cons.prems by auto
  show ?case
    using 3 by (intro exI [of _ w4]) (simp add: x 1 2 4 del: allocs.simps)
qed

text \<open>
  The list of modifications is not tested: when it cannot be built, here because an attribute has no name,
  the request is sent all the same, with a NULL list in place of the attributes.
\<close>

theorem unbuilt_attributes_are_sent_as_null:
  assumes "memory_ok E" and "frees_ok E" and "conn_inv (connection_ctx hl)" and "ldap (connection_ctx hl) = Valid ld"
    and "n_read_requests (connection_ctx hl) < MAX_REQUESTS" and "name \<noteq> ''''" and "parent \<noteq> ''''"
    and "list_all filled as" and "attr_name a = None"
  shows "sends hl (\<lambda>ld. ldap_add_ext E ld (Some (pfx @ ''='' @ name @ '','' @ parent)) None) ADD_ON_READ
    (ld_add_entry E (Some hl) (Some name) (Some parent) pfx (Some (as @ a # bs)))"
  unfolding ld_add_entry_def
proof (rule context_sends [OF assms(1-5)])
  show "\<not> list_ex missing [Some name, Some parent]" using assms(6,7) by (simp add: missing_def)
next
  fix w
  let ?c = "connection_ctx hl"
  let ?rest = "\<lambda>c. do { (mods, c1) \<leftarrow> fill_attributes E (Some (as @ a # bs)) LDAP_MOD_ADD c;
             returned (add E c1 (Some (entry_dn_of pfx (Some name) (Some parent))) mods) }"
  obtain v where v: "formatted E ?rest (?c\<lparr>world := w\<rparr>) = ?rest (?c\<lparr>world := v\<rparr>)"
    using formatted_ok [OF assms(1), of ?rest "?c\<lparr>world := w\<rparr>"] by auto
  obtain u where 1: "alloc E (?c\<lparr>world := v\<rparr>) = (True, ?c\<lparr>world := u\<rparr>)"
    using memory_ok_alloc [OF assms(1), of "?c\<lparr>world := v\<rparr>"] by auto
  obtain x where 2: "fill_mods E LDAP_MOD_ADD (as @ a # bs) (?c\<lparr>world := u\<rparr>) = Some (None, ?c\<lparr>world := x\<rparr>)"
    using fill_mods_unnamed [OF assms(1,8,9), of LDAP_MOD_ADD bs "?c\<lparr>world := u\<rparr>"] by auto
  obtain y where 3: "snd (free_block E (?c\<lparr>world := x\<rparr>)) = ?c\<lparr>world := y\<rparr>"
    by (cases "talloc_free E x") (simp add: free_block_def)
  have "fill_attributes E (Some (as @ a # bs)) LDAP_MOD_ADD (?c\<lparr>world := v\<rparr>) = Some (None, ?c\<lparr>world := y\<rparr>)"
    by (simp add: fill_attributes_def 1 2 3)
  then show "\<exists>w'. formatted E ?rest (?c\<lparr>world := w\<rparr>) = returned (submit
      (\<lambda>ld. ldap_add_ext E ld (Some (pfx @ ''='' @ name @ '','' @ parent)) None) ADD_ON_READ (?c\<lparr>world := w'\<rparr>))"
    unfolding v by (intro exI [of _ y]) (simp add: add_def entry_dn_of_def entry_rdn_def or_empty_def)
qed

lemma unbuilt_attributes_are_sent_as_null_witness:
  "sends demo_handle (\<lambda>ld. ldap_add_ext demo_ext ld (Some ''cn=bob,dc=a'') None) ADD_ON_READ
    (ld_add_entry demo_ext (Some demo_handle) (Some ''bob'') (Some ''dc=a'') ''cn''
       (Some [\<lparr>attr_name = None, attr_values = Some [''b'']\<rparr>]))"
  using unbuilt_attributes_are_sent_as_null [of demo_ext demo_handle 1 "''bob''" "''dc=a''" "[]"
      "\<lparr>attr_name = None, attr_values = Some [''b'']\<rparr>" "''cn''" "[]"] by simp

end
