(* ===== verification/Directory_Objects.thy ===== *)
theory Directory_Objects
  imports Domain
begin

text \<open>
  The operations on users (\<open>src/src/user.c\<close>), groups (\<open>group.c\<close>), computers (\<open>computer.c\<close>), organizational
  units (\<open>organizational_unit.c\<close>) and attributes (\<open>attribute.c\<close>), on top of the operations on entries. The
  lemmas show which request each of them sends, for which DN, and what it does without a handle.
\<close>

section \<open>Callers\<close>

text \<open>
  Some operations allocate before they look at their handle. A caller has a handle or, with a NULL handle,
  the rest of the world; both carry the allocator.
\<close>

datatype ('w, 'h) caller = Without_Handle 'w | With_Handle "('w, 'h) ldhandle"

fun handle_of :: "('w, 'h) caller \<Rightarrow> ('w, 'h) ldhandle option" where
  "handle_of (Without_Handle w) = None"
| "handle_of (With_Handle hl) = Some hl"

fun caller_world :: "('w, 'h) caller \<Rightarrow> 'w" where
  "caller_world (Without_Handle w) = w"
| "caller_world (With_Handle hl) = world (connection_ctx hl)"

definition with_world :: "'w \<Rightarrow> ('w, 'h) ldhandle \<Rightarrow> ('w, 'h) ldhandle" where
  "with_world w hl = hl\<lparr>connection_ctx := (connection_ctx hl)\<lparr>world := w\<rparr>\<rparr>"

fun put_world :: "'w \<Rightarrow> ('w, 'h) caller \<Rightarrow> ('w, 'h) caller" where
  "put_world w (Without_Handle _) = Without_Handle w"
| "put_world w (With_Handle hl) = With_Handle (with_world w hl)"

text \<open>\<open>n\<close> allocations up to the first that fails, and \<open>talloc_free\<close> with its result.\<close>

definition caller_allocs :: "('w, 'h) ext \<Rightarrow> nat \<Rightarrow> ('w, 'h) caller \<Rightarrow> bool \<times> ('w, 'h) caller" where
  "caller_allocs E n s = (let (ok, w) = tallocs E n (caller_world s) in (ok, put_world w s))"

definition caller_free :: "('w, 'h) ext \<Rightarrow> ('w, 'h) caller \<Rightarrow> bool \<times> ('w, 'h) caller" where
  "caller_free E s = (let (ok, w) = talloc_free E (caller_world s) in (ok, put_world w s))"

text \<open>An operation on the handle of the caller.\<close>

definition on_handle ::
  "(('w, 'h) ldhandle option \<Rightarrow> (OperationReturnCode \<times> ('w, 'h) ldhandle option) option) \<Rightarrow>
     ('w, 'h) caller \<Rightarrow> (OperationReturnCode \<times> ('w, 'h) caller) option" where
  "on_handle operation s =
     do { (rc, h) \<leftarrow> operation (handle_of s); Some (rc, case h of None \<Rightarrow> s | Some hl \<Rightarrow> With_Handle hl) }"

section \<open>Users\<close>

text \<open>
  \<open>create_user_parent\<close> dereferences the handle before its own test for NULL, so it is undefined without one.
\<close>

definition user_container :: "('w, 'h) ldhandle \<Rightarrow> string" where
  "user_container hl =
     (case directory_type (connection_ctx hl) of LDAP_TYPE_ACTIVE_DIRECTORY \<Rightarrow> ''cn=users'' | _ \<Rightarrow> ''ou=users'') @
     '','' @ base_dn (global_config hl)"

definition create_user_parent ::
  "('w, 'h) ext \<Rightarrow> ('w, 'h) caller \<Rightarrow> (string option \<times> ('w, 'h) caller) option" where
  "create_user_parent E s =
     do { hl \<leftarrow> handle_of s;
          let (ok, s1) = caller_allocs E 1 s;
          Some (if ok then Some (user_container hl) else None, s1) }"

text \<open>
  The container of an operation on users: the given one or the default one; without memory for the default
  one the operation fails. The temporary context around it is freed without looking at the result.
\<close>

definition user_parent ::
  "('w, 'h) ext \<Rightarrow> string option \<Rightarrow> ('w, 'h) caller \<Rightarrow> (string option \<times> ('w, 'h) caller) option" where
  "user_parent E parent s = (case parent of None \<Rightarrow> create_user_parent E s | Some p \<Rightarrow> Some (Some p, s))"

definition with_user_parent ::
  "('w, 'h) ext \<Rightarrow> string option \<Rightarrow>
     (string option \<Rightarrow> ('w, 'h) ldhandle option \<Rightarrow> (OperationReturnCode \<times> ('w, 'h) ldhandle option) option) \<Rightarrow>
     ('w, 'h) caller \<Rightarrow> (OperationReturnCode \<times> ('w, 'h) caller) option" where
  "with_user_parent E parent operation s =
     do { (dn, s1) \<leftarrow> user_parent E parent s;
          if dn = None then Some (RETURN_CODE_FAILURE, s1) else on_handle (operation dn) s1 }"

definition user_context ::
  "('w, 'h) ext \<Rightarrow> (('w, 'h) caller \<Rightarrow> (OperationReturnCode \<times> ('w, 'h) caller) option) \<Rightarrow>
     ('w, 'h) caller \<Rightarrow> (OperationReturnCode \<times> ('w, 'h) caller) option" where
  "user_context E body s =
     (let (ok, s1) = caller_allocs E 1 s in
      if \<not> ok then Some (RETURN_CODE_FAILURE, s1)
      else do { (rc, s2) \<leftarrow> body s1; Some (rc, snd (caller_free E s2)) })"

definition ld_add_user ::
  "('w, 'h) ext \<Rightarrow> ('w, 'h) caller \<Rightarrow> string option \<Rightarrow> ld_attribute list option \<Rightarrow> string option \<Rightarrow>
     (OperationReturnCode \<times> ('w, 'h) caller) option" where
  "ld_add_user E s name attrs parent =
     user_context E (with_user_parent E (if missing parent then None else parent)
       (\<lambda>dn h. ld_add_entry E h name dn ''cn'' attrs)) s"

text \<open>\<open>ld_del_user\<close> frees its context only when it has a DN, and leaks it when there was no memory for one.\<close>

definition ld_del_user ::
  "('w, 'h) ext \<Rightarrow> ('w, 'h) caller \<Rightarrow> string option \<Rightarrow> string option \<Rightarrow>
     (OperationReturnCode \<times> ('w, 'h) caller) option" where
  "ld_del_user E s name parent =
     (let (ok, s1) = caller_allocs E 1 s in
      if \<not> ok then Some (RETURN_CODE_FAILURE, s1)
      else do {
        (dn, s2) \<leftarrow> user_parent E parent s1;
        if dn = None then Some (RETURN_CODE_FAILURE, s2)
        else do { (rc, s3) \<leftarrow> on_handle (\<lambda>h. ld_del_entry E h name dn ''cn'') s2;
                  Some (rc, snd (caller_free E s3)) } })"

definition ld_mod_user ::
  "('w, 'h) ext \<Rightarrow> ('w, 'h) caller \<Rightarrow> string option \<Rightarrow> string option \<Rightarrow> ld_attribute list option \<Rightarrow>
     (OperationReturnCode \<times> ('w, 'h) caller) option" where
  "ld_mod_user E s name parent attrs =
     user_context E (with_user_parent E parent (\<lambda>dn h. ld_mod_entry E h name dn ''cn'' attrs)) s"

definition ld_rename_user ::
  "('w, 'h) ext \<Rightarrow> ('w, 'h) caller \<Rightarrow> string option \<Rightarrow> string option \<Rightarrow> string option \<Rightarrow>
     (OperationReturnCode \<times> ('w, 'h) caller) option" where
  "ld_rename_user E s old_name new_name parent =
     user_context E (with_user_parent E parent (\<lambda>dn h. ld_rename_entry E h old_name new_name dn ''cn'')) s"

text \<open>
  The array of the one attribute that locks or unlocks a user, without values for a NULL value. The outer
  \<open>None\<close> is the NULL pointer. For Active Directory nothing is stored behind the attribute: \<open>fresh_null\<close> says
  whether that memory happens to hold the NULL that ends the array; the inner \<open>None\<close> is the array without
  an end, which is undefined to read.
\<close>

definition lockout_attribute ::
  "('w, 'h) ext \<Rightarrow> string \<Rightarrow> string option \<Rightarrow> ('w, 'h) caller \<Rightarrow> ld_attribute list option \<times> ('w, 'h) caller" where
  "lockout_attribute E type value s =
     (let (ok, s1) = caller_allocs E 1 s in
      if \<not> ok then (None, s1)
      else let (ok, s2) = caller_allocs E (3 + present value) s1 in
      if \<not> ok then (None, snd (caller_free E s2))
      else (Some [\<lparr>attr_name = Some type, attr_values = Some (case value of None \<Rightarrow> [] | Some v \<Rightarrow> [v])\<rparr>], s2))"

definition create_lockout_time_attributes_openldap ::
  "('w, 'h) ext \<Rightarrow> string option \<Rightarrow> ('w, 'h) caller \<Rightarrow> ld_attribute list option option \<times> ('w, 'h) caller" where
  "create_lockout_time_attributes_openldap E value s =
     (let (as, s1) = lockout_attribute E ''pwdAccountLockedTime'' value s in (map_option Some as, s1))"

definition create_lockout_time_attributes_ad ::
  "('w, 'h) ext \<Rightarrow> bool \<Rightarrow> string option \<Rightarrow> ('w, 'h) caller \<Rightarrow>
     ld_attribute list option option \<times> ('w, 'h) caller" where
  "create_lockout_time_attributes_ad E fresh_null value s =
     (let (as, s1) = lockout_attribute E ''userAccountControl'' value s
      in (map_option (\<lambda>as. if fresh_null then Some as else None) as, s1))"

definition modify_lockout ::
  "('w, 'h) ext \<Rightarrow> (('w, 'h) caller \<Rightarrow> ld_attribute list option option \<times> ('w, 'h) caller) \<Rightarrow> int \<Rightarrow>
     string option \<Rightarrow> string option \<Rightarrow> ('w, 'h) caller \<Rightarrow> (OperationReturnCode \<times> ('w, 'h) caller) option" where
  "modify_lockout E create op name parent s =
     (let (attrs, s1) = create s in
      case attrs of
        None \<Rightarrow> Some (RETURN_CODE_FAILURE, s1)
      | Some as \<Rightarrow> with_user_parent E parent (\<lambda>dn h. ld_mod_entry_attrs E h name dn ''cn'' as op) s1)"

definition ld_block_user ::
  "('w, 'h) ext \<Rightarrow> bool \<Rightarrow> ('w, 'h) caller \<Rightarrow> string option \<Rightarrow> string option \<Rightarrow>
     (OperationReturnCode \<times> ('w, 'h) caller) option" where
  "ld_block_user E fresh_null s name parent =
     user_context E (\<lambda>s1. do {
       hl \<leftarrow> handle_of s1;
       case directory_type (connection_ctx hl) of
         LDAP_TYPE_OPENLDAP \<Rightarrow>
           modify_lockout E (create_lockout_time_attributes_openldap E (Some ''000001010000Z'')) LDAP_MOD_REPLACE
             name parent s1
       | LDAP_TYPE_ACTIVE_DIRECTORY \<Rightarrow>
           modify_lockout E (create_lockout_time_attributes_ad E fresh_null (Some ''514'')) LDAP_MOD_REPLACE
             name parent s1
       | _ \<Rightarrow> Some (RETURN_CODE_FAILURE, s1) }) s"

definition ld_unblock_user ::
  "('w, 'h) ext \<Rightarrow> bool \<Rightarrow> ('w, 'h) caller \<Rightarrow> string option \<Rightarrow> string option \<Rightarrow>
     (OperationReturnCode \<times> ('w, 'h) caller) option" where
  "ld_unblock_user E fresh_null s name parent =
     user_context E (\<lambda>s1. do {
       hl \<leftarrow> handle_of s1;
       case directory_type (connection_ctx hl) of
         LDAP_TYPE_OPENLDAP \<Rightarrow>
           modify_lockout E (create_lockout_time_attributes_openldap E None) LDAP_MOD_DELETE name parent s1
       | LDAP_TYPE_ACTIVE_DIRECTORY \<Rightarrow>
           modify_lockout E (create_lockout_time_attributes_ad E fresh_null (Some ''512'')) LDAP_MOD_REPLACE
             name parent s1
       | _ \<Rightarrow> Some (RETURN_CODE_FAILURE, s1) }) s"

section \<open>Groups, organizational units and attributes\<close>

text \<open>The default container is the base DN. Additions take an empty container for a missing one.\<close>

definition base_of :: "('w, 'h) ldhandle option \<Rightarrow> string option" where
  "base_of h = map_option (\<lambda>hl. base_dn (global_config hl)) h"

definition parent_or_base :: "('w, 'h) ldhandle option \<Rightarrow> string option \<Rightarrow> string option" where
  "parent_or_base h parent = (case parent of None \<Rightarrow> base_of h | Some p \<Rightarrow> Some p)"

definition ld_add_group ::
  "('w, 'h) ext \<Rightarrow> ('w, 'h) ldhandle option \<Rightarrow> string option \<Rightarrow> ld_attribute list option \<Rightarrow> string option \<Rightarrow>
     (OperationReturnCode \<times> ('w, 'h) ldhandle option) option" where
  "ld_add_group E h name attrs parent =
     ld_add_entry E h name (if missing parent then base_of h else parent) ''cn'' attrs"

definition ld_del_group ::
  "('w, 'h) ext \<Rightarrow> ('w, 'h) ldhandle option \<Rightarrow> string option \<Rightarrow> string option \<Rightarrow>
     (OperationReturnCode \<times> ('w, 'h) ldhandle option) option" where
  "ld_del_group E h name parent = ld_del_entry E h name (parent_or_base h parent) ''cn''"

definition ld_mod_group ::
  "('w, 'h) ext \<Rightarrow> ('w, 'h) ldhandle option \<Rightarrow> string option \<Rightarrow> string option \<Rightarrow> ld_attribute list option \<Rightarrow>
     (OperationReturnCode \<times> ('w, 'h) ldhandle option) option" where
  "ld_mod_group E h name parent attrs = ld_mod_entry E h name (parent_or_base h parent) ''cn'' attrs"

definition ld_rename_group ::
  "('w, 'h) ext \<Rightarrow> ('w, 'h) ldhandle option \<Rightarrow> string option \<Rightarrow> string option \<Rightarrow> string option \<Rightarrow>
     (OperationReturnCode \<times> ('w, 'h) ldhandle option) option" where
  "ld_rename_group E h old_name new_name parent =
     ld_rename_entry E h old_name new_name (parent_or_base h parent) ''cn''"

text \<open>
  \<open>group_member_modify\<close> reads the directory type before it tests the handle. The list of one modification
  takes five allocations.
\<close>

definition group_member_modify ::
  "('w, 'h) ext \<Rightarrow> ('w, 'h) ldhandle option \<Rightarrow> string option \<Rightarrow> string option \<Rightarrow> int \<Rightarrow>
     (OperationReturnCode \<times> ('w, 'h) ldhandle option) option" where
  "group_member_modify E h group_dn user_dn op =
     do { hl \<leftarrow> h;
          let change = (\<lambda>member.
            checked [group_dn, user_dn]
              (in_context E (\<lambda>c.
                 let (ok, c1) = allocs E 5 c in
                 if \<not> ok then Some (None, c1)
                 else returned (modify E c1 group_dn
                        (Some [\<lparr>mod_op = op, mod_type = member, mod_values = [or_empty user_dn]\<rparr>])))) h);
          case directory_type (connection_ctx hl) of
            LDAP_TYPE_OPENLDAP \<Rightarrow> change ''memberuid''
          | LDAP_TYPE_ACTIVE_DIRECTORY \<Rightarrow> change ''member''
          | _ \<Rightarrow> Some (RETURN_CODE_FAILURE, h) }"

definition ld_group_add_user ::
  "('w, 'h) ext \<Rightarrow> ('w, 'h) ldhandle option \<Rightarrow> string option \<Rightarrow> string option \<Rightarrow>
     (OperationReturnCode \<times> ('w, 'h) ldhandle option) option" where
  "ld_group_add_user E h group_name user_name = group_member_modify E h group_name user_name LDAP_MOD_ADD"

definition ld_group_remove_user ::
  "('w, 'h) ext \<Rightarrow> ('w, 'h) ldhandle option \<Rightarrow> string option \<Rightarrow> string option \<Rightarrow>
     (OperationReturnCode \<times> ('w, 'h) ldhandle option) option" where
  "ld_group_remove_user E h group_name user_name = group_member_modify E h group_name user_name LDAP_MOD_DELETE"

definition ld_add_ou ::
  "('w, 'h) ext \<Rightarrow> ('w, 'h) ldhandle option \<Rightarrow> string option \<Rightarrow> ld_attribute list option \<Rightarrow> string option \<Rightarrow>
     (OperationReturnCode \<times> ('w, 'h) ldhandle option) option" where
  "ld_add_ou E h name attrs parent =
     ld_add_entry E h name (if missing parent then base_of h else parent) ''ou'' attrs"

definition ld_del_ou ::
  "('w, 'h) ext \<Rightarrow> ('w, 'h) ldhandle option \<Rightarrow> string option \<Rightarrow> string option \<Rightarrow>
     (OperationReturnCode \<times> ('w, 'h) ldhandle option) option" where
  "ld_del_ou E h name parent = ld_del_entry E h name (parent_or_base h parent) ''ou''"

definition ld_mod_ou ::
  "('w, 'h) ext \<Rightarrow> ('w, 'h) ldhandle option \<Rightarrow> string option \<Rightarrow> string option \<Rightarrow> ld_attribute list option \<Rightarrow>
     (OperationReturnCode \<times> ('w, 'h) ldhandle option) option" where
  "ld_mod_ou E h name parent attrs = ld_mod_entry E h name (parent_or_base h parent) ''ou'' attrs"

definition ld_rename_ou ::
  "('w, 'h) ext \<Rightarrow> ('w, 'h) ldhandle option \<Rightarrow> string option \<Rightarrow> string option \<Rightarrow> string option \<Rightarrow>
     (OperationReturnCode \<times> ('w, 'h) ldhandle option) option" where
  "ld_rename_ou E h old_name new_name parent =
     ld_rename_entry E h old_name new_name (parent_or_base h parent) ''ou''"

definition create_attribute_parent :: "('w, 'h) ldhandle option \<Rightarrow> string" where
  "create_attribute_parent h = (case h of None \<Rightarrow> '''' | Some hl \<Rightarrow> base_dn (global_config hl))"

definition ld_add_attributes ::
  "('w, 'h) ext \<Rightarrow> ('w, 'h) ldhandle option \<Rightarrow> string option \<Rightarrow> ld_attribute list option \<Rightarrow>
     (OperationReturnCode \<times> ('w, 'h) ldhandle option) option" where
  "ld_add_attributes E h cn attrs =
     ld_mod_entry_attrs E h cn (Some (create_attribute_parent h)) '''' attrs LDAP_MOD_ADD"

definition ld_del_attributes ::
  "('w, 'h) ext \<Rightarrow> ('w, 'h) ldhandle option \<Rightarrow> string option \<Rightarrow> ld_attribute list option \<Rightarrow>
     (OperationReturnCode \<times> ('w, 'h) ldhandle option) option" where
  "ld_del_attributes E h cn attrs =
     ld_mod_entry_attrs E h cn (Some (create_attribute_parent h)) '''' attrs LDAP_MOD_DELETE"

section \<open>Computers\<close>

definition create_computer_parent ::
  "('w, 'h) ext \<Rightarrow> ('w, 'h) caller \<Rightarrow> string option \<times> ('w, 'h) caller" where
  "create_computer_parent E s =
     (let (ok, s1) = caller_allocs E 1 s
      in (if ok then Some (''ou=equipment,'' @ or_empty (base_of (handle_of s))) else None, s1))"

text \<open>
  The temporary context of an operation on computers. Without memory for the default container the
  operation on the entry gets NULL; a context that cannot be freed counts as a failure.
\<close>

definition with_computer_parent ::
  "('w, 'h) ext \<Rightarrow> string option \<Rightarrow>
     (string option \<Rightarrow> ('w, 'h) ldhandle option \<Rightarrow> (OperationReturnCode \<times> ('w, 'h) ldhandle option) option) \<Rightarrow>
     ('w, 'h) caller \<Rightarrow> (OperationReturnCode \<times> ('w, 'h) caller) option" where
  "with_computer_parent E parent operation s =
     (let (ok, s1) = caller_allocs E 1 s in
      if \<not> ok then Some (RETURN_CODE_FAILURE, s1)
      else let (dn, s2) = (case parent of None \<Rightarrow> create_computer_parent E s1 | Some p \<Rightarrow> (Some p, s1)) in
        do { (rc, s3) \<leftarrow> on_handle (operation dn) s2;
             let (freed, s4) = caller_free E s3;
             Some (if freed then rc else RETURN_CODE_FAILURE, s4) })"

definition ld_add_computer ::
  "('w, 'h) ext \<Rightarrow> ('w, 'h) ldhandle option \<Rightarrow> string option \<Rightarrow> ld_attribute list option \<Rightarrow> string option \<Rightarrow>
     (OperationReturnCode \<times> ('w, 'h) ldhandle option) option" where
  "ld_add_computer E h name attrs parent =
     ld_add_entry E h name (if missing parent then base_of h else parent) ''cn'' attrs"

definition ld_del_computer ::
  "('w, 'h) ext \<Rightarrow> ('w, 'h) caller \<Rightarrow> string option \<Rightarrow> string option \<Rightarrow>
     (OperationReturnCode \<times> ('w, 'h) caller) option" where
  "ld_del_computer E s name parent =
     with_computer_parent E parent (\<lambda>dn h. ld_del_entry E h name dn ''cn'') s"

definition ld_mod_computer ::
  "('w, 'h) ext \<Rightarrow> ('w, 'h) caller \<Rightarrow> string option \<Rightarrow> string option \<Rightarrow> ld_attribute list option \<Rightarrow>
     (OperationReturnCode \<times> ('w, 'h) caller) option" where
  "ld_mod_computer E s name parent attrs =
     with_computer_parent E parent (\<lambda>dn h. ld_mod_entry E h name dn ''cn'' attrs) s"

definition ld_rename_computer ::
  "('w, 'h) ext \<Rightarrow> ('w, 'h) caller \<Rightarrow> string option \<Rightarrow> string option \<Rightarrow> string option \<Rightarrow>
     (OperationReturnCode \<times> ('w, 'h) caller) option" where
  "ld_rename_computer E s old_name new_name parent =
     with_computer_parent E parent (\<lambda>dn h. ld_rename_entry E h old_name new_name dn ''cn'') s"

section \<open>Which request each operation sends\<close>

text \<open>A handle on which an operation can send a request: memory, a session and a free slot are there.\<close>

definition can_send :: "('w, 'h) ext \<Rightarrow> ('w, 'h) ldhandle \<Rightarrow> bool" where
  "can_send E hl \<longleftrightarrow> memory_ok E \<and> frees_ok E \<and> conn_inv (connection_ctx hl) \<and>
     (\<exists>ld. ldap (connection_ctx hl) = Valid ld) \<and> n_read_requests (connection_ctx hl) < MAX_REQUESTS"

lemma with_world_sel [simp]:
  "connection_ctx (with_world w hl) = (connection_ctx hl)\<lparr>world := w\<rparr>"
  "global_config (with_world w hl) = global_config hl"
  "with_world w (with_world v hl) = with_world w hl"
  by (simp_all add: with_world_def)

lemma can_send_with_world [simp]: "can_send E (with_world w hl) = can_send E hl"
  by (simp add: can_send_def)

lemma user_container_with_world [simp]: "user_container (with_world w hl) = user_container hl"
  by (simp add: user_container_def)

lemma base_of_Some [simp]: "base_of (Some hl) = Some (base_dn (global_config hl))"
  by (simp add: base_of_def)

lemma can_send_entry_operations:
  assumes "can_send E hl"
  obtains ld where "memory_ok E" and "frees_ok E" and "conn_inv (connection_ctx hl)" and "ldap (connection_ctx hl) = Valid ld"
    and "n_read_requests (connection_ctx hl) < MAX_REQUESTS"
  using assms by (auto simp: can_send_def)

text \<open>What an operation with a caller shows of the handle.\<close>

definition seen ::
  "(OperationReturnCode \<times> ('w, 'h) caller) option \<Rightarrow> (OperationReturnCode \<times> ('w, 'h) ldhandle option) option" where
  "seen r = map_option (map_prod id handle_of) r"

lemma seen_Some [simp]: "seen (Some (rc, s)) = Some (rc, handle_of s)"
  by (simp add: seen_def)

lemma sends_result:
  assumes "sends hl send handler r"
  obtains rc hl' where "r = Some (rc, Some hl')"
  using assms by (auto simp: sends_def)

lemma sends_frame:
  assumes "sends (with_world w hl) send handler (Some (rc, Some hl'))"
  shows "sends hl send handler (Some (rc, Some (with_world v hl')))"
proof -
  obtain ld u code m u' c where ld: "ldap (connection_ctx hl) = Valid ld" and reply: "send ld u = ((code, m), u')"
    and r: "rc = (if code = LDAP_SUCCESS then RETURN_CODE_SUCCESS else RETURN_CODE_FAILURE)"
      "hl' = (with_world w hl)\<lparr>connection_ctx := c\<rparr>"
    and c: "conn_inv c" "ldap c = Valid ld" "searches c = searches (connection_ctx hl)"
      "outstanding c = outstanding (connection_ctx hl) @ (if code = LDAP_SUCCESS then [(m, Some handler)] else [])"
    using assms by (auto simp: sends_def)
  have "with_world v hl' = hl\<lparr>connection_ctx := c\<lparr>world := v\<rparr>\<rparr>"
    by (simp add: r(2) with_world_def)
  then show ?thesis
    using ld reply r(1) c unfolding sends_def
    by (intro exI [of _ ld] exI [of _ u] exI [of _ code] exI [of _ m] exI [of _ u'] exI [of _ "c\<lparr>world := v\<rparr>"]) simp
qed

text \<open>
  The contract between an operation on an entry and what surrounds it: with memory, \<open>within\<close> calls the
  operation once, with the container chosen for the given parent, on the same handle, and returns its result;
  before and after only the world changes.
\<close>

locale entry_container =
  fixes within :: "('w, 'h) ext \<Rightarrow> string option \<Rightarrow>
      (string option \<Rightarrow> ('w, 'h) ldhandle option \<Rightarrow> (OperationReturnCode \<times> ('w, 'h) ldhandle option) option) \<Rightarrow>
      ('w, 'h) caller \<Rightarrow> (OperationReturnCode \<times> ('w, 'h) caller) option"
    and container :: "('w, 'h) ldhandle \<Rightarrow> string option \<Rightarrow> string"
  assumes within_calls: "memory_ok E \<Longrightarrow> frees_ok E \<Longrightarrow> \<exists>w. \<forall>rc hl'.
      operation (Some (container hl parent)) (Some (with_world w hl)) = Some (rc, Some hl') \<longrightarrow>
      (\<exists>v. within E parent operation (With_Handle hl) = Some (rc, With_Handle (with_world v hl')))"
begin

lemma within_sends:
  assumes "memory_ok E" and "frees_ok E"
    and "\<And>w. sends (with_world w hl) send handler (operation (Some (container hl parent)) (Some (with_world w hl)))"
  shows "sends hl send handler (seen (within E parent operation (With_Handle hl)))"
proof -
  obtain w where w: "\<And>rc hl'. operation (Some (container hl parent)) (Some (with_world w hl)) = Some (rc, Some hl') \<Longrightarrow>
      \<exists>v. within E parent operation (With_Handle hl) = Some (rc, With_Handle (with_world v hl'))"
    using within_calls [OF assms(1,2), of operation hl parent] by blast
  obtain rc hl' where r: "operation (Some (container hl parent)) (Some (with_world w hl)) = Some (rc, Some hl')"
    using sends_result [OF assms(3)] by blast
  obtain v where "within E parent operation (With_Handle hl) = Some (rc, With_Handle (with_world v hl'))"
    using w [OF r] by blast
  moreover have "sends hl send handler (Some (rc, Some (with_world v hl')))"
    using assms(3) [of w] unfolding r by (rule sends_frame)
  ultimately show ?thesis by simp
qed

lemma operations_send:
  assumes "can_send E hl" and "name \<noteq> ''''" and "new_name \<noteq> ''''" and "container hl parent \<noteq> ''''" and "list_all filled as"
  shows "sends hl (\<lambda>ld. ldap_add_ext E ld (Some (pfx @ ''='' @ name @ '','' @ container hl parent)) (Some (mods_of LDAP_MOD_ADD as)))
      ADD_ON_READ (seen (within E parent (\<lambda>dn h. ld_add_entry E h (Some name) dn pfx (Some as)) (With_Handle hl)))"
    and "sends hl (\<lambda>ld. ldap_delete_ext E ld (Some (pfx @ ''='' @ name @ '','' @ container hl parent)))
      DELETE_ON_READ (seen (within E parent (\<lambda>dn h. ld_del_entry E h (Some name) dn pfx) (With_Handle hl)))"
    and "sends hl (\<lambda>ld. ldap_modify_ext E ld (Some (pfx @ ''='' @ name @ '','' @ container hl parent)) (Some (mods_of LDAP_MOD_REPLACE as)))
      MODIFY_ON_READ (seen (within E parent (\<lambda>dn h. ld_mod_entry E h (Some name) dn pfx (Some as)) (With_Handle hl)))"
    and "sends hl (\<lambda>ld. ldap_rename E ld (Some (pfx @ ''='' @ name @ '','' @ container hl parent)) (Some (pfx @ ''='' @ new_name))
        (Some (container hl parent)) True)
      RENAME_ON_READ (seen (within E parent (\<lambda>dn h. ld_rename_entry E h (Some name) (Some new_name) dn pfx) (With_Handle hl)))"
    and "sends hl (\<lambda>ld. ldap_modify_ext E ld (Some (if pfx = '''' then name @ '','' @ container hl parent
          else pfx @ ''='' @ name @ '','' @ container hl parent)) (Some (mods_of op as)))
      MODIFY_ON_READ (seen (within E parent (\<lambda>dn h. ld_mod_entry_attrs E h (Some name) dn pfx (Some as) op) (With_Handle hl)))"
proof -
  obtain ld where ready: "memory_ok E" "frees_ok E" "conn_inv (connection_ctx hl)" "ldap (connection_ctx hl) = Valid ld"
      "n_read_requests (connection_ctx hl) < MAX_REQUESTS"
    using assms(1) by (rule can_send_entry_operations)
  have world: "conn_inv (connection_ctx (with_world w hl))" "ldap (connection_ctx (with_world w hl)) = Valid ld"
      "n_read_requests (connection_ctx (with_world w hl)) < MAX_REQUESTS" for w
    using ready by simp_all
  note sending = within_sends [OF ready(1,2)] entry_operations_send [OF ready(1,2) world assms(2-5)]
  show "sends hl (\<lambda>ld. ldap_add_ext E ld (Some (pfx @ ''='' @ name @ '','' @ container hl parent)) (Some (mods_of LDAP_MOD_ADD as)))
      ADD_ON_READ (seen (within E parent (\<lambda>dn h. ld_add_entry E h (Some name) dn pfx (Some as)) (With_Handle hl)))"
    by (rule sending(1)) (rule sending(2))
  show "sends hl (\<lambda>ld. ldap_delete_ext E ld (Some (pfx @ ''='' @ name @ '','' @ container hl parent)))
      DELETE_ON_READ (seen (within E parent (\<lambda>dn h. ld_del_entry E h (Some name) dn pfx) (With_Handle hl)))"
    by (rule sending(1)) (rule sending(3))
  show "sends hl (\<lambda>ld. ldap_modify_ext E ld (Some (pfx @ ''='' @ name @ '','' @ container hl parent)) (Some (mods_of LDAP_MOD_REPLACE as)))
      MODIFY_ON_READ (seen (within E parent (\<lambda>dn h. ld_mod_entry E h (Some name) dn pfx (Some as)) (With_Handle hl)))"
    by (rule sending(1)) (rule sending(4))
  show "sends hl (\<lambda>ld. ldap_rename E ld (Some (pfx @ ''='' @ name @ '','' @ container hl parent)) (Some (pfx @ ''='' @ new_name))
        (Some (container hl parent)) True)
      RENAME_ON_READ (seen (within E parent (\<lambda>dn h. ld_rename_entry E h (Some name) (Some new_name) dn pfx) (With_Handle hl)))"
    by (rule sending(1)) (rule sending(5))
  show "sends hl (\<lambda>ld. ldap_modify_ext E ld (Some (if pfx = '''' then name @ '','' @ container hl parent
          else pfx @ ''='' @ name @ '','' @ container hl parent)) (Some (mods_of op as)))
      MODIFY_ON_READ (seen (within E parent (\<lambda>dn h. ld_mod_entry_attrs E h (Some name) dn pfx (Some as) op) (With_Handle hl)))"
    by (rule sending(1)) (rule sending(6))
qed

end

lemma caller_allocs_ok: "memory_ok E \<Longrightarrow> \<exists>w. caller_allocs E n s = (True, put_world w s)"
  using tallocs_ok [of E n "caller_world s"] by (auto simp: caller_allocs_def)

lemma caller_free_ok: "frees_ok E \<Longrightarrow> \<exists>w. caller_free E s = (True, put_world w s)"
  by (cases "talloc_free E (caller_world s)") (auto simp: caller_free_def frees_ok_def, metis fst_conv)

text \<open>The container of an operation on users and on computers.\<close>

definition users_of :: "('w, 'h) ldhandle \<Rightarrow> string option \<Rightarrow> string" where
  "users_of hl parent = (case parent of None \<Rightarrow> user_container hl | Some p \<Rightarrow> p)"

definition computers_of :: "('w, 'h) ldhandle \<Rightarrow> string option \<Rightarrow> string" where
  "computers_of hl parent = (case parent of None \<Rightarrow> ''ou=equipment,'' @ base_dn (global_config hl) | Some p \<Rightarrow> p)"

lemma user_container_nonempty [simp]: "user_container hl \<noteq> ''''" "users_of hl None = user_container hl" "users_of hl (Some p) = p"
  "users_of (with_world w hl) parent = users_of hl parent"
  by (auto simp: user_container_def users_of_def split: LdapDirectoryType.splits option.splits)

lemma with_user_parent_ok:
  assumes "memory_ok E"
  shows "\<exists>w. with_user_parent E parent operation (With_Handle hl) =
    on_handle (operation (Some (users_of hl parent))) (With_Handle (with_world w hl))"
proof (cases parent)
  case None
  obtain w where "caller_allocs E 1 (With_Handle hl) = (True, put_world w (With_Handle hl))"
    using caller_allocs_ok [OF assms] by blast
  then show ?thesis using None
    by (intro exI [of _ w]) (simp add: with_user_parent_def user_parent_def create_user_parent_def)
next
  case (Some p)
  have "with_world (world (connection_ctx hl)) hl = hl" by (simp add: with_world_def)
  then show ?thesis using Some
    by (intro exI [of _ "world (connection_ctx hl)"]) (simp add: with_user_parent_def user_parent_def)
qed

lemma with_user_parent_calls:
  assumes "memory_ok E"
  shows "\<exists>w. \<forall>rc hl'. operation (Some (users_of hl parent)) (Some (with_world w hl)) = Some (rc, Some hl') \<longrightarrow>
    with_user_parent E parent operation (With_Handle hl) = Some (rc, With_Handle hl')"
proof -
  obtain w where "with_user_parent E parent operation (With_Handle hl) =
      on_handle (operation (Some (users_of hl parent))) (With_Handle (with_world w hl))"
    using with_user_parent_ok [OF assms] by blast
  then show ?thesis by (intro exI [of _ w]) (simp add: on_handle_def)
qed

lemma user_context_calls:
  assumes "memory_ok E" and "frees_ok E"
    and "\<And>w. \<exists>v. \<forall>rc hl'. operation (Some (with_world v hl)) = Some (rc, Some hl') \<longrightarrow>
      body (With_Handle (with_world w hl)) = Some (rc, With_Handle hl')"
  shows "\<exists>w. \<forall>rc hl'. operation (Some (with_world w hl)) = Some (rc, Some hl') \<longrightarrow>
    (\<exists>v. user_context E body (With_Handle hl) = Some (rc, With_Handle (with_world v hl')))"
proof -
  obtain u where u: "caller_allocs E 1 (With_Handle hl) = (True, With_Handle (with_world u hl))"
    using caller_allocs_ok [OF assms(1), of 1 "With_Handle hl"] by auto
  obtain w where w: "\<And>rc hl'. operation (Some (with_world w hl)) = Some (rc, Some hl') \<Longrightarrow>
      body (With_Handle (with_world u hl)) = Some (rc, With_Handle hl')"
    using assms(3) [of u] by blast
  show ?thesis
  proof (rule exI [of _ w], intro allI impI)
    fix rc hl'
    assume r: "operation (Some (with_world w hl)) = Some (rc, Some hl')"
    obtain v where "caller_free E (With_Handle hl') = (True, With_Handle (with_world v hl'))"
      using caller_free_ok [OF assms(2), of "With_Handle hl'"] by auto
    then show "\<exists>v. user_context E body (With_Handle hl) = Some (rc, With_Handle (with_world v hl'))"
      by (intro exI [of _ v]) (simp add: user_context_def u w [OF r] del: One_nat_def)
  qed
qed

interpretation us: entry_container "\<lambda>E parent operation. user_context E (with_user_parent E parent operation)" users_of
proof
  fix E :: "('a, 'b) ext" and operation and hl :: "('a, 'b) ldhandle" and parent
  assume "memory_ok E" "frees_ok E"
  then show "\<exists>w. \<forall>rc hl'. operation (Some (users_of hl parent)) (Some (with_world w hl)) = Some (rc, Some hl') \<longrightarrow>
      (\<exists>v. user_context E (with_user_parent E parent operation) (With_Handle hl) = Some (rc, With_Handle (with_world v hl')))"
    by (rule user_context_calls)
      (use with_user_parent_calls [OF \<open>memory_ok E\<close>, of operation "with_world w hl" parent for w] in simp)
qed

interpretation cs: entry_container with_computer_parent computers_of
proof
  fix E :: "('a, 'b) ext" and operation and hl :: "('a, 'b) ldhandle" and parent
  assume ok: "memory_ok E" "frees_ok E"
  let ?run = "with_computer_parent E parent operation (With_Handle hl)"
  obtain u where u: "caller_allocs E 1 (With_Handle hl) = (True, With_Handle (with_world u hl))"
    using caller_allocs_ok [OF ok(1), of 1 "With_Handle hl"] by auto
  obtain w where w: "(case parent of None \<Rightarrow> create_computer_parent E (With_Handle (with_world u hl))
      | Some p \<Rightarrow> (Some p, With_Handle (with_world u hl))) = (Some (computers_of hl parent), With_Handle (with_world w hl))"
    using caller_allocs_ok [OF ok(1), of 1 "With_Handle (with_world u hl)"]
    by (cases parent) (auto simp: create_computer_parent_def computers_of_def or_empty_def)
  have "\<exists>v. ?run = Some (rc, With_Handle (with_world v hl'))"
    if r: "operation (Some (computers_of hl parent)) (Some (with_world w hl)) = Some (rc, Some hl')" for rc hl'
  proof -
    obtain v where "caller_free E (With_Handle hl') = (True, With_Handle (with_world v hl'))"
      using caller_free_ok [OF ok(2), of "With_Handle hl'"] by auto
    then show ?thesis
      by (intro exI [of _ v]) (simp add: with_computer_parent_def u w on_handle_def r del: One_nat_def)
  qed
  then show "\<exists>w. \<forall>rc hl'. operation (Some (computers_of hl parent)) (Some (with_world w hl)) = Some (rc, Some hl') \<longrightarrow>
      (\<exists>v. ?run = Some (rc, With_Handle (with_world v hl')))"
    by blast
qed

text \<open>
  The context of a change of the lockout attribute of type \<open>t\<close> and value \<open>v\<close>.
\<close>

definition lockout_context ::
  "string \<Rightarrow> string option \<Rightarrow> ('w, 'h) ext \<Rightarrow> string option \<Rightarrow>
     (string option \<Rightarrow> ('w, 'h) ldhandle option \<Rightarrow> (OperationReturnCode \<times> ('w, 'h) ldhandle option) option) \<Rightarrow>
     ('w, 'h) caller \<Rightarrow> (OperationReturnCode \<times> ('w, 'h) caller) option" where
  "lockout_context t v E parent operation =
     user_context E (\<lambda>s. let (attrs, s1) = lockout_attribute E t v s in
       if attrs = None then Some (RETURN_CODE_FAILURE, s1) else with_user_parent E parent operation s1)"

definition lockout_mods :: "string \<Rightarrow> string option \<Rightarrow> ld_attribute list" where
  "lockout_mods t v = [\<lparr>attr_name = Some t, attr_values = Some (case v of None \<Rightarrow> [] | Some x \<Rightarrow> [x])\<rparr>]"

lemma lockout_attribute_ok:
  assumes "memory_ok E"
  shows "\<exists>w. lockout_attribute E t v (With_Handle hl) = (Some (lockout_mods t v), With_Handle (with_world w hl))"
proof -
  obtain u where u: "caller_allocs E 1 (With_Handle hl) = (True, With_Handle (with_world u hl))"
    using caller_allocs_ok [OF assms, of 1 "With_Handle hl"] by auto
  obtain w where "caller_allocs E (3 + present v) (With_Handle (with_world u hl)) = (True, With_Handle (with_world w hl))"
    using caller_allocs_ok [OF assms, of "3 + present v" "With_Handle (with_world u hl)"] by auto
  then show ?thesis by (intro exI [of _ w]) (simp add: lockout_attribute_def lockout_mods_def u del: One_nat_def)
qed

interpretation ls: entry_container "lockout_context t v" users_of
proof
  fix E :: "('a, 'b) ext" and operation and hl :: "('a, 'b) ldhandle" and parent
  assume ok: "memory_ok E" "frees_ok E"
  show "\<exists>w. \<forall>rc hl'. operation (Some (users_of hl parent)) (Some (with_world w hl)) = Some (rc, Some hl') \<longrightarrow>
      (\<exists>x. lockout_context t v E parent operation (With_Handle hl) = Some (rc, With_Handle (with_world x hl')))"
    unfolding lockout_context_def
  proof (rule user_context_calls [OF ok])
    fix w
    obtain x where "lockout_attribute E t v (With_Handle (with_world w hl)) = (Some (lockout_mods t v), With_Handle (with_world x hl))"
      using lockout_attribute_ok [OF ok(1), of t v "with_world w hl"] by auto
    then show "\<exists>y. \<forall>rc hl'. operation (Some (users_of hl parent)) (Some (with_world y hl)) = Some (rc, Some hl') \<longrightarrow>
      (let (attrs, s1) = lockout_attribute E t v (With_Handle (with_world w hl))
       in if attrs = None then Some (RETURN_CODE_FAILURE, s1) else with_user_parent E parent operation s1) =
        Some (rc, With_Handle hl')"
      using with_user_parent_calls [OF ok(1), of operation "with_world x hl" parent] by simp
  qed
qed

lemma ld_del_user_context:
  assumes "memory_ok E" and "s = With_Handle hl"
  shows "ld_del_user E s name parent =
    user_context E (with_user_parent E parent (\<lambda>dn h. ld_del_entry E h name dn ''cn'')) s"
proof -
  have user: "\<exists>x w. user_parent E parent (With_Handle h) = Some (Some x, With_Handle (with_world w h))" for h :: "('a, 'b) ldhandle"
  proof (cases parent)
    case None
    obtain w where "caller_allocs E 1 (With_Handle h) = (True, With_Handle (with_world w h))"
      using caller_allocs_ok [OF assms(1), of 1 "With_Handle h"] by auto
    then show ?thesis using None by (simp add: user_parent_def create_user_parent_def) blast
  next
    case (Some p)
    then show ?thesis
      by (intro exI [of _ p] exI [of _ "world (connection_ctx h)"]) (simp add: user_parent_def with_world_def)
  qed
  obtain u where u: "caller_allocs E 1 s = (True, With_Handle (with_world u hl))"
    using caller_allocs_ok [OF assms(1), of 1 s] assms(2) by auto
  obtain x w where "user_parent E parent (With_Handle (with_world u hl)) = Some (Some x, With_Handle (with_world w hl))"
    using user [of "with_world u hl"] by auto
  then show ?thesis
    by (simp add: ld_del_user_def user_context_def with_user_parent_def u del: One_nat_def)
qed

text \<open>
  C14: Each operation on users sends one request for \<open>cn=name\<close> in the given container or, without one, in
  \<open>cn=users\<close> of the base DN for Active Directory and in \<open>ou=users\<close> otherwise. For an addition an empty
  container counts as none.
\<close>

theorem user_operations:
  assumes "can_send E hl" and "name \<noteq> ''''" and "new_name \<noteq> ''''" and "parent \<noteq> Some ''''" and "list_all filled as"
    and "container = users_of hl parent"
  shows "sends hl (\<lambda>ld. ldap_add_ext E ld (Some (''cn='' @ name @ '','' @ container)) (Some (mods_of LDAP_MOD_ADD as)))
      ADD_ON_READ (seen (ld_add_user E (With_Handle hl) (Some name) (Some as) parent)) \<and>
    sends hl (\<lambda>ld. ldap_add_ext E ld (Some (''cn='' @ name @ '','' @ user_container hl)) (Some (mods_of LDAP_MOD_ADD as)))
      ADD_ON_READ (seen (ld_add_user E (With_Handle hl) (Some name) (Some as) (Some ''''))) \<and>
    sends hl (\<lambda>ld. ldap_delete_ext E ld (Some (''cn='' @ name @ '','' @ container)))
      DELETE_ON_READ (seen (ld_del_user E (With_Handle hl) (Some name) parent)) \<and>
    sends hl (\<lambda>ld. ldap_modify_ext E ld (Some (''cn='' @ name @ '','' @ container)) (Some (mods_of LDAP_MOD_REPLACE as)))
      MODIFY_ON_READ (seen (ld_mod_user E (With_Handle hl) (Some name) parent (Some as))) \<and>
    sends hl (\<lambda>ld. ldap_rename E ld (Some (''cn='' @ name @ '','' @ container)) (Some (''cn='' @ new_name)) (Some container) True)
      RENAME_ON_READ (seen (ld_rename_user E (With_Handle hl) (Some name) (Some new_name) parent))"
proof -
  have container: "users_of hl parent \<noteq> ''''" using assms(4) by (cases parent) auto
  have mem: "memory_ok E" using assms(1) by (simp add: can_send_def)
  have default: "users_of hl None \<noteq> ''''" by simp
  have given: "(if missing parent then None else parent) = parent" using assms(4) by (auto simp: missing_def)
  show ?thesis
    using us.operations_send [OF assms(1-3) container assms(5), of "''cn''"]
      us.operations_send(1) [OF assms(1-3) default assms(5), of "''cn''"]
    by (simp add: ld_add_user_def given ld_del_user_context [OF mem refl] ld_mod_user_def ld_rename_user_def assms(6))
      (simp add: missing_def)
qed

lemma demo_can_send [simp]: "can_send demo_ext demo_handle"
  by (simp add: can_send_def)

lemma user_operations_witness:
  "\<exists>hl. ld_rename_user demo_ext (With_Handle demo_handle) (Some ''bob'') (Some ''rob'') None =
     Some (RETURN_CODE_SUCCESS, With_Handle hl)"
proof -
  have "sends demo_handle (\<lambda>ld. ldap_rename demo_ext ld (Some (''cn='' @ ''bob'' @ '','' @ user_container demo_handle))
      (Some (''cn='' @ ''rob'')) (Some (user_container demo_handle)) True)
      RENAME_ON_READ (seen (ld_rename_user demo_ext (With_Handle demo_handle) (Some ''bob'') (Some ''rob'') None))"
    using user_operations [of demo_ext demo_handle "''bob''" "''rob''" None "[]"] by simp
  then show ?thesis
    by (auto simp: sends_def demo_send_def seen_def elim!: handle_of.elims)
qed

lemma unterminated_attributes: "\<not> list_ex missing [name, parent] \<Longrightarrow> memory_ok E \<Longrightarrow> ld_mod_entry_attrs E (Some hl) name parent pfx None op = None"
  using memory_ok_alloc [of E "connection_ctx hl"]
  by (auto simp: ld_mod_entry_attrs_def checked_def in_context_def fill_attributes_def split: prod.splits)

lemma user_context_cong:
  assumes "\<And>w. f (With_Handle (with_world w hl)) = g (With_Handle (with_world w hl))"
  shows "user_context E f (With_Handle hl) = user_context E g (With_Handle hl)"
  using assms by (cases "tallocs E 1 (world (connection_ctx hl))") (simp add: user_context_def caller_allocs_def)

lemma modify_lockout_eq:
  "modify_lockout E (create_lockout_time_attributes_openldap E v) op name parent s =
     (let (attrs, s1) = lockout_attribute E ''pwdAccountLockedTime'' v s in
      if attrs = None then Some (RETURN_CODE_FAILURE, s1)
      else with_user_parent E parent (\<lambda>dn h. ld_mod_entry_attrs E h name dn ''cn''
             (Some (lockout_mods ''pwdAccountLockedTime'' v)) op) s1)"
  "modify_lockout E (create_lockout_time_attributes_ad E fresh_null v) op name parent s =
     (let (attrs, s1) = lockout_attribute E ''userAccountControl'' v s in
      if attrs = None then Some (RETURN_CODE_FAILURE, s1)
      else with_user_parent E parent (\<lambda>dn h. ld_mod_entry_attrs E h name dn ''cn''
             (if fresh_null then Some (lockout_mods ''userAccountControl'' v) else None) op) s1)"
  by (auto simp: modify_lockout_def create_lockout_time_attributes_openldap_def create_lockout_time_attributes_ad_def
      lockout_attribute_def lockout_mods_def split: prod.splits)

lemma lockout_openldap:
  assumes "directory_type (connection_ctx hl) = LDAP_TYPE_OPENLDAP"
  shows "ld_block_user E fresh_null (With_Handle hl) name parent =
      lockout_context ''pwdAccountLockedTime'' (Some ''000001010000Z'') E parent (\<lambda>dn h. ld_mod_entry_attrs E h name dn ''cn''
        (Some (lockout_mods ''pwdAccountLockedTime'' (Some ''000001010000Z''))) LDAP_MOD_REPLACE) (With_Handle hl)"
    and "ld_unblock_user E fresh_null (With_Handle hl) name parent =
      lockout_context ''pwdAccountLockedTime'' None E parent (\<lambda>dn h. ld_mod_entry_attrs E h name dn ''cn''
        (Some (lockout_mods ''pwdAccountLockedTime'' None)) LDAP_MOD_DELETE) (With_Handle hl)"
  unfolding ld_block_user_def ld_unblock_user_def lockout_context_def
  by (rule user_context_cong, simp add: assms modify_lockout_eq)+

lemma lockout_ad:
  assumes "directory_type (connection_ctx hl) = LDAP_TYPE_ACTIVE_DIRECTORY"
  shows "ld_block_user E fresh_null (With_Handle hl) name parent =
      lockout_context ''userAccountControl'' (Some ''514'') E parent (\<lambda>dn h. ld_mod_entry_attrs E h name dn ''cn''
        (if fresh_null then Some (lockout_mods ''userAccountControl'' (Some ''514'')) else None) LDAP_MOD_REPLACE) (With_Handle hl)"
    and "ld_unblock_user E fresh_null (With_Handle hl) name parent =
      lockout_context ''userAccountControl'' (Some ''512'') E parent (\<lambda>dn h. ld_mod_entry_attrs E h name dn ''cn''
        (if fresh_null then Some (lockout_mods ''userAccountControl'' (Some ''512'')) else None) LDAP_MOD_REPLACE) (With_Handle hl)"
  unfolding ld_block_user_def ld_unblock_user_def lockout_context_def
  by (rule user_context_cong, simp add: assms modify_lockout_eq)+

lemma lockout_unterminated:
  assumes "memory_ok E" and "\<not> missing name" and "parent \<noteq> Some ''''"
  shows "lockout_context t v E parent (\<lambda>dn h. ld_mod_entry_attrs E h name dn ''cn'' None op) (With_Handle hl) = None"
proof -
  obtain u where u: "caller_allocs E 1 (With_Handle hl) = (True, With_Handle (with_world u hl))"
    using caller_allocs_ok [OF assms(1), of 1 "With_Handle hl"] by auto
  obtain x where x: "lockout_attribute E t v (With_Handle (with_world u hl)) = (Some (lockout_mods t v), With_Handle (with_world x hl))"
    using lockout_attribute_ok [OF assms(1), of t v "with_world u hl"] by auto
  have "users_of hl parent \<noteq> ''''" using assms(3) by (cases parent) auto
  then have "\<not> list_ex missing [name, Some (users_of hl parent)]" using assms(2) by (simp add: missing_def)
  then have "ld_mod_entry_attrs E (Some h) name (Some (users_of hl parent)) ''cn'' None op = None" for h
    by (rule unterminated_attributes [OF _ assms(1)])
  then show ?thesis
    using with_user_parent_ok [OF assms(1), of parent "\<lambda>dn h. ld_mod_entry_attrs E h name dn ''cn'' None op" "with_world x hl"]
    by (auto simp: lockout_context_def user_context_def u x on_handle_def simp del: One_nat_def)
qed

text \<open>
  C15: Blocking a user replaces, and unblocking deletes, the lockout time on OpenLDAP; on Active Directory both
  replace the account control. The array built for Active Directory has no end: unless fresh memory happens
  to be NULL the operation is undefined. For the other kinds of directory nothing is sent.
\<close>

theorem block_and_unblock:
  assumes "can_send E hl" and "name \<noteq> ''''" and "parent \<noteq> Some ''''" and "dn = ''cn='' @ name @ '','' @ users_of hl parent"
  shows "(directory_type (connection_ctx hl) = LDAP_TYPE_OPENLDAP \<longrightarrow>
      sends hl (\<lambda>ld. ldap_modify_ext E ld (Some dn) (Some [\<lparr>mod_op = LDAP_MOD_REPLACE,
          mod_type = ''pwdAccountLockedTime'', mod_values = [''000001010000Z'']\<rparr>]))
        MODIFY_ON_READ (seen (ld_block_user E fresh_null (With_Handle hl) (Some name) parent)) \<and>
      sends hl (\<lambda>ld. ldap_modify_ext E ld (Some dn) (Some [\<lparr>mod_op = LDAP_MOD_DELETE,
          mod_type = ''pwdAccountLockedTime'', mod_values = []\<rparr>]))
        MODIFY_ON_READ (seen (ld_unblock_user E fresh_null (With_Handle hl) (Some name) parent))) \<and>
    (directory_type (connection_ctx hl) = LDAP_TYPE_ACTIVE_DIRECTORY \<and> fresh_null \<longrightarrow>
      sends hl (\<lambda>ld. ldap_modify_ext E ld (Some dn) (Some [\<lparr>mod_op = LDAP_MOD_REPLACE,
          mod_type = ''userAccountControl'', mod_values = [''514'']\<rparr>]))
        MODIFY_ON_READ (seen (ld_block_user E fresh_null (With_Handle hl) (Some name) parent)) \<and>
      sends hl (\<lambda>ld. ldap_modify_ext E ld (Some dn) (Some [\<lparr>mod_op = LDAP_MOD_REPLACE,
          mod_type = ''userAccountControl'', mod_values = [''512'']\<rparr>]))
        MODIFY_ON_READ (seen (ld_unblock_user E fresh_null (With_Handle hl) (Some name) parent))) \<and>
    (directory_type (connection_ctx hl) = LDAP_TYPE_ACTIVE_DIRECTORY \<and> \<not> fresh_null \<longrightarrow>
      ld_block_user E fresh_null (With_Handle hl) (Some name) parent = None \<and>
      ld_unblock_user E fresh_null (With_Handle hl) (Some name) parent = None) \<and>
    (directory_type (connection_ctx hl) \<notin> {LDAP_TYPE_OPENLDAP, LDAP_TYPE_ACTIVE_DIRECTORY} \<longrightarrow>
      (\<exists>w w'. ld_block_user E fresh_null (With_Handle hl) (Some name) parent =
          Some (RETURN_CODE_FAILURE, With_Handle (with_world w hl)) \<and>
        ld_unblock_user E fresh_null (With_Handle hl) (Some name) parent =
          Some (RETURN_CODE_FAILURE, With_Handle (with_world w' hl))))"
proof (intro conjI)
  have mem: "memory_ok E" and frees: "frees_ok E" using assms(1) by (simp_all add: can_send_def)
  have container: "users_of hl parent \<noteq> ''''" using assms(3) by (cases parent) auto
  have mods: "list_all filled (lockout_mods t v)" for t v by (simp add: lockout_mods_def filled_def)
  have sending: "sends hl (\<lambda>ld. ldap_modify_ext E ld (Some dn) (Some (mods_of op (lockout_mods t v)))) MODIFY_ON_READ
      (seen (lockout_context t v E parent (\<lambda>d h. ld_mod_entry_attrs E h (Some name) d ''cn'' (Some (lockout_mods t v)) op)
        (With_Handle hl)))" for t v op
    using ls.operations_send(5) [where pfx = "''cn''", OF assms(1,2,2) container mods] by (simp add: assms(4))
  show "directory_type (connection_ctx hl) = LDAP_TYPE_OPENLDAP \<longrightarrow>
      sends hl (\<lambda>ld. ldap_modify_ext E ld (Some dn) (Some [\<lparr>mod_op = LDAP_MOD_REPLACE,
          mod_type = ''pwdAccountLockedTime'', mod_values = [''000001010000Z'']\<rparr>]))
        MODIFY_ON_READ (seen (ld_block_user E fresh_null (With_Handle hl) (Some name) parent)) \<and>
      sends hl (\<lambda>ld. ldap_modify_ext E ld (Some dn) (Some [\<lparr>mod_op = LDAP_MOD_DELETE,
          mod_type = ''pwdAccountLockedTime'', mod_values = []\<rparr>]))
        MODIFY_ON_READ (seen (ld_unblock_user E fresh_null (With_Handle hl) (Some name) parent))"
    using sending [of LDAP_MOD_REPLACE "''pwdAccountLockedTime''" "Some ''000001010000Z''"]
      sending [of LDAP_MOD_DELETE "''pwdAccountLockedTime''" None]
    by (simp add: lockout_openldap assms(4) mods_of_def lockout_mods_def)
  show "directory_type (connection_ctx hl) = LDAP_TYPE_ACTIVE_DIRECTORY \<and> fresh_null \<longrightarrow>
      sends hl (\<lambda>ld. ldap_modify_ext E ld (Some dn) (Some [\<lparr>mod_op = LDAP_MOD_REPLACE,
          mod_type = ''userAccountControl'', mod_values = [''514'']\<rparr>]))
        MODIFY_ON_READ (seen (ld_block_user E fresh_null (With_Handle hl) (Some name) parent)) \<and>
      sends hl (\<lambda>ld. ldap_modify_ext E ld (Some dn) (Some [\<lparr>mod_op = LDAP_MOD_REPLACE,
          mod_type = ''userAccountControl'', mod_values = [''512'']\<rparr>]))
        MODIFY_ON_READ (seen (ld_unblock_user E fresh_null (With_Handle hl) (Some name) parent))"
    using sending [of LDAP_MOD_REPLACE "''userAccountControl''" "Some ''514''"]
      sending [of LDAP_MOD_REPLACE "''userAccountControl''" "Some ''512''"]
    by (simp add: lockout_ad assms(4) mods_of_def lockout_mods_def)
  show "directory_type (connection_ctx hl) = LDAP_TYPE_ACTIVE_DIRECTORY \<and> \<not> fresh_null \<longrightarrow>
      ld_block_user E fresh_null (With_Handle hl) (Some name) parent = None \<and>
      ld_unblock_user E fresh_null (With_Handle hl) (Some name) parent = None"
    using lockout_unterminated [OF mem _ assms(3), of "Some name"] assms(2) by (simp add: lockout_ad missing_def)
  show "directory_type (connection_ctx hl) \<notin> {LDAP_TYPE_OPENLDAP, LDAP_TYPE_ACTIVE_DIRECTORY} \<longrightarrow>
      (\<exists>w w'. ld_block_user E fresh_null (With_Handle hl) (Some name) parent =
          Some (RETURN_CODE_FAILURE, With_Handle (with_world w hl)) \<and>
        ld_unblock_user E fresh_null (With_Handle hl) (Some name) parent =
          Some (RETURN_CODE_FAILURE, With_Handle (with_world w' hl)))"
  proof
    assume other: "directory_type (connection_ctx hl) \<notin> {LDAP_TYPE_OPENLDAP, LDAP_TYPE_ACTIVE_DIRECTORY}"
    obtain u where u: "caller_allocs E 1 (With_Handle hl) = (True, With_Handle (with_world u hl))"
      using caller_allocs_ok [OF mem, of 1 "With_Handle hl"] by auto
    obtain w where "caller_free E (With_Handle (with_world u hl)) = (True, With_Handle (with_world w hl))"
      using caller_free_ok [OF frees, of "With_Handle (with_world u hl)"] by auto
    then show "\<exists>w w'. ld_block_user E fresh_null (With_Handle hl) (Some name) parent =
          Some (RETURN_CODE_FAILURE, With_Handle (with_world w hl)) \<and>
        ld_unblock_user E fresh_null (With_Handle hl) (Some name) parent =
          Some (RETURN_CODE_FAILURE, With_Handle (with_world w' hl))"
      using other u
      by (cases "directory_type (connection_ctx hl)")
        (auto simp: ld_block_user_def ld_unblock_user_def user_context_def simp del: One_nat_def)
  qed
qed

definition demo_typed :: "LdapDirectoryType \<Rightarrow> (demo_world, demo_table) ldhandle" where
  "demo_typed ty = demo_handle\<lparr>connection_ctx := demo_conn\<lparr>directory_type := ty\<rparr>\<rparr>"

lemma demo_typed_can_send [simp]: "can_send demo_ext (demo_typed ty)"
  using demo_can_send by (simp add: can_send_def demo_typed_def conn_inv_def waiting_def split: option.splits)

lemma block_and_unblock_witness:
  "ld_block_user demo_ext False (With_Handle (demo_typed LDAP_TYPE_ACTIVE_DIRECTORY)) (Some ''bob'') None = None"
  using block_and_unblock [of demo_ext "demo_typed LDAP_TYPE_ACTIVE_DIRECTORY" "''bob''" None _ False]
  by (simp add: demo_typed_def [of LDAP_TYPE_ACTIVE_DIRECTORY, THEN arg_cong [where f = connection_ctx]])

lemma group_member_modify_sends:
  fixes E :: "('w, 'h) ext"
  assumes "can_send E hl" and "grp \<noteq> ''''" and "user \<noteq> ''''"
    and "(ty, member) \<in> {(LDAP_TYPE_OPENLDAP, ''memberuid''), (LDAP_TYPE_ACTIVE_DIRECTORY, ''member'')}"
    and "directory_type (connection_ctx hl) = ty"
  shows "sends hl (\<lambda>ld. ldap_modify_ext E ld (Some grp) (Some [\<lparr>mod_op = op, mod_type = member, mod_values = [user]\<rparr>]))
    MODIFY_ON_READ (group_member_modify E (Some hl) (Some grp) (Some user) op)"
proof -
  let ?send = "\<lambda>ld. ldap_modify_ext E ld (Some grp) (Some [\<lparr>mod_op = op, mod_type = member, mod_values = [user]\<rparr>])"
  let ?body = "\<lambda>c :: ('w, 'h) conn. let (ok, c1) = allocs E 5 c in
    if \<not> ok then Some (None, c1)
    else returned (modify E c1 (Some grp) (Some [\<lparr>mod_op = op, mod_type = member, mod_values = [or_empty (Some user)]\<rparr>]))"
  obtain ld where ready: "memory_ok E" "frees_ok E" "conn_inv (connection_ctx hl)" "ldap (connection_ctx hl) = Valid ld"
      "n_read_requests (connection_ctx hl) < MAX_REQUESTS"
    using assms(1) by (rule can_send_entry_operations)
  have "sends hl ?send MODIFY_ON_READ (checked [Some grp, Some user] (in_context E ?body) (Some hl))"
  proof (rule context_sends [OF ready])
    show "\<not> list_ex missing [Some grp, Some user]" using assms(2,3) by (simp add: missing_def)
    fix w
    obtain v where "allocs E 5 ((connection_ctx hl)\<lparr>world := w\<rparr>) = (True, (connection_ctx hl)\<lparr>world := v\<rparr>)"
      using memory_ok_allocs [OF ready(1), of 5 "(connection_ctx hl)\<lparr>world := w\<rparr>"] by auto
    then show "\<exists>v. ?body ((connection_ctx hl)\<lparr>world := w\<rparr>) =
        returned (submit ?send MODIFY_ON_READ ((connection_ctx hl)\<lparr>world := v\<rparr>))"
      by (intro exI [of _ v]) (simp add: modify_def or_empty_def del: allocs.simps)
  qed
  then show ?thesis
    using assms(4,5) by (auto simp: group_member_modify_def Let_def)
qed

text \<open>
  C16: Adding or removing a member sends one modification of the group, whose DN is taken as given, that adds or
  deletes the value \<open>user\<close> of \<open>memberuid\<close> on OpenLDAP and of \<open>member\<close> on Active Directory. For other kinds
  of directory, and with an empty name, nothing is sent; without a handle both are undefined.
\<close>

theorem group_membership:
  assumes "can_send E hl" and "grp \<noteq> ''''" and "user \<noteq> ''''"
  shows "(\<forall>(ty, member) \<in> {(LDAP_TYPE_OPENLDAP, ''memberuid''), (LDAP_TYPE_ACTIVE_DIRECTORY, ''member'')}.
      directory_type (connection_ctx hl) = ty \<longrightarrow>
      sends hl (\<lambda>ld. ldap_modify_ext E ld (Some grp)
          (Some [\<lparr>mod_op = LDAP_MOD_ADD, mod_type = member, mod_values = [user]\<rparr>]))
        MODIFY_ON_READ (ld_group_add_user E (Some hl) (Some grp) (Some user)) \<and>
      sends hl (\<lambda>ld. ldap_modify_ext E ld (Some grp)
          (Some [\<lparr>mod_op = LDAP_MOD_DELETE, mod_type = member, mod_values = [user]\<rparr>]))
        MODIFY_ON_READ (ld_group_remove_user E (Some hl) (Some grp) (Some user))) \<and>
    (directory_type (connection_ctx hl) \<notin> {LDAP_TYPE_OPENLDAP, LDAP_TYPE_ACTIVE_DIRECTORY} \<or> missing g \<or> missing u \<longrightarrow>
      ld_group_add_user E (Some hl) g u = Some (RETURN_CODE_FAILURE, Some hl) \<and>
      ld_group_remove_user E (Some hl) g u = Some (RETURN_CODE_FAILURE, Some hl)) \<and>
    ld_group_add_user E None g u = None \<and> ld_group_remove_user E None g u = None"
proof (intro conjI ballI)
  show "case x of (ty, member) \<Rightarrow> directory_type (connection_ctx hl) = ty \<longrightarrow>
      sends hl (\<lambda>ld. ldap_modify_ext E ld (Some grp)
          (Some [\<lparr>mod_op = LDAP_MOD_ADD, mod_type = member, mod_values = [user]\<rparr>]))
        MODIFY_ON_READ (ld_group_add_user E (Some hl) (Some grp) (Some user)) \<and>
      sends hl (\<lambda>ld. ldap_modify_ext E ld (Some grp)
          (Some [\<lparr>mod_op = LDAP_MOD_DELETE, mod_type = member, mod_values = [user]\<rparr>]))
        MODIFY_ON_READ (ld_group_remove_user E (Some hl) (Some grp) (Some user))"
    if "x \<in> {(LDAP_TYPE_OPENLDAP, ''memberuid''), (LDAP_TYPE_ACTIVE_DIRECTORY, ''member'')}" for x
    unfolding ld_group_add_user_def ld_group_remove_user_def
    using group_member_modify_sends [OF assms, of "fst x" "snd x"] that by (cases x) simp
  show "directory_type (connection_ctx hl) \<notin> {LDAP_TYPE_OPENLDAP, LDAP_TYPE_ACTIVE_DIRECTORY} \<or> missing g \<or> missing u \<longrightarrow>
      ld_group_add_user E (Some hl) g u = Some (RETURN_CODE_FAILURE, Some hl) \<and>
      ld_group_remove_user E (Some hl) g u = Some (RETURN_CODE_FAILURE, Some hl)"
    by (cases "directory_type (connection_ctx hl)")
      (auto simp: ld_group_add_user_def ld_group_remove_user_def group_member_modify_def checked_def)
qed (simp_all add: ld_group_add_user_def ld_group_remove_user_def group_member_modify_def)

lemma group_membership_witness:
  "\<exists>hl. ld_group_add_user demo_ext (Some (demo_typed LDAP_TYPE_OPENLDAP)) (Some ''cn=staff,dc=a'') (Some ''bob'') =
     Some (RETURN_CODE_SUCCESS, Some hl)"
proof -
  have "directory_type (connection_ctx (demo_typed LDAP_TYPE_OPENLDAP)) = LDAP_TYPE_OPENLDAP"
    by (simp add: demo_typed_def)
  then have "sends (demo_typed LDAP_TYPE_OPENLDAP) (\<lambda>ld. ldap_modify_ext demo_ext ld (Some ''cn=staff,dc=a'')
      (Some [\<lparr>mod_op = LDAP_MOD_ADD, mod_type = ''memberuid'', mod_values = [''bob'']\<rparr>])) MODIFY_ON_READ
      (ld_group_add_user demo_ext (Some (demo_typed LDAP_TYPE_OPENLDAP)) (Some ''cn=staff,dc=a'') (Some ''bob''))"
    using group_membership [of demo_ext "demo_typed LDAP_TYPE_OPENLDAP" "''cn=staff,dc=a''" "''bob''"] by simp
  then show ?thesis by (auto simp: sends_def demo_send_def)
qed

text \<open>
  C17: Without a container, groups and organizational units are looked up right below the base DN, with the
  prefixes \<open>cn\<close> and \<open>ou\<close>. A computer is added there too, but deleted, modified and renamed in
  \<open>ou=equipment\<close> below it: a computer added without a container is not found by the other operations.
\<close>

theorem default_containers:
  assumes "can_send E hl" and "name \<noteq> ''''" and "new_name \<noteq> ''''" and "base_dn (global_config hl) = dn" and "dn \<noteq> ''''"
    and "list_all filled as"
  shows "(\<forall>(pfx, add_one, remove, change, rename) \<in> {(''cn='', ld_add_group E, ld_del_group E, ld_mod_group E, ld_rename_group E),
        (''ou='', ld_add_ou E, ld_del_ou E, ld_mod_ou E, ld_rename_ou E)}.
      sends hl (\<lambda>ld. ldap_add_ext E ld (Some (pfx @ name @ '','' @ dn)) (Some (mods_of LDAP_MOD_ADD as)))
        ADD_ON_READ (add_one (Some hl) (Some name) (Some as) None) \<and>
      sends hl (\<lambda>ld. ldap_delete_ext E ld (Some (pfx @ name @ '','' @ dn)))
        DELETE_ON_READ (remove (Some hl) (Some name) None) \<and>
      sends hl (\<lambda>ld. ldap_modify_ext E ld (Some (pfx @ name @ '','' @ dn)) (Some (mods_of LDAP_MOD_REPLACE as)))
        MODIFY_ON_READ (change (Some hl) (Some name) None (Some as)) \<and>
      sends hl (\<lambda>ld. ldap_rename E ld (Some (pfx @ name @ '','' @ dn)) (Some (pfx @ new_name)) (Some dn) True)
        RENAME_ON_READ (rename (Some hl) (Some name) (Some new_name) None)) \<and>
    sends hl (\<lambda>ld. ldap_add_ext E ld (Some (''cn='' @ name @ '','' @ dn)) (Some (mods_of LDAP_MOD_ADD as)))
      ADD_ON_READ (ld_add_computer E (Some hl) (Some name) (Some as) None) \<and>
    sends hl (\<lambda>ld. ldap_delete_ext E ld (Some (''cn='' @ name @ '',ou=equipment,'' @ dn)))
      DELETE_ON_READ (seen (ld_del_computer E (With_Handle hl) (Some name) None)) \<and>
    sends hl (\<lambda>ld. ldap_modify_ext E ld (Some (''cn='' @ name @ '',ou=equipment,'' @ dn)) (Some (mods_of LDAP_MOD_REPLACE as)))
      MODIFY_ON_READ (seen (ld_mod_computer E (With_Handle hl) (Some name) None (Some as))) \<and>
    sends hl (\<lambda>ld. ldap_rename E ld (Some (''cn='' @ name @ '',ou=equipment,'' @ dn)) (Some (''cn='' @ new_name))
        (Some (''ou=equipment,'' @ dn)) True)
      RENAME_ON_READ (seen (ld_rename_computer E (With_Handle hl) (Some name) (Some new_name) None))"
proof -
  obtain ld where ready: "memory_ok E" "frees_ok E" "conn_inv (connection_ctx hl)" "ldap (connection_ctx hl) = Valid ld"
      "n_read_requests (connection_ctx hl) < MAX_REQUESTS"
    using assms(1) by (rule can_send_entry_operations)
  note at_base = entry_operations_send [OF ready assms(2,3,5,6)]
  have "computers_of hl None \<noteq> ''''" by (simp add: computers_of_def)
  note equipment = cs.operations_send [where pfx = "''cn''", OF assms(1-3) this assms(6)]
  show ?thesis
    using at_base(1-4) [of "''cn''"] at_base(1-4) [of "''ou''"] equipment(2-4)
    by (simp add: ld_add_group_def ld_del_group_def ld_mod_group_def ld_rename_group_def ld_add_ou_def ld_del_ou_def
        ld_mod_ou_def ld_rename_ou_def ld_add_computer_def ld_del_computer_def ld_mod_computer_def ld_rename_computer_def
        parent_or_base_def missing_def computers_of_def assms(4))
qed

lemma default_containers_witness:
  "\<exists>hl. ld_del_computer demo_ext (With_Handle demo_handle) (Some ''pc'') None = Some (RETURN_CODE_SUCCESS, With_Handle hl)"
proof -
  have "sends demo_handle (\<lambda>ld. ldap_delete_ext demo_ext ld (Some (''cn='' @ ''pc'' @ '',ou=equipment,'' @ ''dc=a'')))
      DELETE_ON_READ (seen (ld_del_computer demo_ext (With_Handle demo_handle) (Some ''pc'') None))"
    using default_containers [of demo_ext demo_handle "''pc''" "''pc''" "''dc=a''" "[]"] by (simp add: demo_ld_config_def)
  then show ?thesis
    by (auto simp: sends_def demo_send_def seen_def elim!: handle_of.elims)
qed

text \<open>
  Attributes are added to and deleted from the entry whose RDN is given, prefix included, below the base DN.
\<close>

theorem attribute_operations:
  assumes "can_send E hl" and "rdn \<noteq> ''''" and "base_dn (global_config hl) \<noteq> ''''" and "list_all filled as"
    and "dn = rdn @ '','' @ base_dn (global_config hl)"
  shows "sends hl (\<lambda>ld. ldap_modify_ext E ld (Some dn) (Some (mods_of LDAP_MOD_ADD as)))
      MODIFY_ON_READ (ld_add_attributes E (Some hl) (Some rdn) (Some as)) \<and>
    sends hl (\<lambda>ld. ldap_modify_ext E ld (Some dn) (Some (mods_of LDAP_MOD_DELETE as)))
      MODIFY_ON_READ (ld_del_attributes E (Some hl) (Some rdn) (Some as))"
proof -
  obtain ld where ready: "memory_ok E" "frees_ok E" "conn_inv (connection_ctx hl)" "ldap (connection_ctx hl) = Valid ld"
      "n_read_requests (connection_ctx hl) < MAX_REQUESTS"
    using assms(1) by (rule can_send_entry_operations)
  show ?thesis
    using entry_operations_send(5) [where pfx = "''''", OF ready assms(2,2,3,4)]
    by (simp add: ld_add_attributes_def ld_del_attributes_def create_attribute_parent_def assms(5))
qed

lemma attribute_operations_witness:
  "\<exists>hl. ld_add_attributes demo_ext (Some demo_handle) (Some ''cn=bob'') (Some []) = Some (RETURN_CODE_SUCCESS, Some hl)"
proof -
  have "sends demo_handle (\<lambda>ld. ldap_modify_ext demo_ext ld (Some (''cn=bob'' @ '','' @ ''dc=a'')) (Some (mods_of LDAP_MOD_ADD [])))
      MODIFY_ON_READ (ld_add_attributes demo_ext (Some demo_handle) (Some ''cn=bob'') (Some []))"
    using attribute_operations [of demo_ext demo_handle "''cn=bob''" "[]"] by (simp add: demo_ld_config_def)
  then show ?thesis by (auto simp: sends_def demo_send_def)
qed

text \<open>
  Without a handle, the operations of groups, organizational units, computers and attributes fail, as do
  those of users when a container is given; without one the latter, and blocking and unblocking in any case,
  are undefined once their context is allocated.
\<close>

theorem operations_without_handle:
  assumes "memory_ok E"
  shows "list_all (\<lambda>r. r = Some (RETURN_CODE_FAILURE, None))
      [ld_add_group E None name attrs parent, ld_del_group E None name parent, ld_mod_group E None name parent attrs,
       ld_rename_group E None name new_name parent, ld_add_ou E None name attrs parent, ld_del_ou E None name parent,
       ld_mod_ou E None name parent attrs, ld_rename_ou E None name new_name parent,
       ld_add_computer E None name attrs parent, ld_add_attributes E None name attrs, ld_del_attributes E None name attrs,
       seen (ld_del_computer E (Without_Handle w) name parent), seen (ld_mod_computer E (Without_Handle w) name parent attrs),
       seen (ld_rename_computer E (Without_Handle w) name new_name parent)] \<and>
    list_all (\<lambda>r. r = Some (RETURN_CODE_FAILURE, None))
      [seen (ld_add_user E (Without_Handle w) name attrs (Some (a # p))), seen (ld_del_user E (Without_Handle w) name (Some p)),
       seen (ld_mod_user E (Without_Handle w) name (Some p) attrs),
       seen (ld_rename_user E (Without_Handle w) name new_name (Some p))] \<and>
    list_all (\<lambda>r. r = None)
      [ld_add_user E (Without_Handle w) name attrs None, ld_add_user E (Without_Handle w) name attrs (Some ''''),
       ld_del_user E (Without_Handle w) name None, ld_mod_user E (Without_Handle w) name None attrs,
       ld_rename_user E (Without_Handle w) name new_name None, ld_block_user E fresh_null (Without_Handle w) name parent,
       ld_unblock_user E fresh_null (Without_Handle w) name parent]"
proof (intro conjI)
  obtain u where u: "caller_allocs E 1 (Without_Handle w) = (True, Without_Handle u)"
    using caller_allocs_ok [OF assms, of 1 "Without_Handle w"] by auto
  obtain v where v: "caller_allocs E 1 (Without_Handle u) = (True, Without_Handle v)"
    using caller_allocs_ok [OF assms, of 1 "Without_Handle u"] by auto
  have free: "\<exists>ok x. caller_free E (Without_Handle y) = (ok, Without_Handle x)" for y
    by (cases "talloc_free E y") (simp add: caller_free_def)
  note entry = ld_add_entry_def ld_del_entry_def ld_mod_entry_def ld_rename_entry_def ld_mod_entry_attrs_def checked_def
  have computer: "seen (with_computer_parent E parent operation (Without_Handle w)) = Some (RETURN_CODE_FAILURE, None)"
    if "\<And>dn. operation dn None = Some (RETURN_CODE_FAILURE, None)" for operation
    using free [of u] free [of v]
    by (cases parent) (auto simp: with_computer_parent_def create_computer_parent_def u v on_handle_def that simp del: One_nat_def)
  show "list_all (\<lambda>r. r = Some (RETURN_CODE_FAILURE, None))
      [ld_add_group E None name attrs parent, ld_del_group E None name parent, ld_mod_group E None name parent attrs,
       ld_rename_group E None name new_name parent, ld_add_ou E None name attrs parent, ld_del_ou E None name parent,
       ld_mod_ou E None name parent attrs, ld_rename_ou E None name new_name parent,
       ld_add_computer E None name attrs parent, ld_add_attributes E None name attrs, ld_del_attributes E None name attrs,
       seen (ld_del_computer E (Without_Handle w) name parent), seen (ld_mod_computer E (Without_Handle w) name parent attrs),
       seen (ld_rename_computer E (Without_Handle w) name new_name parent)]"
    by (simp add: ld_add_group_def ld_del_group_def ld_mod_group_def ld_rename_group_def ld_add_ou_def ld_del_ou_def
        ld_mod_ou_def ld_rename_ou_def ld_add_computer_def ld_del_computer_def ld_mod_computer_def ld_rename_computer_def
        ld_add_attributes_def ld_del_attributes_def computer entry)
  have user: "seen (user_context E (with_user_parent E (Some q) operation) (Without_Handle w)) = Some (RETURN_CODE_FAILURE, None)"
    if "operation (Some q) None = Some (RETURN_CODE_FAILURE, None)" for operation q
    using free [of u]
    by (auto simp: user_context_def with_user_parent_def user_parent_def u on_handle_def that simp del: One_nat_def)
  show "list_all (\<lambda>r. r = Some (RETURN_CODE_FAILURE, None))
      [seen (ld_add_user E (Without_Handle w) name attrs (Some (a # p))), seen (ld_del_user E (Without_Handle w) name (Some p)),
       seen (ld_mod_user E (Without_Handle w) name (Some p) attrs),
       seen (ld_rename_user E (Without_Handle w) name new_name (Some p))]"
    using free [of u]
    by (auto simp: ld_add_user_def ld_mod_user_def ld_rename_user_def ld_del_user_def user_parent_def on_handle_def u
        missing_def user entry simp del: One_nat_def)
  show "list_all (\<lambda>r. r = None)
      [ld_add_user E (Without_Handle w) name attrs None, ld_add_user E (Without_Handle w) name attrs (Some ''''),
       ld_del_user E (Without_Handle w) name None, ld_mod_user E (Without_Handle w) name None attrs,
       ld_rename_user E (Without_Handle w) name new_name None, ld_block_user E fresh_null (Without_Handle w) name parent,
       ld_unblock_user E fresh_null (Without_Handle w) name parent]"
    by (simp add: ld_add_user_def ld_mod_user_def ld_rename_user_def ld_del_user_def ld_block_user_def ld_unblock_user_def
        user_context_def with_user_parent_def user_parent_def create_user_parent_def u missing_def del: One_nat_def)
qed

lemma operations_without_handle_witness:
  "ld_block_user demo_ext True (Without_Handle (world demo_conn)) (Some ''bob'') (Some ''dc=a'') = None"
  using operations_without_handle [of demo_ext] by simp

end
