(* ===== verification/Session.thy ===== *)
theory Session
  imports Directory_Objects
begin

text \<open>
  How the components of a session work together: the round of the event loop that delivers the answers to the
  bind and to the search for the kind of directory, and what the machine does with each kind.
\<close>

section \<open>The answers of a starting session\<close>

text \<open>What an answer makes of a kind of directory that is not known yet.\<close>

definition answered :: "ldap_message list \<Rightarrow> LdapDirectoryType" where
  "answered message = (case detected message of None \<Rightarrow> LDAP_TYPE_UNKNOWN | Some t \<Rightarrow> t)"

lemma answered_typed: "answered message \<noteq> LDAP_TYPE_UNINITIALIZED"
  using detected_typed [of message] by (auto simp: answered_def split: option.splits)

text \<open>\<open>no_errors E ld\<close>: libldap has no error to report on the session.\<close>

definition no_errors :: "('w, 'h) ext \<Rightarrow> nat \<Rightarrow> bool" where
  "no_errors E ld \<longleftrightarrow> diagnostics_ok E \<and> (\<forall>w. snd (fst (ldap_get_int_option E ld LDAP_OPT_RESULT_CODE w)) = LDAP_SUCCESS)"

lemma no_errors_fetch:
  assumes "no_errors E ld" and "ldap c = Valid ld"
  shows "\<exists>w. fetch_diagnostics E c = Some (Some LDAP_SUCCESS, c\<lparr>world := w\<rparr>)"
proof -
  obtain w1 where 1: "ldap_get_int_option E ld LDAP_OPT_RESULT_CODE (world c) = ((LDAP_OPT_SUCCESS, LDAP_SUCCESS), w1)"
    using assms(1) unfolding no_errors_def diagnostics_ok_def by (metis prod.exhaust_sel)
  obtain x w2 where 2: "ldap_get_string_option E ld LDAP_OPT_DIAGNOSTIC_MESSAGE w1 = ((LDAP_OPT_SUCCESS, x), w2)"
    using assms(1) unfolding no_errors_def diagnostics_ok_def by (metis prod.exhaust_sel)
  show ?thesis
    by (intro exI [of _ w2]) (simp add: fetch_diagnostics_def with_ldap_def assms(2) 1 2)
qed

lemma poll_bind_answer:
  assumes "request_key (read_requests c i) = (m, Some BIND_ON_READ)" and "bind_type c = BIND_TYPE_SIMPLE"
    and "ldap c = Valid ld" and "no_errors E ld" and "\<forall>w. fst (fst (ldap_result E ld m w)) = LDAP_RES_BIND"
  shows "\<exists>w. poll_one (call_read_operation E) E i c pend = Some (True, c\<lparr>world := w, conn_msgid := m\<rparr>, pend)"
proof -
  obtain msg w where p: "ldap_result E ld m (world c) = ((LDAP_RES_BIND, msg), w)"
    using assms(5) by (metis prod.exhaust_sel)
  let ?c = "c\<lparr>world := w, conn_msgid := m\<rparr>"
  have ld: "ldap ?c = Valid ld" using assms(3) by simp
  obtain v where "fetch_diagnostics E ?c = Some (Some LDAP_SUCCESS, ?c\<lparr>world := v\<rparr>)"
    using no_errors_fetch [OF assms(4) ld] by blast
  then have "connection_bind_on_read E LDAP_RES_BIND msg ?c = Some (RETURN_CODE_FAILURE, c\<lparr>world := v, conn_msgid := m\<rparr>)"
    using assms(2) by (simp add: connection_bind_on_read_def)
  then show ?thesis
    using assms(1,3) p by (auto simp: poll_one_def with_ldap_def request_key_def Let_def)
qed

lemma poll_type_answer:
  assumes "request_key (read_requests c i) = (m, Some DIRECTORY_PARSE_RESULT)" and "directory_type c = LDAP_TYPE_UNINITIALIZED"
    and "ldap c = Valid ld" and "\<forall>w. fst (ldap_result E ld m w) = (LDAP_RES_SEARCH_ENTRY, message)"
  shows "\<exists>w. poll_one (call_read_operation E) E i c pend =
    Some (True, c\<lparr>world := w, conn_msgid := m, directory_type := answered message\<rparr>, pend)"
proof -
  obtain w where p: "ldap_result E ld m (world c) = ((LDAP_RES_SEARCH_ENTRY, message), w)"
    using assms(4) by (metis prod.exhaust_sel)
  have "directory_parse_result E LDAP_RES_SEARCH_ENTRY message (c\<lparr>world := w, conn_msgid := m\<rparr>) =
      Some (RETURN_CODE_SUCCESS, c\<lparr>world := w, conn_msgid := m, directory_type := answered message\<rparr>)"
    using assms(2) detected_typed [of message]
    by (auto simp: directory_parse_result_def process_messages_eq answered_def split: option.splits)
  then show ?thesis
    using assms(1,3) p by (auto simp: poll_one_def with_ldap_def request_key_def Let_def)
qed

lemma conn_inv_polled:
  "conn_inv (c\<lparr>world := w, conn_msgid := m\<rparr>) = conn_inv c" "waiting (c\<lparr>world := w, conn_msgid := m\<rparr>) = waiting c"
  "conn_inv (c\<lparr>world := w, conn_msgid := m, directory_type := t\<rparr>) = conn_inv c"
  "waiting (c\<lparr>world := w, conn_msgid := m, directory_type := t\<rparr>) = waiting c"
  by (simp_all add: conn_inv_def waiting_def split: option.splits)

text \<open>
  The round of the event loop that delivers both answers: nothing is outstanding afterwards, the kind of
  directory is what the answer says, and the machine stays where it is.
\<close>

definition same_session :: "('w, 'h) conn \<Rightarrow> ('w, 'h) conn \<Rightarrow> bool" where
  "same_session c c' \<longleftrightarrow> ldap c' = ldap c \<and> state_machine c' = state_machine c \<and> machines c' = machines c \<and>
     has_handle c' = has_handle c \<and> schema c' = schema c \<and> read_requests c' = read_requests c \<and>
     n_read_requests c' = n_read_requests c"

lemma same_session_step [simp]:
  "same_session c c"
  "same_session c (d\<lparr>world := w\<rparr>) = same_session c d" "same_session c (d\<lparr>queues := q\<rparr>) = same_session c d"
  "same_session c (d\<lparr>conn_msgid := m\<rparr>) = same_session c d" "same_session c (d\<lparr>directory_type := t\<rparr>) = same_session c d"
  "same_session c (d\<lparr>schemas := ss\<rparr>) = same_session c d" "same_session c (d\<lparr>n_search_requests := n\<rparr>) = same_session c d"
  "same_session c (d\<lparr>search_requests := rs\<rparr>) = same_session c d"
  "same_session c (d\<lparr>schema_entry_path := path\<rparr>) = same_session c d"
  by (simp_all add: same_session_def)

lemma answered_round:
  fixes c :: "('w, 'h) conn"
  assumes "conn_inv c" and "ldap c = Valid ld" and "bind_type c = BIND_TYPE_SIMPLE"
    and "directory_type c = LDAP_TYPE_UNINITIALIZED"
    and "outstanding c = [(i, Some BIND_ON_READ), (j, Some DIRECTORY_PARSE_RESULT)]" and "no_errors E ld"
    and "\<forall>w. fst (fst (ldap_result E ld i w)) = LDAP_RES_BIND"
    and "\<forall>w. fst (ldap_result E ld j w) = (LDAP_RES_SEARCH_ENTRY, message)"
  shows "\<exists>c'. connection_on_read (call_read_operation E) E c = Some c' \<and> conn_inv c' \<and> ldap c' = Valid ld \<and>
    outstanding c' = [] \<and> n_read_requests c' = 0 \<and> directory_type c' = answered message \<and>
    state_machine c' = state_machine c \<and> machines c' = machines c \<and> schema c' = schema c \<and>
    schemas c' = schemas c \<and> has_handle c' = has_handle c \<and>
    n_search_requests c' = n_search_requests c"
proof -
  obtain a b where w: "waiting c = [a, b]"
    using assms(5) by (auto simp: outstanding_def)
  have key: "request_key (read_requests c a) = (i, Some BIND_ON_READ)" "request_key (read_requests c b) = (j, Some DIRECTORY_PARSE_RESULT)"
    using assms(5) w by (auto simp: outstanding_def request_key_def)
  let ?I = "\<lambda>as (d :: ('w, 'h) conn). same_session c d \<and> schemas d = schemas c \<and> n_search_requests d = n_search_requests c \<and>
    bind_type d = BIND_TYPE_SIMPLE \<and>
    ((as = [a, b] \<or> as = [b]) \<and> directory_type d = LDAP_TYPE_UNINITIALIZED \<or> as = [] \<and> directory_type d = answered message)"
  have "\<exists>d'. poll_one (call_read_operation E) E x (d\<lparr>queues := q\<rparr>) [] = Some (True, d', []) \<and> conn_inv d' \<and> waiting d' = xs \<and> ?I xs d'"
    if I: "?I (x # xs) d" and q: "conn_inv (d\<lparr>queues := q\<rparr>)" "waiting (d\<lparr>queues := q\<rparr>) = xs" for d x xs q
  proof -
    have d: "ldap d = Valid ld" "read_requests d = read_requests c" "directory_type d = LDAP_TYPE_UNINITIALIZED"
      using I assms(2) by (auto simp: same_session_def)
    consider "x = a" "xs = [b]" | "x = b" "xs = []" using I by auto
    then show ?thesis
    proof cases
      case 1
      obtain v where "poll_one (call_read_operation E) E a (d\<lparr>queues := q\<rparr>) [] =
          Some (True, d\<lparr>queues := q\<rparr>\<lparr>world := v, conn_msgid := i\<rparr>, [])"
        using poll_bind_answer [where c = "d\<lparr>queues := q\<rparr>" and i = a and m = i and ld = ld and E = E and pend = "[]"]
          key d I assms(6,7) by auto
      then show ?thesis
        using 1 I q d by (intro exI [of _ "d\<lparr>queues := q\<rparr>\<lparr>world := v, conn_msgid := i\<rparr>"]) (simp add: conn_inv_polled)
    next
      case 2
      obtain v where "poll_one (call_read_operation E) E b (d\<lparr>queues := q\<rparr>) [] =
          Some (True, d\<lparr>queues := q\<rparr>\<lparr>world := v, conn_msgid := j, directory_type := answered message\<rparr>, [])"
        using poll_type_answer [where c = "d\<lparr>queues := q\<rparr>" and i = b and m = j and ld = ld and E = E and message = message
            and pend = "[]"] key d assms(8) by auto
      then show ?thesis
        using 2 I q
        by (intro exI [of _ "d\<lparr>queues := q\<rparr>\<lparr>world := v, conn_msgid := j, directory_type := answered message\<rparr>"])
          (simp add: conn_inv_polled)
    qed
  qed
  moreover have "?I (waiting c) c" using w assms(3,4) by simp
  ultimately obtain c' where "connection_on_read (call_read_operation E) E c = Some (c'\<lparr>n_read_requests := 0\<rparr>)"
      "conn_inv (c'\<lparr>n_read_requests := 0\<rparr>)" "outstanding (c'\<lparr>n_read_requests := 0\<rparr>) = []" "?I [] c'"
    using on_read_answers [where I = ?I and D = "call_read_operation E" and E = E and c = c] assms(1) by blast
  then show ?thesis
    using assms(2) by (intro exI [of _ "c'\<lparr>n_read_requests := 0\<rparr>"]) (simp add: same_session_def)
qed

section \<open>From the kind of directory to the state RUN\<close>

lemma registers_machine [simp]:
  "registers (set_machine m st c) p fs c' = registers c p fs c'"
  "registers c p fs (set_machine m st c') = registers c p fs c'"
  "registers c p fs (c'\<lparr>world := w\<rparr>) = registers c p fs c'"
  by (simp_all add: registers_def)

lemma detected_tick:
  assumes "in_state m LDAP_CONNECTION_STATE_DETECT_DIRECTORY c" and "directory_type c \<noteq> LDAP_TYPE_UNINITIALIZED"
  shows "connection_update E ev c = Some (True, set_machine m LDAP_CONNECTION_STATE_REQUEST_SCHEMA c)"
  by (rule update_goes_on [of E c RETURN_CODE_SUCCESS _ m LDAP_CONNECTION_STATE_REQUEST_SCHEMA])
    (use assms in \<open>simp_all add: csm_next_state_def tick_detect_directory_def csm_set_state_def in_state_def\<close>)

lemma request_schema_tick:
  assumes "in_state m LDAP_CONNECTION_STATE_REQUEST_SCHEMA c" and load: "ldap_schema_load E c = Some (rc, c1)"
    and "st = (if rc = RETURN_CODE_SUCCESS then LDAP_CONNECTION_STATE_CHECK_SCHEMA
      else if rc = RETURN_CODE_OPERATION_IN_PROGRESS then LDAP_CONNECTION_STATE_REQUEST_SCHEMA
      else LDAP_CONNECTION_STATE_ERROR)"
  shows "\<exists>w. connection_update E ev c = Some (st \<noteq> LDAP_CONNECTION_STATE_ERROR, (set_machine m st c1)\<lparr>world := w\<rparr>)"
proof -
  have life: "state_machine c1 = state_machine c" "machines c1 = machines c"
    using schema_load_life [OF load] by (simp_all add: same_life_def)
  have step: "csm_next_state E (state_machine c) c = Some (RETURN_CODE_SUCCESS, set_machine m st c1)"
    using assms(1,3) load life by (simp add: csm_next_state_def tick_request_schema_def csm_set_state_def in_state_def)
  have m: "in_state m st (set_machine m st c1)" using assms(1) life by (simp add: in_state_def)
  show ?thesis
  proof (cases "st = LDAP_CONNECTION_STATE_ERROR")
    case True
    then show ?thesis using update_ends [OF step m, of ev] by auto
  next
    case False
    then have "st \<notin> {LDAP_CONNECTION_STATE_RUN, LDAP_CONNECTION_STATE_ERROR}" using assms(3) by auto
    then have "connection_update E ev c = Some (True, set_machine m st c1)" by (rule update_goes_on [OF step m])
    then show ?thesis using False by (intro exI [of _ "world c1"]) simp
  qed
qed

lemma check_schema_tick:
  assumes "in_state m LDAP_CONNECTION_STATE_CHECK_SCHEMA c"
  shows "ldap_schema_ready E c = Some False \<Longrightarrow> connection_update E ev c = Some (True, c)"
    and "ldap_schema_ready E c = Some True \<Longrightarrow>
      \<exists>w. connection_update E ev c = Some (False, (set_machine m LDAP_CONNECTION_STATE_RUN c)\<lparr>world := w\<rparr>)"
proof -
  assume "ldap_schema_ready E c = Some False"
  then show "connection_update E ev c = Some (True, c)"
    by (intro update_goes_on [OF _ assms]) (use assms in \<open>simp_all add: csm_next_state_def in_state_def\<close>)
next
  assume "ldap_schema_ready E c = Some True"
  then have step: "csm_next_state E (state_machine c) c = Some (RETURN_CODE_SUCCESS, set_machine m LDAP_CONNECTION_STATE_RUN c)"
    using assms by (simp add: csm_next_state_def csm_set_state_def in_state_def)
  show "\<exists>w. connection_update E ev c = Some (False, (set_machine m LDAP_CONNECTION_STATE_RUN c)\<lparr>world := w\<rparr>)"
    using update_ends [OF step, of m] assms by (auto simp: in_state_def)
qed

lemma detected_session:
  fixes E :: "('w, 'h) ext"
  assumes "conn_inv c" and "ldap c = Valid ld" and "schema c = Some p"
    and "n_read_requests c + 1 < MAX_REQUESTS" and "n_search_requests c + 2 < MAX_REQUESTS" and "accepts_searches E"
    and "in_state m LDAP_CONNECTION_STATE_DETECT_DIRECTORY c" and "directory_type c \<noteq> LDAP_TYPE_UNINITIALIZED"
  shows "(\<exists>c'. case directory_type c of
      LDAP_TYPE_OPENLDAP \<Rightarrow> ticks E ev 2 c = Some (True, c') \<and> in_state m LDAP_CONNECTION_STATE_CHECK_SCHEMA c' \<and>
        registers c p [OPENLDAP_ATTRIBUTE_TYPES_CALLBACK, OPENLDAP_OBJECT_CLASSES_CALLBACK] c'
    | LDAP_TYPE_ACTIVE_DIRECTORY \<Rightarrow>
        if schema_entry_path c = None
        then ticks E ev 2 c = Some (True, c') \<and> in_state m LDAP_CONNECTION_STATE_REQUEST_SCHEMA c' \<and>
          registers c p [AD_SUBSCHEMA_SUBENTRY_CALLBACK] c'
        else ticks E ev 3 c = Some (False, c') \<and> in_state m LDAP_CONNECTION_STATE_RUN c' \<and>
          registers c p [AD_ATTRIBUTE_TYPES_CALLBACK, AD_OBJECT_CLASSES_CALLBACK] c'
    | LDAP_TYPE_FREE_IPA \<Rightarrow> ticks E ev 2 c = Some (False, c') \<and> in_state m LDAP_CONNECTION_STATE_ERROR c' \<and> registers c p [] c'
    | _ \<Rightarrow> ticks E ev 3 c = Some (False, c') \<and> in_state m LDAP_CONNECTION_STATE_RUN c' \<and> registers c p [] c') \<and>
    (\<forall>d. in_state m LDAP_CONNECTION_STATE_CHECK_SCHEMA d \<longrightarrow>
      (ldap_schema_ready E d = Some False \<longrightarrow> connection_update E ev d = Some (True, d)) \<and>
      (ldap_schema_ready E d = Some True \<longrightarrow>
        (\<exists>w. connection_update E ev d = Some (False, (set_machine m LDAP_CONNECTION_STATE_RUN d)\<lparr>world := w\<rparr>))))"
proof (intro conjI allI impI)
  let ?c1 = "set_machine m LDAP_CONNECTION_STATE_REQUEST_SCHEMA c"
  have 1: "connection_update E ev c = Some (True, ?c1)" by (rule detected_tick [OF assms(7,8)])
  have m: "in_state m LDAP_CONNECTION_STATE_REQUEST_SCHEMA ?c1" using assms(7) by (simp add: in_state_def)
  have c1: "conn_inv ?c1" "ldap ?c1 = Valid ld" "schema ?c1 = Some p" "n_read_requests ?c1 + 1 < MAX_REQUESTS"
    "n_search_requests ?c1 + 2 < MAX_REQUESTS"
    using assms(1-5) by simp_all
  have sel: "directory_type ?c1 = directory_type c" "schema_entry_path ?c1 = schema_entry_path c" by simp_all
  obtain rc c2 fs where load: "ldap_schema_load E ?c1 = Some (rc, c2)" and reg: "registers c p fs c2"
    and rc: "(rc, fs) = (case directory_type c of
        LDAP_TYPE_OPENLDAP \<Rightarrow> (RETURN_CODE_SUCCESS, [OPENLDAP_ATTRIBUTE_TYPES_CALLBACK, OPENLDAP_OBJECT_CLASSES_CALLBACK])
      | LDAP_TYPE_ACTIVE_DIRECTORY \<Rightarrow>
          if schema_entry_path c = None then (RETURN_CODE_OPERATION_IN_PROGRESS, [AD_SUBSCHEMA_SUBENTRY_CALLBACK])
          else (RETURN_CODE_SUCCESS, [AD_ATTRIBUTE_TYPES_CALLBACK, AD_OBJECT_CLASSES_CALLBACK])
      | LDAP_TYPE_FREE_IPA \<Rightarrow> (RETURN_CODE_FAILURE, [])
      | _ \<Rightarrow> (RETURN_CODE_SUCCESS, []))"
    using schema_load_registers [OF c1 assms(6)] unfolding registers_machine sel by blast
  have life: "state_machine c2 = Some m" "directory_type c2 = directory_type c"
    using schema_load_life [OF load] assms(7) by (simp_all add: same_life_def in_state_def)
  obtain st where st_def: "st = (if rc = RETURN_CODE_SUCCESS then LDAP_CONNECTION_STATE_CHECK_SCHEMA
      else if rc = RETURN_CODE_OPERATION_IN_PROGRESS then LDAP_CONNECTION_STATE_REQUEST_SCHEMA
      else LDAP_CONNECTION_STATE_ERROR)"
    by blast
  obtain w where 2: "connection_update E ev ?c1 = Some (st \<noteq> LDAP_CONNECTION_STATE_ERROR, (set_machine m st c2)\<lparr>world := w\<rparr>)"
    using request_schema_tick [OF m load st_def] by blast
  let ?c2 = "(set_machine m st c2)\<lparr>world := w\<rparr>"
  have two: "ticks E ev 2 c = Some (st \<noteq> LDAP_CONNECTION_STATE_ERROR, ?c2)"
    using 1 2 by (simp add: eval_nat_numeral)
  have s2: "in_state m st ?c2" using life by (simp add: in_state_def)
  have run: "\<exists>v. ticks E ev 3 c = Some (False, (set_machine m LDAP_CONNECTION_STATE_RUN ?c2)\<lparr>world := v\<rparr>)"
    if check: "st = LDAP_CONNECTION_STATE_CHECK_SCHEMA" and other: "directory_type c \<noteq> LDAP_TYPE_OPENLDAP"
  proof -
    have "ldap_schema_ready E ?c2 = Some True" using other life by (simp add: ldap_schema_ready_def)
    then obtain v where "connection_update E ev ?c2 = Some (False, (set_machine m LDAP_CONNECTION_STATE_RUN ?c2)\<lparr>world := v\<rparr>)"
      using check_schema_tick(2) [of m ?c2 E ev] s2 check by blast
    then show ?thesis using 1 2 check by (intro exI [of _ v]) (simp add: eval_nat_numeral)
  qed
  show "\<exists>c'. case directory_type c of
      LDAP_TYPE_OPENLDAP \<Rightarrow> ticks E ev 2 c = Some (True, c') \<and> in_state m LDAP_CONNECTION_STATE_CHECK_SCHEMA c' \<and>
        registers c p [OPENLDAP_ATTRIBUTE_TYPES_CALLBACK, OPENLDAP_OBJECT_CLASSES_CALLBACK] c'
    | LDAP_TYPE_ACTIVE_DIRECTORY \<Rightarrow>
        if schema_entry_path c = None
        then ticks E ev 2 c = Some (True, c') \<and> in_state m LDAP_CONNECTION_STATE_REQUEST_SCHEMA c' \<and>
          registers c p [AD_SUBSCHEMA_SUBENTRY_CALLBACK] c'
        else ticks E ev 3 c = Some (False, c') \<and> in_state m LDAP_CONNECTION_STATE_RUN c' \<and>
          registers c p [AD_ATTRIBUTE_TYPES_CALLBACK, AD_OBJECT_CLASSES_CALLBACK] c'
    | LDAP_TYPE_FREE_IPA \<Rightarrow> ticks E ev 2 c = Some (False, c') \<and> in_state m LDAP_CONNECTION_STATE_ERROR c' \<and> registers c p [] c'
    | _ \<Rightarrow> ticks E ev 3 c = Some (False, c') \<and> in_state m LDAP_CONNECTION_STATE_RUN c' \<and> registers c p [] c'"
  proof (cases "st = LDAP_CONNECTION_STATE_CHECK_SCHEMA \<and> directory_type c \<noteq> LDAP_TYPE_OPENLDAP")
    case True
    then obtain v where "ticks E ev 3 c = Some (False, (set_machine m LDAP_CONNECTION_STATE_RUN ?c2)\<lparr>world := v\<rparr>)"
      using run by blast
    moreover have "registers c p fs ((set_machine m LDAP_CONNECTION_STATE_RUN ?c2)\<lparr>world := v\<rparr>)" using reg by simp
    moreover have "in_state m LDAP_CONNECTION_STATE_RUN ((set_machine m LDAP_CONNECTION_STATE_RUN ?c2)\<lparr>world := v\<rparr>)"
      using life by (simp add: in_state_def)
    ultimately show ?thesis
      using True rc by (intro exI [of _ "(set_machine m LDAP_CONNECTION_STATE_RUN ?c2)\<lparr>world := v\<rparr>"])
        (cases "directory_type c"; auto simp: st_def split: if_splits)
  next
    case False
    have "registers c p fs ?c2" using reg by simp
    then show ?thesis
      using False two s2 rc by (intro exI [of _ ?c2]) (cases "directory_type c"; auto simp: st_def split: if_splits)
  qed
next
  fix d :: "('w, 'h) conn"
  assume "in_state m LDAP_CONNECTION_STATE_CHECK_SCHEMA d"
  note tick = check_schema_tick [OF this, of E ev]
  show "ldap_schema_ready E d = Some False \<Longrightarrow> connection_update E ev d = Some (True, d)" by (rule tick(1))
  show "ldap_schema_ready E d = Some True \<Longrightarrow>
      \<exists>w. connection_update E ev d = Some (False, (set_machine m LDAP_CONNECTION_STATE_RUN d)\<lparr>world := w\<rparr>)"
    by (rule tick(2))
qed

text \<open>
  C9: What two ticks, or three, make of each kind of directory. For OpenLDAP the searches for the schema are
  sent and the machine waits in CHECK_SCHEMA until types and classes are there. For an Active Directory whose
  subschema entry is unknown the search for it is sent and the machine keeps asking; once it is known, the
  searches are sent and RUN is entered without waiting for their answers. FreeIPA ends in ERROR. For an
  unknown kind RUN is entered without a schema.
\<close>

theorem after_detection:
  fixes E :: "('w, 'h) ext"
  assumes "conn_inv c" and "ldap c = Valid ld" and "schema c = Some p"
    and "n_read_requests c + 1 < MAX_REQUESTS" and "n_search_requests c + 2 < MAX_REQUESTS" and "accepts_searches E"
    and "in_state m LDAP_CONNECTION_STATE_DETECT_DIRECTORY c" and "directory_type c \<noteq> LDAP_TYPE_UNINITIALIZED"
  shows "(\<exists>c'. case directory_type c of
      LDAP_TYPE_OPENLDAP \<Rightarrow> ticks E ev 2 c = Some (True, c') \<and> in_state m LDAP_CONNECTION_STATE_CHECK_SCHEMA c' \<and>
        registers c p [OPENLDAP_ATTRIBUTE_TYPES_CALLBACK, OPENLDAP_OBJECT_CLASSES_CALLBACK] c'
    | LDAP_TYPE_ACTIVE_DIRECTORY \<Rightarrow>
        if schema_entry_path c = None
        then ticks E ev 2 c = Some (True, c') \<and> in_state m LDAP_CONNECTION_STATE_REQUEST_SCHEMA c' \<and>
          registers c p [AD_SUBSCHEMA_SUBENTRY_CALLBACK] c'
        else ticks E ev 3 c = Some (False, c') \<and> in_state m LDAP_CONNECTION_STATE_RUN c' \<and>
          registers c p [AD_ATTRIBUTE_TYPES_CALLBACK, AD_OBJECT_CLASSES_CALLBACK] c'
    | LDAP_TYPE_FREE_IPA \<Rightarrow> ticks E ev 2 c = Some (False, c') \<and> in_state m LDAP_CONNECTION_STATE_ERROR c' \<and> registers c p [] c'
    | _ \<Rightarrow> ticks E ev 3 c = Some (False, c') \<and> in_state m LDAP_CONNECTION_STATE_RUN c' \<and> registers c p [] c') \<and>
    (\<forall>d. in_state m LDAP_CONNECTION_STATE_CHECK_SCHEMA d \<longrightarrow>
      (ldap_schema_ready E d = Some False \<longrightarrow> connection_update E ev d = Some (True, d)) \<and>
      (ldap_schema_ready E d = Some True \<longrightarrow>
        (\<exists>w. connection_update E ev d = Some (False, (set_machine m LDAP_CONNECTION_STATE_RUN d)\<lparr>world := w\<rparr>))))"
  by (rule detected_session [OF assms])

lemma after_detection_witness:
  "\<exists>c'. ticks demo_ext 0 2 (demo_conn\<lparr>directory_type := LDAP_TYPE_OPENLDAP, machines := [0 \<mapsto> LDAP_CONNECTION_STATE_DETECT_DIRECTORY]\<rparr>) =
     Some (True, c') \<and> in_state 0 LDAP_CONNECTION_STATE_CHECK_SCHEMA c'"
proof -
  let ?c = "demo_conn\<lparr>directory_type := LDAP_TYPE_OPENLDAP, machines := [0 \<mapsto> LDAP_CONNECTION_STATE_DETECT_DIRECTORY]\<rparr>"
  have "conn_inv ?c" "schema ?c = Some 0" "in_state 0 LDAP_CONNECTION_STATE_DETECT_DIRECTORY ?c"
    by (simp_all add: in_state_def conn_inv_def waiting_def demo_conn_def rq_inv_def rq_rep_def rq_items_def Let_def)
  moreover have "accepts_searches demo_ext" by (simp add: demo_send_def accepts_searches_def)
  ultimately show ?thesis using after_detection [of ?c 1 0 demo_ext 0 0] by auto
qed

end
