(* ===== verification/Schema_Session.thy ===== *)
theory Schema_Session
  imports Session
begin

text \<open>
  The schema of a session: the round of the event loop that delivers the answers to the two searches of a
  load, what it leaves in the schema, and the ticks of the machine before and after it.
\<close>

section \<open>One answered search\<close>

text \<open>\<open>listed E ld m vs\<close>: libldap answers the search \<open>m\<close> of the session \<open>ld\<close> with the values \<open>vs\<close>.\<close>

definition listed :: "('w, 'h) ext \<Rightarrow> nat \<Rightarrow> int \<Rightarrow> string list \<Rightarrow> bool" where
  "listed E ld m vs \<longleftrightarrow>
     (\<exists>rc message. (\<forall>w. fst (ldap_result E ld m w) = (rc, message)) \<and>
        (rc = LDAP_RES_SEARCH_ENTRY \<or> rc = LDAP_RES_SEARCH_RESULT) \<and>
        lists_values vs message \<and> message_id (hd message) = m)"

lemma lists_values_messages:
  "lists_values vs message \<Longrightarrow> message \<noteq> [] \<and> (\<forall>m \<in> set message. message_dn m \<noteq> None)"
  by (cases message) auto

lemma searches_Cons:
  assumes "conn_inv c" and "searches c = r # rs"
  shows "0 < n_search_requests c" and "search_requests c 0 = r" and "[0..n_search_requests c - 1] = 0 # [1..n_search_requests c - 1]"
proof -
  have "[0..n_search_requests c - 1] \<noteq> []" using assms(2) by (auto simp: searches_def)
  then show n: "0 < n_search_requests c" by simp
  then show u: "[0..n_search_requests c - 1] = 0 # [1..n_search_requests c - 1]"
    using upto_rec1 [of 0 "n_search_requests c - 1"] by simp
  show "search_requests c 0 = r" using assms(2) by (simp add: searches_def u)
qed

lemma remove_first_search:
  assumes "conn_inv c" and "searches c = r # rs" and "n_read_requests c \<noteq> 1 \<or> rs = []"
  shows "\<exists>rq. connection_remove_search_request c 0 =
      Some (c\<lparr>n_search_requests := n_search_requests c - 1, search_requests := rq\<rparr>) \<and>
    searches (c\<lparr>n_search_requests := n_search_requests c - 1, search_requests := rq\<rparr>) = rs"
proof -
  note n = searches_Cons [OF assms(1,2)]
  have "n_search_requests c < MAX_REQUESTS" using assms(1) by (auto elim: conn_invE)
  moreover have "rs = [] \<longleftrightarrow> n_search_requests c = 1"
    using assms(2) n(1) by (auto simp: searches_def n(3))
  ultimately obtain c' where c': "connection_remove_search_request c 0 = Some c'"
      "n_search_requests c' = n_search_requests c - 1" "searches c' = rs"
    using remove_search_request_removes [of 0 c] assms(2,3) n(1) by auto
  moreover have "c' = c\<lparr>n_search_requests := n_search_requests c', search_requests := search_requests c'\<rparr>"
    using c'(1) by (auto simp: connection_remove_search_request_def Let_def split: if_splits)
  ultimately show ?thesis by (metis (no_types))
qed

text \<open>What the callbacks of a load may change: \<open>stored c d\<close>.\<close>

definition stored :: "('w, 'h) conn \<Rightarrow> ('w, 'h) conn \<Rightarrow> bool" where
  "stored c d \<longleftrightarrow> (\<exists>m w ss path. d = c\<lparr>conn_msgid := m, world := w, schemas := ss, schema_entry_path := path\<rparr>)"

lemma storedI: "stored c (c\<lparr>conn_msgid := m, world := w, schemas := ss, schema_entry_path := path\<rparr>)"
  by (auto simp: stored_def)

lemma stored_set_schema:
  "stored c (set_schema p s (c\<lparr>conn_msgid := m\<rparr>\<lparr>world := w\<rparr>))"
  "schemas (set_schema p s c) p = s" "schema_entry_path (set_schema p s c) = schema_entry_path c"
  using storedI [where c = c and m = m and w = w and ss = "(schemas c)(p := s)" and path = "schema_entry_path c"]
  by (simp_all add: set_schema_def)

lemma stored_world: "stored c d \<Longrightarrow> stored c (d\<lparr>world := w\<rparr>)"
proof -
  assume "stored c d"
  then obtain m v ss path where "d = c\<lparr>conn_msgid := m, world := v, schemas := ss, schema_entry_path := path\<rparr>"
    by (auto simp: stored_def)
  then have "d\<lparr>world := w\<rparr> = c\<lparr>conn_msgid := m, world := w, schemas := ss, schema_entry_path := path\<rparr>" by simp
  then show "stored c (d\<lparr>world := w\<rparr>)" unfolding stored_def by blast
qed

lemma stored_frame:
  assumes "stored c d"
  shows "conn_inv d = conn_inv c" and "waiting d = waiting c" and "searches d = searches c"
    and "n_read_requests d = n_read_requests c" and "n_search_requests d = n_search_requests c"
    and "same_session c d" and "directory_type d = directory_type c"
proof -
  obtain m w ss path where "d = c\<lparr>conn_msgid := m, world := w, schemas := ss, schema_entry_path := path\<rparr>"
    using assms by (auto simp: stored_def)
  then show "conn_inv d = conn_inv c" and "waiting d = waiting c" and "searches d = searches c"
    and "n_read_requests d = n_read_requests c" and "n_search_requests d = n_search_requests c"
    and "same_session c d" and "directory_type d = directory_type c"
    by (auto simp: conn_inv_def waiting_def searches_def same_session_def split: option.splits)
qed

text \<open>
  Polling the request of a search whose values the callback can store: the search request is gone, and nothing
  but schemas and the path of the subschema has changed.
\<close>

lemma poll_listed:
  assumes "glib_ok E" and "memory_ok E" and "has_handle c" and "conn_inv c" and "ldap c = Valid ld"
    and key: "request_key (read_requests c i) = (m, Some SEARCH_ON_READ)"
    and search: "searches c = \<lparr>search_msgid = m, on_search_operation = Some f, search_user_data = SCHEMA_DATA p\<rparr> # rs"
    and room: "n_read_requests c \<noteq> 1 \<or> rs = []" and answer: "listed E ld m vs"
    and call: "\<And>es d. call_search_callback E f es (SCHEMA_DATA p) d = ldap_schema_callback_common E g es d"
    and store: "\<And>w. \<exists>d. read_values g vs (c\<lparr>conn_msgid := m\<rparr>\<lparr>world := w\<rparr>) = Some (RETURN_CODE_SUCCESS, d) \<and>
      stored c d \<and> Q (schemas d p) (schema_entry_path d)"
  shows "\<exists>d rq. poll_one (call_read_operation E) E i c pend =
        Some (True, d\<lparr>n_search_requests := n_search_requests d - 1, search_requests := rq\<rparr>, pend) \<and>
      searches (d\<lparr>n_search_requests := n_search_requests d - 1, search_requests := rq\<rparr>) = rs \<and>
      stored c d \<and> Q (schemas d p) (schema_entry_path d)"
proof -
  obtain rc message where msg: "\<And>w. fst (ldap_result E ld m w) = (rc, message)"
    and rc: "rc = LDAP_RES_SEARCH_ENTRY \<or> rc = LDAP_RES_SEARCH_RESULT" and lists: "lists_values vs message"
    and id: "message_id (hd message) = m"
    using answer by (auto simp: listed_def)
  obtain w0 where p: "ldap_result E ld m (world c) = ((rc, message), w0)"
    using msg by (metis prod.exhaust_sel)
  let ?c = "c\<lparr>world := w0, conn_msgid := m\<rparr>"
  note n = searches_Cons [OF assms(4) search]
  obtain entries w1 where entries: "list_all2 (entry_of_message E) message entries"
    and run: "search_on_read (call_search_callback E) E rc message ?c =
      do { (r, c1) \<leftarrow> call_search_callback E f entries (search_user_data (search_requests ?c 0)) (?c\<lparr>world := w1\<rparr>);
           c2 \<leftarrow> connection_remove_search_request c1 0;
           Some (r, c2) }"
    using search_delivered [OF assms(1,2), where c = ?c and message = message and rc = rc and i = 0 and callback = f
        and call = "call_search_callback E"] assms(3) lists_values_messages [OF lists] rc id n by auto
  let ?d = "c\<lparr>conn_msgid := m\<rparr>\<lparr>world := w1\<rparr>"
  have "\<exists>d. ldap_schema_callback_common E g entries ?d = Some (RETURN_CODE_SUCCESS, d) \<and>
      stored c d \<and> Q (schemas d p) (schema_entry_path d)"
    by (rule listed_values_read [OF assms(1,2) entries lists]) (use store stored_world [of c] in auto)
  then obtain d where d: "ldap_schema_callback_common E g entries ?d = Some (RETURN_CODE_SUCCESS, d)"
      "stored c d" "Q (schemas d p) (schema_entry_path d)"
    by blast
  note same = stored_frame [OF d(2)]
  have "conn_inv d" "n_read_requests d \<noteq> 1 \<or> rs = []" using same assms(4) room by simp_all
  then obtain rq where rq: "connection_remove_search_request d 0 =
      Some (d\<lparr>n_search_requests := n_search_requests d - 1, search_requests := rq\<rparr>)"
      "searches (d\<lparr>n_search_requests := n_search_requests d - 1, search_requests := rq\<rparr>) = rs"
    using remove_first_search [OF _ same(3) [unfolded search]] by blast
  have "search_on_read (call_search_callback E) E rc message ?c =
      Some (RETURN_CODE_SUCCESS, d\<lparr>n_search_requests := n_search_requests d - 1, search_requests := rq\<rparr>)"
    using run d(1) rq(1) n(2) call by simp
  then have "poll_one (call_read_operation E) E i c pend =
      Some (True, d\<lparr>n_search_requests := n_search_requests d - 1, search_requests := rq\<rparr>, pend)"
    using key assms(5) p rc by (auto simp: poll_one_def with_ldap_def request_key_def Let_def)
  then show ?thesis using rq(2) d(2,3) by blast
qed

lemma removed_search_frame:
  assumes "conn_inv d" and "0 < n_search_requests d"
    and "c' = d\<lparr>n_search_requests := n_search_requests d - 1, search_requests := rq\<rparr>"
  shows "conn_inv c'" and "waiting c' = waiting d"
    and "directory_type c' = directory_type d" and "schemas c' = schemas d" and "schema_entry_path c' = schema_entry_path d"
  using assms by (auto simp: conn_inv_def waiting_def split: option.splits)

lemma poll_listed_step:
  assumes "glib_ok E" and "memory_ok E" and "has_handle c" and inv: "conn_inv c" and "ldap c = Valid ld"
    and "request_key (read_requests c i) = (m, Some SEARCH_ON_READ)"
    and search: "searches c = \<lparr>search_msgid = m, on_search_operation = Some f, search_user_data = SCHEMA_DATA p\<rparr> # rs"
    and "n_read_requests c \<noteq> 1 \<or> rs = []" and "listed E ld m vs"
    and "\<And>es d. call_search_callback E f es (SCHEMA_DATA p) d = ldap_schema_callback_common E g es d"
    and "\<And>w. \<exists>d. read_values g vs (c\<lparr>conn_msgid := m\<rparr>\<lparr>world := w\<rparr>) = Some (RETURN_CODE_SUCCESS, d) \<and>
      stored c d \<and> Q (schemas d p) (schema_entry_path d)"
  shows "\<exists>c'. poll_one (call_read_operation E) E i c pend = Some (True, c', pend) \<and> conn_inv c' \<and>
    waiting c' = waiting c \<and> same_session c c' \<and> directory_type c' = directory_type c \<and> searches c' = rs \<and>
    Q (schemas c' p) (schema_entry_path c')"
proof -
  obtain d rq where p: "poll_one (call_read_operation E) E i c pend =
        Some (True, d\<lparr>n_search_requests := n_search_requests d - 1, search_requests := rq\<rparr>, pend)"
      "searches (d\<lparr>n_search_requests := n_search_requests d - 1, search_requests := rq\<rparr>) = rs"
      "stored c d" "Q (schemas d p) (schema_entry_path d)"
    using poll_listed [where pend = pend and Q = Q, OF assms] by blast
  note same = stored_frame [OF p(3)]
  have "conn_inv d" "0 < n_search_requests d" using same inv searches_Cons(1) [OF inv search] by simp_all
  note removed = removed_search_frame [where rq = rq, OF this refl]
  show ?thesis by (intro exI conjI, rule p(1)) (use removed p(2-4) same in simp_all)
qed

section \<open>The round that fills the schema\<close>

definition holds_types :: "('w, 'h) ext \<Rightarrow> 'h ldap_schema \<Rightarrow> ldap_attribute_type list \<Rightarrow> bool" where
  "holds_types E s tys \<longleftrightarrow>
     (\<forall>ty \<in> set tys. ldap_schema_get_attributetype_by_oid E (Some s) (oid_of ty) = Some ty \<and>
        (\<forall>n \<in> set (names_of ty). ldap_schema_get_attributetype_by_name E (Some s) n = Some ty))"

definition holds_classes :: "('w, 'h) ext \<Rightarrow> 'h ldap_schema \<Rightarrow> ldap_object_class list \<Rightarrow> bool" where
  "holds_classes E s clss \<longleftrightarrow>
     (\<forall>cls \<in> set clss. ldap_schema_get_objectclass_by_oid E (Some s) (class_oid_of cls) = Some cls \<and>
        (\<forall>n \<in> set (class_names_of cls). ldap_schema_get_objectclass_by_name E (Some s) n = Some cls))"

lemma holds_types_cong:
  "attribute_types_by_oid s' = attribute_types_by_oid s \<Longrightarrow> attribute_types_by_name s' = attribute_types_by_name s \<Longrightarrow>
    holds_types E s' tys = holds_types E s tys"
  by (simp add: holds_types_def ldap_schema_get_attributetype_by_oid_def ldap_schema_get_attributetype_by_name_def)

text \<open>Elements that are complete, differ in OIDs and names, and have names the schema does not know yet.\<close>

definition new_types :: "('w, 'h) ext \<Rightarrow> 'h ldap_schema \<Rightarrow> ldap_attribute_type list \<Rightarrow> bool" where
  "new_types E s tys \<longleftrightarrow> (\<forall>ty \<in> set tys. complete_type ty) \<and> distinct (map oid_of tys) \<and>
     distinct (concat (map names_of tys)) \<and>
     (\<forall>n \<in> set (concat (map names_of tys)). unbound E (attribute_types_by_name s) n)"

definition new_classes :: "('w, 'h) ext \<Rightarrow> 'h ldap_schema \<Rightarrow> ldap_object_class list \<Rightarrow> bool" where
  "new_classes E s clss \<longleftrightarrow> (\<forall>cls \<in> set clss. complete_class cls) \<and> distinct (map class_oid_of clss) \<and>
     distinct (concat (map class_names_of clss)) \<and>
     (\<forall>n \<in> set (concat (map class_names_of clss)). unbound E (object_classes_by_name s) n)"

lemma read_new_types:
  assumes "glib_ok E" and "memory_ok E" and "has_tables s" and "schemas c p = Some s"
    and "type_values f E p vs tys" and "new_types E s tys"
  shows "\<exists>w s'. read_values f vs c = Some (RETURN_CODE_SUCCESS, set_schema p (Some s') (c\<lparr>world := w\<rparr>)) \<and>
    has_tables s' \<and> holds_types E s' tys \<and>
    object_classes_by_oid s' = object_classes_by_oid s \<and> object_classes_by_name s' = object_classes_by_name s"
  using type_loader.store_all [OF assms(1,3,4) type_values_store [OF assms(2,5)]] assms(6)
  unfolding new_types_def holds_types_def by auto

lemma read_new_classes:
  assumes "glib_ok E" and "memory_ok E" and "has_tables s" and "schemas c p = Some s"
    and "class_values f E p vs clss" and "new_classes E s clss"
  shows "\<exists>w s'. read_values f vs c = Some (RETURN_CODE_SUCCESS, set_schema p (Some s') (c\<lparr>world := w\<rparr>)) \<and>
    has_tables s' \<and> holds_classes E s' clss \<and>
    attribute_types_by_oid s' = attribute_types_by_oid s \<and> attribute_types_by_name s' = attribute_types_by_name s"
  using class_loader.store_all [OF assms(1,3,4) class_values_store [OF assms(2,5)]] assms(6)
  unfolding new_classes_def holds_classes_def by auto

text \<open>The two callbacks of a load, for OpenLDAP and for an Active Directory.\<close>

definition loads_with ::
  "search_callback \<Rightarrow> search_callback \<Rightarrow> ('w, 'h) ext \<Rightarrow> nat \<Rightarrow> ('w, 'h) op_fn \<Rightarrow> ('w, 'h) op_fn \<Rightarrow> bool" where
  "loads_with f1 f2 E p g1 g2 \<longleftrightarrow>
     (f1 = OPENLDAP_ATTRIBUTE_TYPES_CALLBACK \<and> f2 = OPENLDAP_OBJECT_CLASSES_CALLBACK \<and>
        g1 = attribute_type_callback E p \<and> g2 = object_class_callback E p) \<or>
     (f1 = AD_ATTRIBUTE_TYPES_CALLBACK \<and> f2 = AD_OBJECT_CLASSES_CALLBACK \<and>
        g1 = ad_attribute_type_callback E p \<and> g2 = ad_object_class_callback E p)"

lemma loads_with_call:
  assumes "loads_with f1 f2 E p g1 g2"
  shows "call_search_callback E f1 es (SCHEMA_DATA p) d = ldap_schema_callback_common E g1 es d"
    and "call_search_callback E f2 es (SCHEMA_DATA p) d = ldap_schema_callback_common E g2 es d"
  using assms by (auto simp: loads_with_def search_callback_defs)

lemma schema_round:
  fixes c :: "('w, 'h) conn"
  assumes "glib_ok E" and "memory_ok E" and "has_handle c" and "conn_inv c" and "ldap c = Valid ld"
    and out: "outstanding c = [(i, Some SEARCH_ON_READ), (j, Some SEARCH_ON_READ)]"
    and search: "searches c = schema_searches [i, j] [f1, f2] p" and fs: "loads_with f1 f2 E p g1 g2"
    and s: "schemas c p = Some s" "has_tables s"
    and tys: "type_values g1 E p vs tys" "new_types E s tys" and clss: "class_values g2 E p ws clss" "new_classes E s clss"
    and answers: "listed E ld i vs" "listed E ld j ws"
  shows "\<exists>c' s'. connection_on_read (call_read_operation E) E c = Some c' \<and> conn_inv c' \<and> ldap c' = Valid ld \<and>
    outstanding c' = [] \<and> searches c' = [] \<and> n_read_requests c' = 0 \<and>
    state_machine c' = state_machine c \<and> machines c' = machines c \<and> schema c' = schema c \<and> has_handle c' \<and>
    directory_type c' = directory_type c \<and>
    schemas c' p = Some s' \<and> has_tables s' \<and> holds_types E s' tys \<and> holds_classes E s' clss"
proof -
  obtain a b where w: "waiting c = [a, b]"
    using out by (auto simp: outstanding_def)
  have key: "request_key (read_requests c a) = (i, Some SEARCH_ON_READ)" "request_key (read_requests c b) = (j, Some SEARCH_ON_READ)"
    using out w by (auto simp: outstanding_def request_key_def)
  have two: "n_read_requests c \<noteq> 1" using waiting_length [OF assms(4)] w by auto
  let ?r = "\<lambda>m f. \<lparr>search_msgid = m, on_search_operation = Some f, search_user_data = SCHEMA_DATA p\<rparr>"
  let ?I = "\<lambda>as (d :: ('w, 'h) conn). same_session c d \<and> directory_type d = directory_type c \<and> (\<exists>sd. schemas d p = Some sd \<and> has_tables sd \<and>
    (as = [a, b] \<and> sd = s \<and> searches d = [?r i f1, ?r j f2] \<or>
     as = [b] \<and> holds_types E sd tys \<and> searches d = [?r j f2] \<and>
       object_classes_by_oid sd = object_classes_by_oid s \<and> object_classes_by_name sd = object_classes_by_name s \<or>
     as = [] \<and> holds_types E sd tys \<and> holds_classes E sd clss \<and> searches d = []))"
  have "\<exists>d'. poll_one (call_read_operation E) E x (d\<lparr>queues := q\<rparr>) [] = Some (True, d', []) \<and> conn_inv d' \<and> waiting d' = xs \<and> ?I xs d'"
    if I: "?I (x # xs) d" and q: "conn_inv (d\<lparr>queues := q\<rparr>)" "waiting (d\<lparr>queues := q\<rparr>) = xs" for d x xs q
  proof -
    let ?d = "d\<lparr>queues := q\<rparr>"
    have d: "ldap ?d = Valid ld" "has_handle ?d" "n_read_requests ?d \<noteq> 1" "read_requests ?d = read_requests c"
      "same_session c ?d" "directory_type ?d = directory_type c"
      using I assms(3,5) two by (auto simp: same_session_def)
    obtain sd where sd: "schemas d p = Some sd" "has_tables sd"
      and cases: "x = a \<and> xs = [b] \<and> sd = s \<and> searches ?d = [?r i f1, ?r j f2] \<or>
        x = b \<and> xs = [] \<and> holds_types E sd tys \<and> searches ?d = [?r j f2] \<and>
        object_classes_by_oid sd = object_classes_by_oid s \<and> object_classes_by_name sd = object_classes_by_name s"
      using I by (auto simp: searches_def)
    note step = poll_listed_step [where c = ?d and pend = "[]" and p = p, OF assms(1,2) d(2) q(1) d(1)]
    from cases show ?thesis
    proof
      assume 1: "x = a \<and> xs = [b] \<and> sd = s \<and> searches ?d = [?r i f1, ?r j f2]"
      let ?Q = "\<lambda>so (_ :: string option). \<exists>s'. so = Some s' \<and> has_tables s' \<and> holds_types E s' tys \<and>
        object_classes_by_oid s' = object_classes_by_oid s \<and> object_classes_by_name s' = object_classes_by_name s"
      have "\<exists>d'. read_values g1 vs (?d\<lparr>conn_msgid := i\<rparr>\<lparr>world := w\<rparr>) = Some (RETURN_CODE_SUCCESS, d') \<and>
          stored ?d d' \<and> ?Q (schemas d' p) (schema_entry_path d')" for w
      proof -
        have "schemas (?d\<lparr>conn_msgid := i\<rparr>\<lparr>world := w\<rparr>) p = Some s" using sd(1) 1 by simp
        from read_new_types [OF assms(1,2) s(2) this tys] obtain w' s' where s':
          "read_values g1 vs (?d\<lparr>conn_msgid := i\<rparr>\<lparr>world := w\<rparr>) =
            Some (RETURN_CODE_SUCCESS, set_schema p (Some s') (?d\<lparr>conn_msgid := i\<rparr>\<lparr>world := w\<rparr>\<lparr>world := w'\<rparr>))"
          "has_tables s'" "holds_types E s' tys"
          "object_classes_by_oid s' = object_classes_by_oid s" "object_classes_by_name s' = object_classes_by_name s"
          by blast
        show ?thesis
          by (intro exI [of _ "set_schema p (Some s') (?d\<lparr>conn_msgid := i\<rparr>\<lparr>world := w'\<rparr>)"])
            (use s' in \<open>simp add: stored_set_schema\<close>)
      qed
      then have "\<exists>d'. poll_one (call_read_operation E) E a ?d [] = Some (True, d', []) \<and> conn_inv d' \<and>
          waiting d' = waiting ?d \<and> same_session ?d d' \<and> directory_type d' = directory_type ?d \<and> searches d' = [?r j f2] \<and>
          ?Q (schemas d' p) (schema_entry_path d')"
        by (intro step [where Q = ?Q, OF _ _ _ answers(1) loads_with_call(1) [OF fs]]) (use 1 d key in simp_all)
      then show ?thesis using 1 q(2) d(5,6) by (auto simp: same_session_def)
    next
      assume 2: "x = b \<and> xs = [] \<and> holds_types E sd tys \<and> searches ?d = [?r j f2] \<and>
        object_classes_by_oid sd = object_classes_by_oid s \<and> object_classes_by_name sd = object_classes_by_name s"
      let ?Q = "\<lambda>so (_ :: string option). \<exists>s'. so = Some s' \<and> has_tables s' \<and> holds_types E s' tys \<and> holds_classes E s' clss"
      have new: "new_classes E sd clss" using clss(2) 2 by (simp add: new_classes_def)
      have "\<exists>d'. read_values g2 ws (?d\<lparr>conn_msgid := j\<rparr>\<lparr>world := w\<rparr>) = Some (RETURN_CODE_SUCCESS, d') \<and>
          stored ?d d' \<and> ?Q (schemas d' p) (schema_entry_path d')" for w
      proof -
        have "schemas (?d\<lparr>conn_msgid := j\<rparr>\<lparr>world := w\<rparr>) p = Some sd" using sd(1) by simp
        from read_new_classes [OF assms(1,2) sd(2) this clss(1) new] obtain w' s' where s':
          "read_values g2 ws (?d\<lparr>conn_msgid := j\<rparr>\<lparr>world := w\<rparr>) =
            Some (RETURN_CODE_SUCCESS, set_schema p (Some s') (?d\<lparr>conn_msgid := j\<rparr>\<lparr>world := w\<rparr>\<lparr>world := w'\<rparr>))"
          "has_tables s'" "holds_classes E s' clss"
          "attribute_types_by_oid s' = attribute_types_by_oid sd" "attribute_types_by_name s' = attribute_types_by_name sd"
          by blast
        have "holds_types E s' tys" using 2 holds_types_cong [OF s'(4,5)] by blast
        with s' show ?thesis
          by (intro exI [of _ "set_schema p (Some s') (?d\<lparr>conn_msgid := j\<rparr>\<lparr>world := w'\<rparr>)"]) (simp add: stored_set_schema)
      qed
      then have "\<exists>d'. poll_one (call_read_operation E) E b ?d [] = Some (True, d', []) \<and> conn_inv d' \<and>
          waiting d' = waiting ?d \<and> same_session ?d d' \<and> directory_type d' = directory_type ?d \<and> searches d' = [] \<and>
          ?Q (schemas d' p) (schema_entry_path d')"
        by (intro step [where Q = ?Q, OF _ _ _ answers(2) loads_with_call(2) [OF fs]]) (use 2 d key in simp_all)
      then show ?thesis using 2 q(2) d(5,6) by (auto simp: same_session_def)
    qed
  qed
  moreover have "?I (waiting c) c" using w s search by (simp add: schema_searches_def)
  ultimately obtain c' where "connection_on_read (call_read_operation E) E c = Some (c'\<lparr>n_read_requests := 0\<rparr>)"
      "conn_inv (c'\<lparr>n_read_requests := 0\<rparr>)" "outstanding (c'\<lparr>n_read_requests := 0\<rparr>) = []" "searches (c'\<lparr>n_read_requests := 0\<rparr>) = searches c'" "?I [] c'"
    using on_read_answers [where I = ?I and D = "call_read_operation E" and E = E and c = c] assms(4) by blast
  then show ?thesis
    using assms(3,5) by (intro exI [of _ "c'\<lparr>n_read_requests := 0\<rparr>"]) (auto simp add: same_session_def)
qed

section \<open>From the kind of directory to a loaded schema\<close>

text \<open>
  What a server describes: at least one attribute type and one object class, all complete, with OIDs and names
  that differ.
\<close>

definition schema_described :: "ldap_attribute_type list \<Rightarrow> ldap_object_class list \<Rightarrow> bool" where
  "schema_described tys clss \<longleftrightarrow> tys \<noteq> [] \<and> clss \<noteq> [] \<and>
     (\<forall>ty \<in> set tys. complete_type ty) \<and> distinct (map oid_of tys) \<and> distinct (concat (map names_of tys)) \<and>
     (\<forall>cls \<in> set clss. complete_class cls) \<and> distinct (map class_oid_of clss) \<and> distinct (concat (map class_names_of clss))"

lemma described_new:
  assumes "empty_schema E s" and "schema_described tys clss"
  shows "new_types E s tys" and "new_classes E s clss"
  using assms by (simp_all add: empty_schema_def schema_described_def new_types_def new_classes_def)

lemma holds_types_bound: "holds_types E s tys \<Longrightarrow> tys \<noteq> [] \<Longrightarrow> \<exists>k. \<not> unbound E (attribute_types_by_oid s) k"
  by (cases tys) (auto simp: holds_types_def ldap_schema_get_attributetype_by_oid_def type_in_def unbound_def
    split: option.splits)

lemma holds_classes_bound: "holds_classes E s clss \<Longrightarrow> clss \<noteq> [] \<Longrightarrow> \<exists>k. \<not> unbound E (object_classes_by_oid s) k"
  by (cases clss) (auto simp: holds_classes_def ldap_schema_get_objectclass_by_oid_def class_in_def unbound_def
    split: option.splits)

lemma described_ready:
  assumes "glib_ok E" and "schema c = Some p" and "schemas c p = Some s" and "has_tables s"
    and "holds_types E s tys" and "holds_classes E s clss" and "tys \<noteq> []" and "clss \<noteq> []"
  shows "ldap_schema_ready E c = Some True"
  using schema_ready_iff [OF assms(1-4)] holds_types_bound [OF assms(5,7)] holds_classes_bound [OF assms(6,8)] by simp

text \<open>The state in which a session knows its directory and waits for nothing.\<close>

definition knows_directory :: "('w, 'h) ext \<Rightarrow> nat \<Rightarrow> nat \<Rightarrow> LdapDirectoryType \<Rightarrow> ('w, 'h) conn \<Rightarrow> bool" where
  "knows_directory E m ld t c \<longleftrightarrow> conn_inv c \<and> ldap c = Valid ld \<and> has_handle c \<and> (glib_ok E \<longrightarrow> fresh_schema E c) \<and>
     outstanding c = [] \<and> n_read_requests c = 0 \<and> n_search_requests c = 0 \<and>
     in_state m LDAP_CONNECTION_STATE_DETECT_DIRECTORY c \<and> directory_type c = t"

lemma knows_directoryD:
  assumes "knows_directory E m ld t c"
  shows "conn_inv c" and "ldap c = Valid ld" and "has_handle c" and "outstanding c = []" and "n_read_requests c = 0"
    and "n_search_requests c = 0" and "in_state m LDAP_CONNECTION_STATE_DETECT_DIRECTORY c" and "directory_type c = t"
  using assms by (simp_all add: knows_directory_def)

lemma knows_schema:
  assumes "knows_directory E m ld t c" and "glib_ok E"
  obtains p s where "schema c = Some p" and "schemas c p = Some s" and "empty_schema E s"
  using assms by (auto simp: knows_directory_def fresh_schema_def)

text \<open>The tick that sends both searches.\<close>

lemma load_sent:
  assumes "accepts_searches E" and c: "conn_inv c" "ldap c = Valid ld" "n_read_requests c + 1 < MAX_REQUESTS"
    "n_search_requests c + 2 < MAX_REQUESTS" and m: "in_state m LDAP_CONNECTION_STATE_REQUEST_SCHEMA c"
    and load: "ldap_schema_load E c = search_both E c dn f1 f2 (SCHEMA_DATA p)"
  shows "\<exists>c1 i j. connection_update E ev c = Some (True, c1) \<and> in_state m LDAP_CONNECTION_STATE_CHECK_SCHEMA c1 \<and>
    registers c p [f1, f2] c1 \<and>
    outstanding c1 = outstanding c @ [(i, Some SEARCH_ON_READ), (j, Some SEARCH_ON_READ)] \<and>
    searches c1 = searches c @ schema_searches [i, j] [f1, f2] p \<and>
    search_id E ld dn ''(objectclass=subschema)'' ''attributetypes'' i \<and>
    search_id E ld dn ''(objectclass=subschema)'' ''objectclasses'' j"
proof -
  obtain c1 where both: "search_both E c dn f1 f2 (SCHEMA_DATA p) = Some (RETURN_CODE_SUCCESS, c1)" and reg: "registers c p [f1, f2] c1"
    using search_both_registers [OF c assms(1)] by blast
  obtain i j v w where ids: "outstanding c1 = outstanding c @ [(i, Some SEARCH_ON_READ), (j, Some SEARCH_ON_READ)]"
      "fst (ldap_search_ext E ld (Some dn) LDAP_SCOPE_BASE (Some ''(objectclass=subschema)'') (Some [''attributetypes'']) False v) =
        (LDAP_SUCCESS, i)"
      "fst (ldap_search_ext E ld (Some dn) LDAP_SCOPE_BASE (Some ''(objectclass=subschema)'') (Some [''objectclasses'']) False w) =
        (LDAP_SUCCESS, j)"
    using search_both_ids [OF both c(1-3) assms(1)] by blast
  obtain ms where ms: "length ms = length [f1, f2]" "outstanding c1 = outstanding c @ map (\<lambda>m. (m, Some SEARCH_ON_READ)) ms"
      "searches c1 = searches c @ schema_searches ms [f1, f2] p"
    using reg unfolding registers_def by blast
  have "map (\<lambda>m. (m, Some SEARCH_ON_READ)) ms = map (\<lambda>m. (m, Some SEARCH_ON_READ)) [i, j]" using ids(1) ms(2) by simp
  then have "ms = [i, j]" by (simp add: map_injective inj_def del: list.map)
  with ms(3) have s: "searches c1 = searches c @ schema_searches [i, j] [f1, f2] p" by simp
  obtain t where "connection_update E ev c = Some (True, (set_machine m LDAP_CONNECTION_STATE_CHECK_SCHEMA c1)\<lparr>world := t\<rparr>)"
    using request_schema_tick [OF m load [unfolded both], of _ ev] by auto
  moreover have "in_state m LDAP_CONNECTION_STATE_CHECK_SCHEMA ((set_machine m LDAP_CONNECTION_STATE_CHECK_SCHEMA c1)\<lparr>world := t\<rparr>)" for t
    using m schema_load_life [OF load [unfolded both]] by (simp add: in_state_def same_life_def)
  ultimately show ?thesis
    using reg ids s unfolding search_id_def
    by (intro exI [of _ "(set_machine m LDAP_CONNECTION_STATE_CHECK_SCHEMA c1)\<lparr>world := t\<rparr>"] exI [of _ i] exI [of _ j])
      (auto simp: searches_def)
qed

lemma openldap_searches_sent:
  assumes "glib_ok E" and "accepts_searches E" and "knows_directory E m ld LDAP_TYPE_OPENLDAP c"
  shows "\<exists>c1 p s i j. ticks E ev 2 c = Some (True, c1) \<and> in_state m LDAP_CONNECTION_STATE_CHECK_SCHEMA c1 \<and>
    search_id E ld ''cn=subschema'' ''(objectclass=subschema)'' ''attributetypes'' i \<and>
    search_id E ld ''cn=subschema'' ''(objectclass=subschema)'' ''objectclasses'' j \<and>
    conn_inv c1 \<and> ldap c1 = Valid ld \<and> has_handle c1 \<and> directory_type c1 = LDAP_TYPE_OPENLDAP \<and>
    outstanding c1 = [(i, Some SEARCH_ON_READ), (j, Some SEARCH_ON_READ)] \<and>
    searches c1 = schema_searches [i, j] [OPENLDAP_ATTRIBUTE_TYPES_CALLBACK, OPENLDAP_OBJECT_CLASSES_CALLBACK] p \<and>
    schema c1 = Some p \<and> schemas c1 p = Some s \<and> empty_schema E s \<and> connection_update E ev c1 = Some (True, c1)"
proof -
  note c = knows_directoryD [OF assms(3)]
  obtain p s where p: "schema c = Some p" "schemas c p = Some s" "empty_schema E s"
    by (rule knows_schema [OF assms(3,1)])
  let ?fs = "[OPENLDAP_ATTRIBUTE_TYPES_CALLBACK, OPENLDAP_OBJECT_CLASSES_CALLBACK]"
  let ?d = "set_machine m LDAP_CONNECTION_STATE_REQUEST_SCHEMA c"
  have 1: "connection_update E ev c = Some (True, ?d)" using detected_tick [OF c(7)] c(8) by simp
  have m: "in_state m LDAP_CONNECTION_STATE_REQUEST_SCHEMA ?d" using c(7) by (simp add: in_state_def)
  have load: "ldap_schema_load E ?d = search_both E ?d ''cn=subschema'' OPENLDAP_ATTRIBUTE_TYPES_CALLBACK OPENLDAP_OBJECT_CLASSES_CALLBACK (SCHEMA_DATA p)"
    using c(8) p(1) by (simp add: ldap_schema_load_def schema_load_openldap_def schema_data_def)
  have d: "conn_inv ?d" "ldap ?d = Valid ld" "n_read_requests ?d + 1 < MAX_REQUESTS" "n_search_requests ?d + 2 < MAX_REQUESTS"
    using c(1,2,5,6) by simp_all
  obtain c1 i j where c1: "connection_update E ev ?d = Some (True, c1)" "in_state m LDAP_CONNECTION_STATE_CHECK_SCHEMA c1"
      "registers ?d p ?fs c1"
    and ids: "outstanding c1 = outstanding ?d @ [(i, Some SEARCH_ON_READ), (j, Some SEARCH_ON_READ)]"
      "searches c1 = searches ?d @ schema_searches [i, j] ?fs p"
      "search_id E ld ''cn=subschema'' ''(objectclass=subschema)'' ''attributetypes'' i" "search_id E ld ''cn=subschema'' ''(objectclass=subschema)'' ''objectclasses'' j"
    using load_sent [OF assms(2) d m load, of ev] by blast
  have two: "ticks E ev 2 c = Some (True, c1)" using 1 c1(1) by (simp add: eval_nat_numeral)
  have same: "conn_inv c1" "ldap c1 = Valid ld" "has_handle c1" "directory_type c1 = LDAP_TYPE_OPENLDAP"
      "schema c1 = Some p" "schemas c1 p = Some s"
    using c1(3) c p by (simp_all add: registers_def)
  have sent: "outstanding c1 = [(i, Some SEARCH_ON_READ), (j, Some SEARCH_ON_READ)]"
      "searches c1 = schema_searches [i, j] ?fs p"
    using ids(1,2) c(4,6) by (simp_all add: searches_def [of c])
  have "has_tables s" "\<forall>k. unbound E (attribute_types_by_oid s) k" using p(3) by (simp_all add: empty_schema_def)
  then have "ldap_schema_ready E c1 = Some False"
    using schema_ready_iff [OF assms(1) same(5,6)] same(4) by simp
  from check_schema_tick(1) [OF c1(2) this, of ev] show ?thesis
    using two c1(2) same sent p(3) ids(3,4) by blast
qed

lemma openldap_schema_loaded:
  assumes "glib_ok E" and "memory_ok E" and "accepts_searches E" and "knows_directory E m ld LDAP_TYPE_OPENLDAP c"
  shows "\<exists>c1 p i j. ticks E ev 2 c = Some (True, c1) \<and> in_state m LDAP_CONNECTION_STATE_CHECK_SCHEMA c1 \<and>
    search_id E ld ''cn=subschema'' ''(objectclass=subschema)'' ''attributetypes'' i \<and>
    search_id E ld ''cn=subschema'' ''(objectclass=subschema)'' ''objectclasses'' j \<and>
    outstanding c1 = [(i, Some SEARCH_ON_READ), (j, Some SEARCH_ON_READ)] \<and> connection_update E ev c1 = Some (True, c1) \<and>
    (\<forall>vs ws tys clss. listed E ld i vs \<and> listed E ld j ws \<and> map (openldap_type E) vs = map Some tys \<and>
        map (openldap_class E) ws = map Some clss \<and> schema_described tys clss \<longrightarrow>
      (\<exists>c2 s c3. connection_on_read (call_read_operation E) E c1 = Some c2 \<and> outstanding c2 = [] \<and> searches c2 = [] \<and>
         connection_update E ev c2 = Some (False, c3) \<and> in_state m LDAP_CONNECTION_STATE_RUN c3 \<and>
         schema c3 = Some p \<and> schemas c3 p = Some s \<and> holds_types E s tys \<and> holds_classes E s clss \<and>
         conn_inv c3 \<and> ldap c3 = Valid ld \<and> n_read_requests c3 = 0 \<and> directory_type c3 = LDAP_TYPE_OPENLDAP))"
proof -
  obtain c1 p s i j where c1: "ticks E ev 2 c = Some (True, c1)" "in_state m LDAP_CONNECTION_STATE_CHECK_SCHEMA c1"
      "outstanding c1 = [(i, Some SEARCH_ON_READ), (j, Some SEARCH_ON_READ)]" "connection_update E ev c1 = Some (True, c1)"
      "search_id E ld ''cn=subschema'' ''(objectclass=subschema)'' ''attributetypes'' i" "search_id E ld ''cn=subschema'' ''(objectclass=subschema)'' ''objectclasses'' j"
    and ready: "conn_inv c1" "ldap c1 = Valid ld" "has_handle c1" "directory_type c1 = LDAP_TYPE_OPENLDAP"
      "searches c1 = schema_searches [i, j] [OPENLDAP_ATTRIBUTE_TYPES_CALLBACK, OPENLDAP_OBJECT_CLASSES_CALLBACK] p"
      "schema c1 = Some p" "schemas c1 p = Some s" "empty_schema E s"
    using openldap_searches_sent [OF assms(1,3,4), of ev] by blast
  have tables: "has_tables s" using ready(8) by (simp add: empty_schema_def)
  have load: "loads_with OPENLDAP_ATTRIBUTE_TYPES_CALLBACK OPENLDAP_OBJECT_CLASSES_CALLBACK E p
      (attribute_type_callback E p) (object_class_callback E p)"
    by (simp add: loads_with_def)
  have "\<exists>c2 s c3. connection_on_read (call_read_operation E) E c1 = Some c2 \<and> outstanding c2 = [] \<and> searches c2 = [] \<and>
       connection_update E ev c2 = Some (False, c3) \<and> in_state m LDAP_CONNECTION_STATE_RUN c3 \<and>
       schema c3 = Some p \<and> schemas c3 p = Some s \<and> holds_types E s tys \<and> holds_classes E s clss \<and>
       conn_inv c3 \<and> ldap c3 = Valid ld \<and> n_read_requests c3 = 0 \<and> directory_type c3 = LDAP_TYPE_OPENLDAP"
    if answers: "listed E ld i vs" "listed E ld j ws" and parse: "map (openldap_type E) vs = map Some tys"
      "map (openldap_class E) ws = map Some clss" and described: "schema_described tys clss" for vs ws tys clss
  proof -
    have parsed: "type_values (attribute_type_callback E p) E p vs tys" "class_values (object_class_callback E p) E p ws clss"
      using parse by (simp_all add: type_values_def class_values_def)
    obtain c2 s2 where c2: "connection_on_read (call_read_operation E) E c1 = Some c2" "conn_inv c2" "ldap c2 = Valid ld"
        "outstanding c2 = []" "searches c2 = []" "n_read_requests c2 = 0"
        "state_machine c2 = state_machine c1" "machines c2 = machines c1" "schema c2 = schema c1"
        "directory_type c2 = directory_type c1" "schemas c2 p = Some s2" "has_tables s2"
        "holds_types E s2 tys" "holds_classes E s2 clss"
      using schema_round [OF assms(1,2) ready(3,1,2) c1(3) ready(5) load ready(7) tables parsed(1)
          described_new(1) [OF ready(8) described] parsed(2) described_new(2) [OF ready(8) described] answers] by blast
    have "tys \<noteq> []" "clss \<noteq> []" using described by (simp_all add: schema_described_def)
    then have "ldap_schema_ready E c2 = Some True"
      using described_ready [OF assms(1) _ c2(11-14)] c2(9) ready(6) by simp
    moreover have m: "in_state m LDAP_CONNECTION_STATE_CHECK_SCHEMA c2"
      using c1(2) c2(7,8) by (simp add: in_state_def)
    ultimately obtain w where "connection_update E ev c2 =
        Some (False, (set_machine m LDAP_CONNECTION_STATE_RUN c2)\<lparr>world := w\<rparr>)"
      using check_schema_tick(2) by blast
    then show ?thesis
      using m c2 ready(4,6)
      by (intro exI [of _ c2] exI [of _ s2] exI [of _ "(set_machine m LDAP_CONNECTION_STATE_RUN c2)\<lparr>world := w\<rparr>"])
        (simp add: in_state_def)
  qed
  then show ?thesis using c1 by blast
qed

section \<open>The schema of an Active Directory\<close>

lemma subschema_value_read:
  assumes "memory_ok E" and "path \<noteq> ''''"
  shows "\<exists>w. read_values (subschema_subentry_callback E p) [path] c =
    Some (RETURN_CODE_SUCCESS, c\<lparr>world := w, schema_entry_path := Some path\<rparr>)"
proof -
  obtain w where "alloc E c = (True, c\<lparr>world := w\<rparr>)" using memory_ok_alloc [OF assms(1)] by blast
  then show ?thesis
    using assms(2) by (intro exI [of _ w]) (simp add: subschema_subentry_callback_def)
qed

lemma subschema_round:
  fixes c :: "('w, 'h) conn"
  assumes "glib_ok E" and "memory_ok E" and "has_handle c" and "conn_inv c" and "ldap c = Valid ld"
    and out: "outstanding c = [(i, Some SEARCH_ON_READ)]"
    and search: "searches c = schema_searches [i] [AD_SUBSCHEMA_SUBENTRY_CALLBACK] p"
    and answer: "listed E ld i [path]" and path: "path \<noteq> ''''"
  shows "\<exists>c'. connection_on_read (call_read_operation E) E c = Some c' \<and> conn_inv c' \<and> ldap c' = Valid ld \<and>
    outstanding c' = [] \<and> searches c' = [] \<and> n_read_requests c' = 0 \<and>
    state_machine c' = state_machine c \<and> machines c' = machines c \<and> schema c' = schema c \<and> has_handle c' \<and>
    directory_type c' = directory_type c \<and> schemas c' p = schemas c p \<and> schema_entry_path c' = Some path"
proof -
  obtain a where w: "waiting c = [a]"
    using out by (auto simp: outstanding_def)
  have key: "request_key (read_requests c a) = (i, Some SEARCH_ON_READ)"
    using out w by (auto simp: outstanding_def request_key_def)
  let ?r = "\<lparr>search_msgid = i, on_search_operation = Some AD_SUBSCHEMA_SUBENTRY_CALLBACK, search_user_data = SCHEMA_DATA p\<rparr>"
  let ?I = "\<lambda>as (d :: ('w, 'h) conn). same_session c d \<and> directory_type d = directory_type c \<and> schemas d p = schemas c p \<and>
    (as = [a] \<and> searches d = [?r] \<or> as = [] \<and> searches d = [] \<and> schema_entry_path d = Some path)"
  have "\<exists>d'. poll_one (call_read_operation E) E x (d\<lparr>queues := q\<rparr>) [] = Some (True, d', []) \<and> conn_inv d' \<and> waiting d' = xs \<and> ?I xs d'"
    if I: "?I (x # xs) d" and q: "conn_inv (d\<lparr>queues := q\<rparr>)" "waiting (d\<lparr>queues := q\<rparr>) = xs" for d x xs q
  proof -
    let ?d = "d\<lparr>queues := q\<rparr>"
    have d: "ldap ?d = Valid ld" "has_handle ?d" "read_requests ?d = read_requests c" "same_session c ?d"
      "directory_type ?d = directory_type c" "searches ?d = [?r]" "x = a" "xs = []" "schemas d p = schemas c p"
      using I assms(3,5) by (auto simp: same_session_def searches_def)
    let ?Q = "\<lambda>so po. so = schemas c p \<and> po = Some path"
    have "\<exists>d'. read_values (subschema_subentry_callback E p) [path] (?d\<lparr>conn_msgid := i\<rparr>\<lparr>world := w\<rparr>) = Some (RETURN_CODE_SUCCESS, d') \<and>
        stored ?d d' \<and> ?Q (schemas d' p) (schema_entry_path d')" for w
    proof -
      obtain w' where w': "read_values (subschema_subentry_callback E p) [path] (?d\<lparr>conn_msgid := i\<rparr>\<lparr>world := w\<rparr>) =
          Some (RETURN_CODE_SUCCESS, ?d\<lparr>conn_msgid := i\<rparr>\<lparr>world := w\<rparr>\<lparr>world := w', schema_entry_path := Some path\<rparr>)"
        using subschema_value_read [OF assms(2) path] by blast
      show ?thesis
        by (rule exI, intro conjI, rule w')
          (use storedI [where c = ?d and m = i and w = w' and ss = "schemas ?d" and path = "Some path"] d(9) in simp_all)
    qed
    then have "\<exists>d'. poll_one (call_read_operation E) E a ?d [] = Some (True, d', []) \<and> conn_inv d' \<and>
        waiting d' = waiting ?d \<and> same_session ?d d' \<and> directory_type d' = directory_type ?d \<and> searches d' = [] \<and>
        ?Q (schemas d' p) (schema_entry_path d')"
      by (intro poll_listed_step [where p = p and Q = ?Q and f = AD_SUBSCHEMA_SUBENTRY_CALLBACK, OF assms(1,2) d(2) q(1) d(1) _ _ _ answer])
        (use d key in \<open>simp_all add: search_callback_defs\<close>)
    then show ?thesis using q(2) d by (auto simp: same_session_def)
  qed
  moreover have "?I (waiting c) c" using w search by (simp add: schema_searches_def)
  ultimately obtain c' where "connection_on_read (call_read_operation E) E c = Some (c'\<lparr>n_read_requests := 0\<rparr>)"
      "conn_inv (c'\<lparr>n_read_requests := 0\<rparr>)" "outstanding (c'\<lparr>n_read_requests := 0\<rparr>) = []" "searches (c'\<lparr>n_read_requests := 0\<rparr>) = searches c'" "?I [] c'"
    using on_read_answers [where I = ?I and D = "call_read_operation E" and E = E and c = c] assms(4) by blast
  then show ?thesis
    using assms(3,5) by (intro exI [of _ "c'\<lparr>n_read_requests := 0\<rparr>"]) (auto simp add: same_session_def)
qed

lemma registers_ids:
  assumes "registers c p fs c'" and "outstanding c' = outstanding c @ map (\<lambda>m. (m, Some SEARCH_ON_READ)) is"
  shows "searches c' = searches c @ schema_searches is fs p"
proof -
  obtain ms where ms: "outstanding c' = outstanding c @ map (\<lambda>m. (m, Some SEARCH_ON_READ)) ms"
      "searches c' = searches c @ schema_searches ms fs p"
    using assms(1) unfolding registers_def by blast
  then have "map (\<lambda>m. (m, Some SEARCH_ON_READ)) ms = map (\<lambda>m. (m, Some SEARCH_ON_READ)) is" using assms(2) by simp
  then have "ms = is" by (simp add: map_injective inj_def)
  with ms(2) show ?thesis by simp
qed

lemma no_searches: "conn_inv c \<Longrightarrow> searches c = [] \<longleftrightarrow> n_search_requests c = 0"
  by (auto simp: searches_def elim: conn_invE)

text \<open>While the subschema entry is unknown, the tick asks the root DSE for it and the machine stays.\<close>

lemma subschema_search_sent:
  assumes "accepts_searches E" and c: "conn_inv c" "ldap c = Valid ld" "n_read_requests c < MAX_REQUESTS"
    "n_search_requests c + 1 < MAX_REQUESTS" and m: "in_state m LDAP_CONNECTION_STATE_REQUEST_SCHEMA c"
    and ad: "directory_type c = LDAP_TYPE_ACTIVE_DIRECTORY" "schema_entry_path c = None" and p: "schema c = Some p"
  shows "\<exists>c1 i. connection_update E ev c = Some (True, c1) \<and> in_state m LDAP_CONNECTION_STATE_REQUEST_SCHEMA c1 \<and>
    registers c p [AD_SUBSCHEMA_SUBENTRY_CALLBACK] c1 \<and> outstanding c1 = outstanding c @ [(i, Some SEARCH_ON_READ)] \<and>
    search_id E ld '''' ''(objectclass=*)'' ''subschemaSubentry'' i"
proof -
  have ud: "schema_data (schema c) = SCHEMA_DATA p" by (simp add: schema_data_def p)
  obtain c1 where s: "search E c (Some '''') LDAP_SCOPE_BASE (Some ''(objectclass=*)'') (Some [''subschemaSubentry'']) False
      (Some AD_SUBSCHEMA_SUBENTRY_CALLBACK) (SCHEMA_DATA p) = Some (RETURN_CODE_SUCCESS, c1)"
    and reg: "registers c p [AD_SUBSCHEMA_SUBENTRY_CALLBACK] c1"
    using search_registers [OF c assms(1), of "Some ''''" "Some ''(objectclass=*)''" "Some [''subschemaSubentry'']"
        AD_SUBSCHEMA_SUBENTRY_CALLBACK p] by blast
  obtain i v where i: "outstanding c1 = outstanding c @ [(i, Some SEARCH_ON_READ)]"
      "fst (ldap_search_ext E ld (Some '''') LDAP_SCOPE_BASE (Some ''(objectclass=*)'') (Some [''subschemaSubentry'']) False v) =
        (LDAP_SUCCESS, i)"
    using search_sent_id [OF s c(1-3) assms(1)] by blast
  have load: "ldap_schema_load E c = Some (RETURN_CODE_OPERATION_IN_PROGRESS, c1)"
    using ad s ud by (simp add: ldap_schema_load_def schema_load_active_directory_def)
  obtain t where t: "connection_update E ev c = Some (True, (set_machine m LDAP_CONNECTION_STATE_REQUEST_SCHEMA c1)\<lparr>world := t\<rparr>)"
    using request_schema_tick [OF m load, of _ ev] by auto
  let ?c1 = "(set_machine m LDAP_CONNECTION_STATE_REQUEST_SCHEMA c1)\<lparr>world := t\<rparr>"
  have "in_state m LDAP_CONNECTION_STATE_REQUEST_SCHEMA ?c1"
    using m schema_load_life [OF load] by (simp add: in_state_def same_life_def)
  moreover have "search_id E ld '''' ''(objectclass=*)'' ''subschemaSubentry'' i" unfolding search_id_def using i(2) by blast
  ultimately show ?thesis using t reg i(1) by (intro exI [of _ ?c1] exI [of _ i]) simp
qed

lemma ad_searches_sent:
  assumes "accepts_searches E" and c: "conn_inv c" "ldap c = Valid ld" "n_read_requests c = 0" "searches c = []" "outstanding c = []"
    and m: "in_state m LDAP_CONNECTION_STATE_REQUEST_SCHEMA c"
    and ad: "directory_type c = LDAP_TYPE_ACTIVE_DIRECTORY" "schema_entry_path c = Some path" and p: "schema c = Some p"
  shows "\<exists>c1 k l. ticks E ev 2 c = Some (False, c1) \<and> in_state m LDAP_CONNECTION_STATE_RUN c1 \<and>
    registers c p [AD_ATTRIBUTE_TYPES_CALLBACK, AD_OBJECT_CLASSES_CALLBACK] c1 \<and>
    outstanding c1 = [(k, Some SEARCH_ON_READ), (l, Some SEARCH_ON_READ)] \<and>
    searches c1 = schema_searches [k, l] [AD_ATTRIBUTE_TYPES_CALLBACK, AD_OBJECT_CLASSES_CALLBACK] p \<and>
    search_id E ld path ''(objectclass=subschema)'' ''attributetypes'' k \<and>
    search_id E ld path ''(objectclass=subschema)'' ''objectclasses'' l"
proof -
  let ?fs = "[AD_ATTRIBUTE_TYPES_CALLBACK, AD_OBJECT_CLASSES_CALLBACK]"
  have "n_read_requests c + 1 < MAX_REQUESTS" "n_search_requests c + 2 < MAX_REQUESTS"
    using c no_searches [OF c(1)] by simp_all
  moreover have "ldap_schema_load E c = search_both E c path AD_ATTRIBUTE_TYPES_CALLBACK AD_OBJECT_CLASSES_CALLBACK (SCHEMA_DATA p)"
    using ad p by (simp add: ldap_schema_load_def schema_load_active_directory_def schema_data_def)
  ultimately obtain d k l where d: "connection_update E ev c = Some (True, d)" "in_state m LDAP_CONNECTION_STATE_CHECK_SCHEMA d"
      "registers c p ?fs d"
    and sent: "outstanding d = outstanding c @ [(k, Some SEARCH_ON_READ), (l, Some SEARCH_ON_READ)]"
      "searches d = searches c @ schema_searches [k, l] ?fs p"
      "search_id E ld path ''(objectclass=subschema)'' ''attributetypes'' k"
      "search_id E ld path ''(objectclass=subschema)'' ''objectclasses'' l"
    using load_sent [OF assms(1) c(1,2) _ _ m, of path AD_ATTRIBUTE_TYPES_CALLBACK AD_OBJECT_CLASSES_CALLBACK p ev] by blast
  have "ldap_schema_ready E d = Some True" using d(3) ad(1) by (simp add: ldap_schema_ready_def registers_def)
  then obtain w where w: "connection_update E ev d = Some (False, (set_machine m LDAP_CONNECTION_STATE_RUN d)\<lparr>world := w\<rparr>)"
    using check_schema_tick(2) [OF d(2)] by blast
  let ?d = "(set_machine m LDAP_CONNECTION_STATE_RUN d)\<lparr>world := w\<rparr>"
  have "ticks E ev 2 c = Some (False, ?d)" using d(1) w by (simp add: eval_nat_numeral)
  moreover have "searches ?d = searches d" by (simp add: searches_def)
  ultimately show ?thesis
    using d(2,3) sent c(4,5) by (intro exI [of _ ?d] exI [of _ k] exI [of _ l]) (simp add: in_state_def)
qed

text \<open>
  A server for the witnesses: a bind has the message id 1, a search an id that depends on the attribute it asks
  for, and the answers are those of a script.
\<close>

definition scripted_id :: "string list option \<Rightarrow> int" where
  "scripted_id attrs = (if attrs = Some [''*''] then 2 else if attrs = Some [''attributetypes''] then 3
     else if attrs = Some [''objectclasses''] then 4 else if attrs = Some [''subschemaSubentry''] then 5 else 6)"

definition scripted_server :: "(int \<Rightarrow> int \<times> ldap_message list) \<Rightarrow> (demo_world, demo_table) ext" where
  "scripted_server script = demo_ext\<lparr>ldap_sasl_bind := (\<lambda>_ _ _ _ w. ((LDAP_SUCCESS, 1), w)),
     ldap_search_ext := (\<lambda>_ _ _ _ attrs _ w. ((LDAP_SUCCESS, scripted_id attrs), w)),
     ldap_result := (\<lambda>_ m w. (script m, w))\<rparr>"

definition scripted_answer :: "int \<Rightarrow> string list \<Rightarrow> int \<times> ldap_message list" where
  "scripted_answer m vs = (LDAP_RES_SEARCH_ENTRY,
     [\<lparr>message_id = m, message_dn = Some ''cn=subschema'', message_attributes = [(''values'', vs)]\<rparr>])"

lemma scripted_server_ok [simp]:
  "glib_ok (scripted_server script)" "memory_ok (scripted_server script)" "services_ok (scripted_server script)"
  "accepts_searches (scripted_server script)" "accepts_simple_binds (scripted_server script)"
  "no_errors (scripted_server script) ld"
proof -
  have "glib_ok (scripted_server script) = glib_ok demo_ext" "memory_ok (scripted_server script) = memory_ok demo_ext"
    "services_ok (scripted_server script) = services_ok demo_ext"
    by (simp_all add: scripted_server_def glib_ok_def memory_ok_def services_ok_def sessions_ok_def frees_ok_def)
  then show "glib_ok (scripted_server script)" "memory_ok (scripted_server script)" "services_ok (scripted_server script)"
    by simp_all
  show "accepts_searches (scripted_server script)" "accepts_simple_binds (scripted_server script)"
    by (simp_all add: scripted_server_def accepts_searches_def accepts_simple_binds_def)
  show "no_errors (scripted_server script) ld"
    by (simp add: no_errors_def diagnostics_ok_def scripted_server_def)
qed

lemma scripted_server_ids [simp]:
  "bind_id (scripted_server script) ld i \<longleftrightarrow> i = 1"
  "search_id (scripted_server script) ld dn flt attr i \<longleftrightarrow> i = scripted_id (Some [attr])"
  "fst (ldap_result (scripted_server script) ld m w) = script m"
  by (auto simp: scripted_server_def bind_id_def search_id_def)

lemma scripted_server_listed:
  assumes "script m = scripted_answer m vs" and "map c_str vs = vs"
  shows "listed (scripted_server script) ld m vs"
  unfolding listed_def using assms
  by (intro exI [of _ LDAP_RES_SEARCH_ENTRY]) (simp add: scripted_answer_def)


definition demo_active_directory :: "(demo_world, demo_table) ext" where
  "demo_active_directory = scripted_server (\<lambda>m. if m = 3 then scripted_answer 3 [print_attribute_type demo_type]
     else if m = 4 then scripted_answer 4 [print_object_class demo_class] else scripted_answer m [''cn=aggregate''])"


end
