(* ===== verification/Ldap_Syntaxes.thy ===== *)
theory Ldap_Syntaxes
  imports Ragel_Machines
begin

text \<open>
  The LDAP attribute syntaxes: the machines of \<open>src/src/syntaxes/*.rl\<close>, rule by rule under the
  names of the grammar files, and the validators of \<open>src/src/ldap_syntaxes.c\<close>. A C string is its
  bytes before the terminating NUL; a NULL pointer is \<open>None\<close>. The lemmas give a closed description
  of what each integer validator accepts and relate the others to their grammars.
\<close>

section \<open>Rules shared by the grammar files\<close>

abbreviation rl_LDIGIT :: rl where "rl_LDIGIT \<equiv> rng 0x31 0x39"
abbreviation rl_DIGIT :: rl where "rl_DIGIT \<equiv> RAlt (lit ''0'') rl_LDIGIT"
abbreviation rl_ALPHA :: rl where "rl_ALPHA \<equiv> RAlt (rng 0x41 0x5a) (rng 0x61 0x7a)"
abbreviation rl_number :: rl where
  "rl_number \<equiv> RAlt rl_DIGIT (RSeq rl_LDIGIT (rplus rl_DIGIT))"
abbreviation rl_keystring :: rl where
  "rl_keystring \<equiv> RSeq rl_ALPHA (RStar (alts [rl_ALPHA, rl_DIGIT, lit ''-'']))"
abbreviation rl_numericoid :: rl where
  "rl_numericoid \<equiv> RSeq rl_number (rplus (RSeq (lit ''.'') rl_number))"

section \<open>The machines\<close>

definition rl_boolean :: rl where
  "rl_boolean = RAlt (lit_i ''TRUE'') (lit_i ''FALSE'')"

definition rl_integer :: rl where
  "rl_integer = RAlt (seqs [lit ''-'', rl_LDIGIT, RStar rl_DIGIT]) rl_number"

definition rl_octet_string :: rl where
  "rl_octet_string = RStar (rng 0x00 0xff)"

definition rl_oid :: rl where
  "rl_oid = RAlt rl_keystring rl_numericoid"

definition rl_numeric_string :: rl where
  "rl_numeric_string = rplus (RAlt rl_DIGIT (lit '' ''))"

definition rl_printable_string :: rl where
  "rl_printable_string =
     rplus (alts [rl_ALPHA, rl_DIGIT, byte 39, lit ''('', lit '')'', lit ''+'', lit '','', lit ''-'',
                  lit ''.'', lit ''='', lit ''/'', lit '':'', lit ''?'', lit '' ''])"

definition rl_ia5string :: rl where
  "rl_ia5string = RStar (rng 0x00 0x7f)"

text \<open>UTF-8, as in \<open>directory_string.rl\<close> and \<open>dn.rl\<close>.\<close>

definition rl_UTF0 :: rl where "rl_UTF0 = rng 0x80 0xbf"

definition rl_UTFMB :: rl where
  "rl_UTFMB =
     alts
      [RSeq (rng 0xc2 0xdf) rl_UTF0,
       alts [seqs [byte 0xe0, rng 0xa0 0xbf, rl_UTF0],
             seqs [rng 0xe1 0xec, rl_UTF0, rl_UTF0],
             seqs [byte 0xed, rng 0x80 0x9f, rl_UTF0],
             seqs [rng 0xee 0xef, rl_UTF0, rl_UTF0]],
       alts [seqs [byte 0xf0, rng 0x90 0xbf, rl_UTF0, rl_UTF0],
             seqs [rng 0xf1 0xf3, rl_UTF0, rl_UTF0, rl_UTF0],
             seqs [byte 0xf4, rng 0x80 0x8f, rl_UTF0, rl_UTF0]]]"

definition rl_directory_string :: rl where
  "rl_directory_string = rplus (RAlt (rng 0x00 0x7f) rl_UTFMB)"

definition rl_month :: rl where
  "rl_month = RAlt (RSeq (lit ''0'') (rng 0x31 0x39)) (RSeq (lit ''1'') (rng 0x30 0x32))"

definition rl_day :: rl where
  "rl_day = alts [RSeq (lit ''0'') (rng 0x31 0x39), RSeq (rng 0x31 0x32) (rng 0x30 0x39),
                  RSeq (lit ''3'') (rng 0x30 0x31)]"

definition rl_hour :: rl where
  "rl_hour = RAlt (RSeq (rng 0x30 0x31) (rng 0x30 0x39)) (RSeq (lit ''2'') (rng 0x30 0x33))"

abbreviation rl_minute :: rl where "rl_minute \<equiv> RSeq (rng 0x30 0x35) (rng 0x30 0x39)"
abbreviation rl_second :: rl where "rl_second \<equiv> RSeq (rng 0x30 0x35) (rng 0x30 0x39)"
abbreviation rl_two_digits :: rl where "rl_two_digits \<equiv> RSeq (rng 0x30 0x39) (rng 0x30 0x39)"

definition rl_utc_time :: rl where
  "rl_utc_time =
     seqs [rl_two_digits, rl_month, rl_day, rl_hour, rl_minute, ropt rl_second,
           ropt (RAlt (byte 0x5a) (seqs [RAlt (lit ''-'') (lit ''+''), rl_hour, rl_minute]))]"

definition rl_generalized_time :: rl where
  "rl_generalized_time =
     seqs [rl_two_digits, rl_two_digits, rl_month, rl_day, rl_hour,
           ropt (RSeq rl_minute (ropt (RAlt rl_second (lit ''60'')))),
           ropt (RSeq (RAlt (lit ''.'') (lit '','')) (rplus (rng 0x30 0x39))),
           RAlt (byte 0x5a) (seqs [RAlt (lit ''-'') (lit ''+''), rl_hour, ropt rl_minute])]"

definition rl_hexpair :: rl where
  "rl_hexpair = RSeq (alts [rl_DIGIT, rng 0x41 0x46, rng 0x61 0x66])
                     (alts [rl_DIGIT, rng 0x41 0x46, rng 0x61 0x66])"

text \<open>\<open>pair\<close>: a backslash (0x5c) before a special character, itself or two hexadecimal digits.\<close>

definition rl_pair :: rl where
  "rl_pair =
     RSeq (byte 0x5c)
       (alts [byte 0x5c,
              alts [alts [byte 0x22, lit ''+'', lit '','', lit '';'', lit ''<'', lit ''>''],
                    lit '' '', lit ''#'', lit ''=''],
              rl_hexpair])"

definition rl_dn_string :: rl where
  "rl_dn_string =
     (let leadchar = RAlt (alts [rng 0x01 0x1f, lit ''!'', rng 0x24 0x2a, rng 0x2d 0x3a, lit ''='',
                                 rng 0x3f 0x5b, rng 0x5d 0x7f]) rl_UTFMB;
          stringchar = RAlt (alts [rng 0x01 0x21, rng 0x23 0x2a, rng 0x2d 0x3a, lit ''='',
                                   rng 0x3f 0x5b, rng 0x5d 0x7f]) rl_UTFMB;
          trailchar = RAlt (alts [rng 0x01 0x1f, lit ''!'', rng 0x23 0x2a, rng 0x2d 0x3a, lit ''='',
                                  rng 0x3f 0x5b, rng 0x5d 0x7f]) rl_UTFMB
      in ropt (RSeq (RAlt leadchar rl_pair)
                    (ropt (RSeq (RStar (RAlt stringchar rl_pair)) (RAlt trailchar rl_pair)))))"

definition rl_dn :: rl where
  "rl_dn =
     (let attributeValue = RAlt rl_dn_string (RSeq (lit ''#'') (rplus rl_hexpair));
          attributeTypeAndValue = seqs [RAlt rl_keystring rl_numericoid, lit ''='', attributeValue];
          rdn = RSeq attributeTypeAndValue (RStar (RSeq (lit ''+'') attributeTypeAndValue))
      in ropt (RSeq rdn (RStar (RSeq (lit '','') rdn))))"

section \<open>The generated recognisers\<close>

definition is_boolean :: "string \<Rightarrow> bool" where "is_boolean s = ragel_exec rl_boolean s"
definition is_integer :: "string \<Rightarrow> bool" where "is_integer s = ragel_exec rl_integer s"
definition is_octet_string :: "string \<Rightarrow> bool" where "is_octet_string s = ragel_exec rl_octet_string s"
definition is_oid :: "string \<Rightarrow> bool" where "is_oid s = ragel_exec rl_oid s"
definition is_numeric_string :: "string \<Rightarrow> bool" where
  "is_numeric_string s = ragel_exec rl_numeric_string s"
definition is_printable_string :: "string \<Rightarrow> bool" where
  "is_printable_string s = ragel_exec rl_printable_string s"
definition is_ia5string :: "string \<Rightarrow> bool" where "is_ia5string s = ragel_exec rl_ia5string s"
definition is_directory_string :: "string \<Rightarrow> bool" where
  "is_directory_string s = ragel_exec rl_directory_string s"
definition is_utc_time :: "string \<Rightarrow> bool" where "is_utc_time s = ragel_exec rl_utc_time s"
definition is_generalized_time :: "string \<Rightarrow> bool" where
  "is_generalized_time s = ragel_exec rl_generalized_time s"
definition is_dn :: "string \<Rightarrow> bool" where "is_dn s = ragel_exec rl_dn s"

section \<open>\<open>strtol\<close> and \<open>strtoll\<close> in base 10\<close>

text \<open>
  The C library's conversion: leading white space, an optional sign, the longest run of digits.
  Without digits the result is 0; out of range it saturates and sets \<open>errno\<close> (the second
  component). \<open>long\<close> and \<open>long long\<close> have 64 bits on the supported x86-64 platform.
\<close>

abbreviation (input) INT64_MIN :: int where "INT64_MIN \<equiv> -9223372036854775808"
abbreviation (input) INT64_MAX :: int where "INT64_MAX \<equiv> 9223372036854775807"

definition is_digit_char :: "char \<Rightarrow> bool" where
  "is_digit_char c \<longleftrightarrow> (48::nat) \<le> of_char c \<and> of_char c \<le> (57::nat)"

definition is_space_char :: "char \<Rightarrow> bool" where
  "is_space_char c \<longleftrightarrow> of_char c = (32::nat) \<or> ((9::nat) \<le> of_char c \<and> of_char c \<le> (13::nat))"

definition dec :: "string \<Rightarrow> int" where
  "dec ds = foldl (\<lambda>a c. 10 * a + (of_char c - 48)) 0 ds"

definition strto10 :: "int \<Rightarrow> int \<Rightarrow> string \<Rightarrow> int \<times> bool" where
  "strto10 lo hi s =
     (let s1 = dropWhile is_space_char s;
          (neg, s2) = (case s1 of
                         [] \<Rightarrow> (False, [])
                       | c # r \<Rightarrow> if c = CHR ''-'' then (True, r)
                                 else if c = CHR ''+'' then (False, r) else (False, c # r));
          ds = takeWhile is_digit_char s2;
          v = (if neg then - dec ds else dec ds)
      in if ds = [] then (0, False)
         else if v < lo then (lo, True) else if v > hi then (hi, True) else (v, False))"

section \<open>The validators\<close>

text \<open>\<open>!value || strlen(value) == 0\<close> returns false before the machine runs.\<close>

definition nonempty_and :: "(string \<Rightarrow> bool) \<Rightarrow> string option \<Rightarrow> bool" where
  "nonempty_and f value = (case value of None \<Rightarrow> False | Some s \<Rightarrow> if length s = 0 then False else f s)"

definition validate_boolean :: "string option \<Rightarrow> bool" where
  "validate_boolean value = nonempty_and is_boolean value"

definition validate_integer :: "string option \<Rightarrow> bool" where
  "validate_integer value = nonempty_and (\<lambda>s.
     if length s \<ge> 12 then False
     else if is_integer s then
       (let (ivalue, errno) = strto10 INT64_MIN INT64_MAX s in
        if errno then False
        else if ivalue < -2147483648 \<or> ivalue > 2147483647 then False else True)
     else False) value"

definition validate_octet_string :: "string option \<Rightarrow> bool" where
  "validate_octet_string value = nonempty_and is_octet_string value"

definition validate_oid :: "string option \<Rightarrow> bool" where
  "validate_oid value = nonempty_and is_oid value"

definition validate_numeric_string :: "string option \<Rightarrow> bool" where
  "validate_numeric_string value = nonempty_and is_numeric_string value"

definition validate_printable_string :: "string option \<Rightarrow> bool" where
  "validate_printable_string value = nonempty_and is_printable_string value"

definition validate_case_ignore_string :: "string option \<Rightarrow> bool" where
  "validate_case_ignore_string value = nonempty_and is_directory_string value"

definition validate_ia5_string :: "string option \<Rightarrow> bool" where
  "validate_ia5_string value = (case value of None \<Rightarrow> False | Some s \<Rightarrow> is_ia5string s)"

definition validate_utc_time :: "string option \<Rightarrow> bool" where
  "validate_utc_time value = nonempty_and is_utc_time value"

definition validate_generalized_time :: "string option \<Rightarrow> bool" where
  "validate_generalized_time value = nonempty_and is_generalized_time value"

definition validate_case_sensitive_string :: "string option \<Rightarrow> bool" where
  "validate_case_sensitive_string value = nonempty_and is_directory_string value"

definition validate_directory_string :: "string option \<Rightarrow> bool" where
  "validate_directory_string value = nonempty_and is_directory_string value"

definition validate_large_integer :: "string option \<Rightarrow> bool" where
  "validate_large_integer value = nonempty_and (\<lambda>s.
     if length s \<ge> 21 then False
     else if is_integer s then
       (let (ivalue, errno) = strto10 INT64_MIN INT64_MAX s in if errno then False else True)
     else False) value"

definition validate_object_security_descriptor :: "string option \<Rightarrow> bool" where
  "validate_object_security_descriptor value = False"

definition validate_dn :: "string option \<Rightarrow> bool" where
  "validate_dn value = nonempty_and is_dn value"

definition validate_dn_with_octet_string :: "string option \<Rightarrow> bool" where
  "validate_dn_with_octet_string value = nonempty_and is_dn value"

definition validate_dn_with_string :: "string option \<Rightarrow> bool" where
  "validate_dn_with_string value = nonempty_and is_dn value"

definition validate_or_name :: "string option \<Rightarrow> bool" where
  "validate_or_name value = False"

definition validate_presentation_address :: "string option \<Rightarrow> bool" where
  "validate_presentation_address value = False"

definition validate_access_point :: "string option \<Rightarrow> bool" where
  "validate_access_point value = False"

section \<open>Every machine is free of dead states\<close>

lemma live_lit [simp]: "live (lit s)"
proof (induction s)
  case (Cons c s)
  have "(of_char c :: nat) < 256" by simp
  with Cons show ?case by simp
qed simp

lemma live_lit_i [simp]: "live (lit_i s)"
proof (induction s)
  case (Cons c s)
  have "(of_char c :: nat) < 256" by simp
  with Cons show ?case by (auto simp: letter_classes_def)
qed simp

lemmas syntax_machines =
  rl_boolean_def rl_integer_def rl_octet_string_def rl_oid_def rl_numeric_string_def
  rl_printable_string_def rl_ia5string_def rl_UTF0_def rl_UTFMB_def rl_directory_string_def
  rl_month_def rl_day_def rl_hour_def rl_utc_time_def rl_generalized_time_def rl_hexpair_def
  rl_pair_def rl_dn_string_def rl_dn_def

lemma live_machines [simp]:
  "live rl_boolean" "live rl_integer" "live rl_octet_string" "live rl_oid" "live rl_numeric_string"
  "live rl_printable_string" "live rl_ia5string" "live rl_directory_string" "live rl_utc_time"
  "live rl_generalized_time" "live rl_dn"
  by (simp_all add: syntax_machines letter_classes_def Let_def del: lit.simps)

section \<open>Which strings are integers\<close>

lemma in_cls_byte [simp]: "in_cls [(of_char d, of_char d)] c \<longleftrightarrow> c = d"
  by (auto simp: in_cls_def intro: inj_of_char [THEN injD] dest: order.antisym)

lemma lang_lit1 [simp]: "rl_lang (lit [d]) = {[d]}"
  by auto

definition is_lead_digit :: "char \<Rightarrow> bool" where
  "is_lead_digit c \<longleftrightarrow> (49::nat) \<le> of_char c \<and> of_char c \<le> (57::nat)"

lemma lang_LDIGIT: "rl_lang rl_LDIGIT = {[c] |c. is_lead_digit c}"
  by (simp add: in_cls_def is_lead_digit_def)

lemma char0_iff: "c = CHR ''0'' \<longleftrightarrow> of_char c = (48 :: nat)"
proof -
  have "of_char (CHR ''0'') = (48 :: nat)" by simp
  then show ?thesis using inj_of_char [THEN injD, of c "CHR ''0''"] by metis
qed

lemma lang_DIGIT: "rl_lang rl_DIGIT = {[c] |c. is_digit_char c}"
proof -
  have "is_digit_char c \<longleftrightarrow> c = CHR ''0'' \<or> is_lead_digit c" for c
    unfolding char0_iff by (auto simp: is_lead_digit_def is_digit_char_def)
  then show ?thesis using lang_LDIGIT by (auto simp del: lit.simps)
qed

lemma lang_DIGITs: "rl_lang (RStar rl_DIGIT) = {w. list_all is_digit_char w}"
  by (simp only: rl_lang.simps(5) lang_DIGIT set_eq_iff star_cls mem_Collect_eq) simp

text \<open>The integer literals of RFC 4512: no leading zero, no negative zero.\<close>

fun is_int_literal :: "string \<Rightarrow> bool" where
  "is_int_literal [] = False"
| "is_int_literal [c] = is_digit_char c"
| "is_int_literal (c # d # ds) =
     ((if c = CHR ''-'' then is_lead_digit d else is_lead_digit c \<and> is_digit_char d) \<and>
      list_all is_digit_char ds)"

lemma not_minus_digit [simp]: "\<not> is_digit_char (CHR ''-'')" "\<not> is_lead_digit (CHR ''-'')"
  by (simp_all add: is_digit_char_def is_lead_digit_def)

lemma lead_digit_digit: "is_lead_digit c \<Longrightarrow> is_digit_char c"
  by (simp add: is_digit_char_def is_lead_digit_def)

lemma seq_single: "{u @ v |u v. u \<in> {[c] |c. P c} \<and> v \<in> S} = {c # v |c v. P c \<and> v \<in> S}"
  by (rule set_eqI) (simp, metis append_Cons append_Nil)

lemma seq_const: "{u @ v |u v. u \<in> {[c]} \<and> v \<in> S} = {c # v |v. v \<in> S}"
  by force

lemma lang_integer: "s \<in> rl_lang rl_integer \<longleftrightarrow> is_int_literal s"
proof -
  have neg: "s \<in> rl_lang (seqs [lit ''-'', rl_LDIGIT, RStar rl_DIGIT]) \<longleftrightarrow>
      (\<exists>d ds. s = CHR ''-'' # d # ds \<and> is_lead_digit d \<and> list_all is_digit_char ds)"
    unfolding seqs.simps rl_lang.simps(3) lang_lit1 lang_LDIGIT lang_DIGITs seq_single seq_const by auto
  have num: "s \<in> rl_lang rl_number \<longleftrightarrow>
      (\<exists>c. s = [c] \<and> is_digit_char c) \<or>
      (\<exists>c d ds. s = c # d # ds \<and> is_lead_digit c \<and> is_digit_char d \<and> list_all is_digit_char ds)"
    unfolding rl_lang.simps(3) rl_lang.simps(4) [of rl_DIGIT "RSeq rl_LDIGIT (rplus rl_DIGIT)"]
      lang_LDIGIT lang_DIGITs lang_DIGIT seq_single by auto
  show ?thesis
    unfolding rl_integer_def rl_lang.simps(4) [of "seqs _"] Un_iff neg num
    by (cases s rule: is_int_literal.cases) auto
qed

lemma is_integer_iff: "is_integer s \<longleftrightarrow> s = [] \<or> s = ''-'' \<or> is_int_literal s"
proof -
  have "(\<exists>t. is_int_literal (s @ t)) \<longleftrightarrow> s = [] \<or> s = ''-'' \<or> is_int_literal s"
  proof
    assume "\<exists>t. is_int_literal (s @ t)"
    then obtain t where "is_int_literal (s @ t)" ..
    then show "s = [] \<or> s = ''-'' \<or> is_int_literal s"
      by (cases s rule: is_int_literal.cases; cases t)
        (auto simp: lead_digit_digit split: if_splits)
  next
    have "is_int_literal (''0'')" "is_int_literal (''-1'')"
      by (simp_all add: is_digit_char_def is_lead_digit_def)
    then show "s = [] \<or> s = ''-'' \<or> is_int_literal s \<Longrightarrow> \<exists>t. is_int_literal (s @ t)"
      by (metis append.left_neutral append.right_neutral append_Cons)
  qed
  then show ?thesis by (simp add: is_integer_def ragel_exec_viable lang_integer)
qed

section \<open>Values and lengths\<close>

definition int_value :: "string \<Rightarrow> int" where
  "int_value s = (case s of c # r \<Rightarrow> if c = CHR ''-'' then - dec r else dec s | [] \<Rightarrow> 0)"

lemma dec_snoc: "dec (ds @ [c]) = 10 * dec ds + (of_char c - 48)"
  by (simp add: dec_def)

lemma digit_bounds: "is_digit_char c \<Longrightarrow> (48::int) \<le> of_char c \<and> of_char c \<le> (57::int)"
proof -
  have "(of_char c :: int) = int (of_char c)" by (rule of_nat_of_char [symmetric])
  then show "is_digit_char c \<Longrightarrow> ?thesis" by (simp only: is_digit_char_def) linarith
qed

lemma dec_upper: "list_all is_digit_char ds \<Longrightarrow> 0 \<le> dec ds \<and> dec ds < 10 ^ length ds"
proof (induction ds rule: rev_induct)
  case Nil
  then show ?case by (simp add: dec_def)
next
  case (snoc c ds)
  then show ?case using digit_bounds [of c] by (simp add: dec_snoc)
qed

lemma dec_lower:
  assumes "is_lead_digit d" and "list_all is_digit_char ds"
  shows "10 ^ length ds \<le> dec (d # ds)"
  using assms(2)
proof (induction ds rule: rev_induct)
  case Nil
  have "(of_char d :: int) = int (of_char d)" by (rule of_nat_of_char [symmetric])
  with assms(1) show ?case by (simp only: is_lead_digit_def dec_def) simp
next
  case (snoc c ds)
  then show ?case using digit_bounds [of c] dec_snoc [of "d # ds" c] by simp
qed

lemma takeWhile_digits: "list_all is_digit_char ds \<Longrightarrow> takeWhile is_digit_char ds = ds"
  by (simp add: list_all_iff)

lemma digit_not_space [simp]: "is_digit_char c \<Longrightarrow> \<not> is_space_char c"
  by (auto simp: is_digit_char_def is_space_char_def)

lemma minus_not_space [simp]: "\<not> is_space_char (CHR ''-'')"
  by (simp add: is_space_char_def)

lemma plus_not_digit [simp]: "\<not> is_digit_char (CHR ''+'')"
  by (simp add: is_digit_char_def)

text \<open>On an integer literal the conversion reads the whole string.\<close>

lemma strto10_literal:
  assumes "is_int_literal s"
  shows "strto10 lo hi s =
    (if int_value s < lo then (lo, True) else if int_value s > hi then (hi, True)
     else (int_value s, False))"
proof -
  consider (one) c where "s = [c]" "is_digit_char c"
    | (neg) d ds where "s = CHR ''-'' # d # ds" "is_digit_char d" "list_all is_digit_char ds"
    | (pos) c d ds where "s = c # d # ds" "is_digit_char c" "is_digit_char d" "list_all is_digit_char ds"
    using assms by (cases s rule: is_int_literal.cases) (auto simp: lead_digit_digit split: if_splits)
  then show ?thesis
  proof cases
    case one
    then show ?thesis by (auto simp: strto10_def int_value_def)
  next
    case neg
    then show ?thesis by (simp add: strto10_def int_value_def takeWhile_digits)
  next
    case pos
    then have "c \<noteq> CHR ''-''" "c \<noteq> CHR ''+''" by auto
    with pos show ?thesis by (simp add: strto10_def int_value_def takeWhile_digits)
  qed
qed

lemma int_literal_length:
  assumes "is_int_literal s" and "\<bar>int_value s\<bar> < 10 ^ k" and "0 < k"
  shows "length s \<le> (if 0 \<le> int_value s then k else Suc k)"
proof -
  have bound: "length ds < k" if "is_lead_digit d" "list_all is_digit_char ds" "dec (d # ds) < 10 ^ k" for d ds
  proof -
    have "(10::int) ^ length ds < 10 ^ k" using dec_lower [OF that(1,2)] that(3) by linarith
    then show ?thesis by simp
  qed
  have nonneg: "0 < dec (d # ds)" if "is_lead_digit d" "list_all is_digit_char ds" for d ds
    using dec_lower [OF that] by (smt (verit) zero_less_power)
  show ?thesis
    using assms
  proof (cases s rule: is_int_literal.cases)
    case (3 c d ds)
    show ?thesis
    proof (cases "c = CHR ''-''")
      case True
      then have d: "is_lead_digit d" "list_all is_digit_char ds" using 3 assms(1) by auto
      then show ?thesis
        using 3 True assms(2) bound [OF d] nonneg [OF d] by (simp add: int_value_def)
    next
      case False
      then have c: "is_lead_digit c" "list_all is_digit_char (d # ds)" using 3 assms(1) by auto
      then show ?thesis
        using 3 False assms(2) bound [OF c] nonneg [OF c] by (simp add: int_value_def)
    qed
  qed auto
qed

section \<open>What the validators accept\<close>

lemma nonempty_and_Some [simp]: "nonempty_and f (Some s) \<longleftrightarrow> s \<noteq> [] \<and> f s"
  by (simp add: nonempty_and_def)

lemma nonempty_and_None [simp]: "\<not> nonempty_and f None"
  by (simp add: nonempty_and_def)

lemma strto10_minus: "strto10 lo hi ''-'' = (0, False)"
  by (simp add: strto10_def)

lemma validate_integer_literal:
  assumes lit: "is_int_literal s"
  shows "validate_integer (Some s) \<longleftrightarrow> -2147483648 \<le> int_value s \<and> int_value s \<le> 2147483647"
proof -
  have ne: "s \<noteq> []" using lit by auto
  have "length s \<le> 11" if "-2147483648 \<le> int_value s" "int_value s \<le> 2147483647"
  proof -
    have "\<bar>int_value s\<bar> < 10 ^ 10" using that by simp
    then show ?thesis using int_literal_length [OF lit, of 10] by (simp split: if_splits)
  qed
  with ne show ?thesis
    by (auto simp: validate_integer_def is_integer_iff lit strto10_literal Let_def)
qed

lemma validate_large_integer_literal:
  assumes lit: "is_int_literal s"
  shows "validate_large_integer (Some s) \<longleftrightarrow> INT64_MIN \<le> int_value s \<and> int_value s \<le> INT64_MAX"
proof -
  have ne: "s \<noteq> []" using lit by auto
  have "length s \<le> 20" if "INT64_MIN \<le> int_value s" "int_value s \<le> INT64_MAX"
  proof -
    have "\<bar>int_value s\<bar> < 10 ^ 19" using that by simp
    then show ?thesis using int_literal_length [OF lit, of 19] by (simp split: if_splits)
  qed
  with ne show ?thesis
    by (auto simp: validate_large_integer_def is_integer_iff lit strto10_literal Let_def)
qed

lemma validate_integers_not_literal:
  assumes "\<not> is_int_literal s"
  shows "validate_integer (Some s) \<longleftrightarrow> s = ''-''" and "validate_large_integer (Some s) \<longleftrightarrow> s = ''-''"
  using assms
  by (auto simp: validate_integer_def validate_large_integer_def is_integer_iff strto10_minus)

text \<open>
  C32: \<open>validate_integer\<close> accepts exactly the integer literals whose value fits 32 bits (the length
  limit of 11 characters cuts none of them off), and by mistake the lone minus sign, which its state
  machine has not rejected yet.
\<close>

theorem validate_integer_exact:
  "validate_integer (Some s) \<longleftrightarrow>
     s = ''-'' \<or> (is_int_literal s \<and> -2147483648 \<le> int_value s \<and> int_value s \<le> 2147483647)"
  using validate_integer_literal [of s] validate_integers_not_literal [of s]
  by (cases "is_int_literal s") (auto simp: is_digit_char_def)

text \<open>
  \<open>validate_large_integer\<close> accepts exactly the integer literals that fit 64 bits, and again
  the lone minus sign.
\<close>

theorem validate_large_integer_exact:
  "validate_large_integer (Some s) \<longleftrightarrow>
     s = ''-'' \<or> (is_int_literal s \<and> INT64_MIN \<le> int_value s \<and> int_value s \<le> INT64_MAX)"
  using validate_large_integer_literal [of s] validate_integers_not_literal [of s]
  by (cases "is_int_literal s") (auto simp: is_digit_char_def)



text \<open>Syntaxes that only restrict the characters: a prefix of a value is a value.\<close>

lemma lang_rplus_class:
  assumes "rl_lang r = {[c] |c. P c}"
  shows "rl_lang (rplus r) = {w. w \<noteq> [] \<and> list_all P w}"
  unfolding rl_lang.simps(3) rl_lang.simps(5) assms seq_single
  by (auto simp: star_cls neq_Nil_conv)

lemma rplus_class_prefix:
  assumes "rl_lang r = {[c] |c. P c}" and "s \<noteq> []"
  shows "(\<exists>t. s @ t \<in> rl_lang (rplus r)) \<longleftrightarrow> list_all P s"
  unfolding lang_rplus_class [OF assms(1)] using assms(2) by (auto intro: exI [of _ "[]"])


definition single :: "rl \<Rightarrow> (nat \<Rightarrow> bool) \<Rightarrow> bool" where
  "single r P \<longleftrightarrow> rl_lang r = {[c] |c. P (of_char c)}"

lemma single_intros:
  "single (rng lo hi) (\<lambda>n. lo \<le> n \<and> n \<le> hi)"
  "of_char d = k \<Longrightarrow> single (lit [d]) (\<lambda>n. n = k)"
  "single r P \<Longrightarrow> single q Q \<Longrightarrow> single (RAlt r q) (\<lambda>n. P n \<or> Q n)"
  by (auto simp: single_def in_cls_def)

definition is_printable_code :: "nat \<Rightarrow> bool" where
  "is_printable_code n \<longleftrightarrow>
     ((65 \<le> n \<and> n \<le> 90) \<or> (97 \<le> n \<and> n \<le> 122)) \<or> (n = 48 \<or> (49 \<le> n \<and> n \<le> 57)) \<or>
     (39 \<le> n \<and> n \<le> 39) \<or> n = 40 \<or> n = 41 \<or> n = 43 \<or> n = 44 \<or> n = 45 \<or> n = 46 \<or>
     n = 61 \<or> n = 47 \<or> n = 58 \<or> n = 63 \<or> n = 32"

lemma lang_printable_char:
  "single (alts [rl_ALPHA, rl_DIGIT, byte 39, lit ''('', lit '')'', lit ''+'', lit '','', lit ''-'',
     lit ''.'', lit ''='', lit ''/'', lit '':'', lit ''?'', lit '' '']) is_printable_code"
  unfolding alts.simps is_printable_code_def [abs_def] by (intro single_intros) simp_all


text \<open>
  Truncated values pass: a boolean, an integer, an object identifier and two times that are not
  values of their syntax are accepted by its validator.
\<close>

theorem validators_accept_truncated_values:
  "validate_boolean (Some ''TR'') \<and> ''TR'' \<notin> rl_lang rl_boolean
   \<and> validate_integer (Some ''-'') \<and> ''-'' \<notin> rl_lang rl_integer
   \<and> validate_oid (Some ''1.'') \<and> ''1.'' \<notin> rl_lang rl_oid
   \<and> validate_utc_time (Some ''1304'') \<and> ''1304'' \<notin> rl_lang rl_utc_time
   \<and> validate_generalized_time (Some ''2020'') \<and> ''2020'' \<notin> rl_lang rl_generalized_time"
  unfolding ragel_final_lang [symmetric] by code_simp

end
