(* ===== verification/Spec2Isabelle.thy ===== *)
theory Spec2Isabelle
  imports Schema_Session Ldap_Syntaxes
begin

text \<open>
  A verification development for libdomain, a C library that manages the entries of an LDAP directory
  (OpenLDAP, Active Directory, FreeIPA) over one asynchronous connection.

  \<^bold>\<open>The program.\<close> An application loads a configuration and starts a session (\<open>domain.c\<close>). A timer drives the
  state machine of the connection (\<open>connection_state_machine.c\<close>) from INIT over TLS and bind
  (\<open>connection.c\<close>), the detection of the kind of directory (\<open>directory.c\<close>) and the loading of the schema
  (\<open>openldap_schema.c\<close>, \<open>ad_schema.c\<close>, \<open>schema.c\<close>) to RUN. Every request (\<open>entry.c\<close>, called by \<open>user.c\<close>,
  \<open>group.c\<close>, \<open>computer.c\<close>, \<open>organizational_unit.c\<close>, \<open>attribute.c\<close>) takes a slot of a fixed table and is pushed
  on a queue (\<open>request_queue.c\<close>); when the socket is readable, \<open>connection_on_read\<close> polls libldap for every
  queued request, runs the handler of each answered one and enqueues the others again. Values of attributes
  are validated by machines that Ragel generates from \<open>syntaxes/*.rl\<close> (\<open>ldap_syntaxes.c\<close>).

  \<^bold>\<open>The theories.\<close>
  \<^item> \<open>LD_Prelude\<close>: return codes, protocol constants, pointers, lemmas on options and chains of nodes.
  \<^item> \<open>Request_Queue\<close> (\<open>request_queue.c\<close>): queues over a store of nodes, so that aliasing behaves as in C; the
    locale \<open>fifo_queue\<close> is the contract of a bounded FIFO, and the interpretation \<open>rq\<close> discharges it.
  \<^item> \<open>Connection_State\<close> (the records and enumerations of the headers), \<open>Externals\<close> (libldap, talloc, glib, verto
    and the application's callbacks as a record of functions on an abstract world), \<open>Demo_World\<close> (an instance
    that computes, for witnesses).
  \<^item> \<open>Entry\<close> (\<open>entry.c\<close>): requests, answers, entries and their attributes. \<open>Directory\<close> (\<open>directory.c\<close>).
    \<open>Schema\<close> (\<open>schema.c\<close>): the locale \<open>element_store\<close> is the contract of a table of elements under an OID and
    names, with interpretations for attribute types and object classes. \<open>Schema_Load\<close> (\<open>openldap_schema.c\<close>,
    \<open>ad_schema.c\<close>): the locale \<open>element_loader\<close> extends it with the callback that stores one value.
  \<^item> \<open>Connection\<close> (\<open>connection.c\<close>): configuring, TLS, bind, closing. \<open>Request_Tables\<close>: the frame of everything
    that may run inside a handler. \<open>Event_Loop\<close> (\<open>connection_on_read\<close>): the locale \<open>read_handlers\<close> says what
    the loop asks of the handlers; the interpretation \<open>rh\<close> discharges it for all handlers of the library.
  \<^item> \<open>State_Machine\<close> (\<open>connection_state_machine.c\<close>, \<open>connection_update\<close>): one step of the machine, its edges
    as an inductive relation, and the reachable states of a connection under ticks, readable sockets and
    requests of the application.
  \<^item> \<open>Domain\<close> (\<open>domain.c\<close>, \<open>domain_p.h\<close>): configurations, sessions, operations on entries.
    \<open>Directory_Objects\<close>: users, groups, computers, units, attributes; the locale \<open>entry_container\<close> is the
    contract of a temporary context around an operation on an entry, with interpretations for users,
    computers and the lockout attributes of users.
  \<^item> \<open>Session\<close>: the round of the event loop that answers a starting session, and what the machine makes of
    each kind of directory. \<open>Schema_Session\<close>: the rounds that deliver the answers to the searches of a schema,
    the ticks of the machine around them, for OpenLDAP and for Active Directory.
  \<^item> \<open>Ragel_Machines\<close> and \<open>Ldap_Syntaxes\<close>: regular expressions run by partial derivatives, the grammars, and
    the validators of \<open>ldap_syntaxes.c\<close>.
  \<^item> \<open>Ragel_Actions\<close>: machines with embedded actions, the order in which the actions of one character run, and
    the machine of every grammar with its actions erased. \<open>Description_Parsing\<close>: the rules the two parsers share,
    the symbols their actions copy out of the input, and a calculus (\<open>reads\<close>) of what a machine makes of a
    text; the locales \<open>symbol_actions\<close> and \<open>named_description\<close> are the contracts of one symbol and of the list
    of names. \<open>Attribute_Type_Parser\<close> (\<open>attribute_type_parser.rl\<close>) and \<open>Object_Class_Parser\<close>
    (\<open>object_class_parser.rl\<close>): rules, actions and entry points, with interpretations of both locales.

  \<^bold>\<open>Conventions.\<close> A C function is a HOL function from the connection (which carries the world, so that the
  order of external calls is part of the state) to an \<open>option\<close>: \<open>None\<close> is undefined behaviour, a NULL
  dereference, a use after free, an index outside of a table, a read of uninitialised memory. Return codes are
  the enumeration of \<open>common.h\<close>; NULL is \<open>None\<close> for data and \<open>Null\<close> for handles that can dangle; allocations ask
  the world and may fail. Signed table indices are \<open>int\<close>; the unsigned capacity of a queue is a 32-bit word
  converted to a signed one as the code does.

  \<^bold>\<open>What the lemmas show.\<close> The queue refines a list; requests enqueue exactly one record, answers yield the
  documented codes, and the table overruns beyond 8192 requests; configurations leave the connection ready or
  dangling; the event loop keeps the invariant of the tables and loses no unanswered request, unless libldap
  fails to report its error; the machine follows its edges, and its reachable states satisfy an invariant;
  every public operation sends the one request it stands for; validators accept exactly the strings that can
  be extended to a value; schema values read back as they were stored; the parsers of schema descriptions read
  back what printable descriptions print to and return only pieces of their input, and accept every beginning
  of a description. The theorems below compose the components from \<open>ld_init\<close> to the first request: without a
  schema, and with the schema that an OpenLDAP server describes; \<open>active_directory_loads_schema\<close> does the
  latter for Active Directory, whose session reaches RUN before its schema is there.

  \<^bold>\<open>Loops.\<close> Loops over data are structural. \<open>read_loop\<close> of the event loop and the loops of the schema loaders can
  run forever and are \<open>partial_function (option)\<close>: \<open>event_loop_returns\<close> shows that the first ends when
  only updates wait and libldap answers without errors, \<open>read_entry_reads_all_values\<close> and \<open>read_entry_never_returns\<close> when the second does
  and does not. No fuel is used; \<open>ticks\<close> counts timer events.

  \<^bold>\<open>Not modelled.\<close> The C files that Ragel generates (the grammars they come from are modelled), logging and what is only printed (\<open>common.c\<close>), the internals of libldap, talloc, glib, verto and libconfig
  (parameters), bindings, build files, tests and documentation. The SASL callback is modelled by its answers.
\<close>

section \<open>From the start of a session to its first request\<close>

text \<open>Sockets: libldap has a descriptor for every session.\<close>

definition descriptors_ok :: "('w, 'h) ext \<Rightarrow> bool" where
  "descriptors_ok E \<longleftrightarrow> (\<forall>ld w. fst (fst (ldap_get_int_option E ld LDAP_OPT_DESC w)) = LDAP_OPT_SUCCESS \<and>
     0 \<le> snd (fst (ldap_get_int_option E ld LDAP_OPT_DESC w)))"

lemma configured_can_install: "descriptors_ok E \<Longrightarrow> configured cfg c \<Longrightarrow> can_install E c"
  by (auto simp: can_install_def configured_def descriptors_ok_def)

lemma demo_descriptors_ok: "descriptors_ok demo_ext"
  by (simp add: descriptors_ok_def)

text \<open>
  The start of a session up to the answer that names the kind of directory: \<open>ld_init\<close>, three ticks, one round
  of the event loop.
\<close>

lemma session_detects:
  fixes E :: "('w, 'h) ext"
  assumes "services_ok E" and "descriptors_ok E" and "accepts_simple_binds E" and "accepts_searches E"
    and "username cfg = Some user" and "simple_bind cfg" and "\<not> use_sasl cfg" and "\<not> use_tls cfg"
  shows "\<exists>hl w' c1 m ld i j. ld_init E True (Some cfg) w = Some (Handle hl, w') \<and> global_config hl = cfg \<and>
    ticks E ev 3 (connection_ctx hl) = Some (True, c1) \<and> in_state m LDAP_CONNECTION_STATE_DETECT_DIRECTORY c1 \<and>
    outstanding c1 = [(i, Some BIND_ON_READ), (j, Some DIRECTORY_PARSE_RESULT)] \<and> ldap c1 = Valid ld \<and>
    bind_id E ld i \<and> search_id E ld '''' ''(objectClass=*)'' ''*'' j \<and>
    (\<forall>message. no_errors E ld \<and> (\<forall>w. fst (fst (ldap_result E ld i w)) = LDAP_RES_BIND) \<and>
        (\<forall>w. fst (ldap_result E ld j w) = (LDAP_RES_SEARCH_ENTRY, message)) \<longrightarrow>
      (\<exists>c2. connection_on_read (call_read_operation E) E c1 = Some c2 \<and>
         in_state m LDAP_CONNECTION_STATE_DETECT_DIRECTORY c2 \<and> knows_directory E m ld (answered message) c2))"
proof -
  let ?cfg = "connection_config cfg"
  obtain hl :: "('w, 'h) ldhandle" and w' d where hl: "ld_init E True (Some cfg) w = Some (Handle hl, w')" "global_config hl = cfg"
      "configured ?cfg (connection_ctx hl)" "has_handle (connection_ctx hl)" "ldap_defaults (connection_ctx hl) = Valid d"
      "ldap_params (connection_ctx hl) = Some \<lparr>sp_dn = Some (''cn='' @ user @ '','' @ base_dn cfg), sp_passwd = password cfg\<rparr>"
      "glib_ok E \<longrightarrow> fresh_schema E (connection_ctx hl)"
    using ld_init_started [OF assms(1,5,7,8), of w] by blast
  have plain: "\<not> use_start_tls ?cfg" "cfg_bind_type ?cfg = BIND_TYPE_SIMPLE"
    using assms(6,8) by (simp_all add: connection_config_def)
  obtain c1 m ld i j where up: "ticks E ev 3 (connection_ctx hl) = Some (True, c1)"
      "in_state m LDAP_CONNECTION_STATE_DETECT_DIRECTORY c1"
      "outstanding c1 = [(i, Some BIND_ON_READ), (j, Some DIRECTORY_PARSE_RESULT)]" "ldap c1 = Valid ld"
    and c1: "conn_inv c1" "directory_type c1 = LDAP_TYPE_UNINITIALIZED" "bind_type c1 = BIND_TYPE_SIMPLE"
      "schema c1 = schema (connection_ctx hl)" "schemas c1 = schemas (connection_ctx hl)"
      "has_handle c1 = has_handle (connection_ctx hl)" "n_search_requests c1 = 0"
    and ids: "bind_id E ld i" "search_id E ld '''' ''(objectClass=*)'' ''*'' j"
    using simple_bind_up [OF hl(3) plain hl(6,5) configured_can_install [OF assms(2) hl(3)] assms(3,4), of ev] by blast
  have "\<exists>c2. connection_on_read (call_read_operation E) E c1 = Some c2 \<and>
       in_state m LDAP_CONNECTION_STATE_DETECT_DIRECTORY c2 \<and> knows_directory E m ld (answered message) c2"
    if answers: "no_errors E ld" "\<forall>w. fst (fst (ldap_result E ld i w)) = LDAP_RES_BIND"
      "\<forall>w. fst (ldap_result E ld j w) = (LDAP_RES_SEARCH_ENTRY, message)" for message
  proof -
    obtain c2 where c2: "connection_on_read (call_read_operation E) E c1 = Some c2" "conn_inv c2" "ldap c2 = Valid ld"
        "outstanding c2 = []" "n_read_requests c2 = 0" "directory_type c2 = answered message"
        "state_machine c2 = state_machine c1" "machines c2 = machines c1" "schema c2 = schema c1" "schemas c2 = schemas c1"
        "has_handle c2 = has_handle c1" "n_search_requests c2 = n_search_requests c1"
      using answered_round [OF c1(1) up(4) c1(3,2) up(3) answers] by blast
    have "in_state m LDAP_CONNECTION_STATE_DETECT_DIRECTORY c2" using up(2) c2(7,8) by (simp add: in_state_def)
    moreover have "knows_directory E m ld (answered message) c2"
      using c2 c1 hl(4,7) up(2) by (simp add: knows_directory_def in_state_def fresh_schema_def)
    ultimately show ?thesis using c2(1) by blast
  qed
  then show ?thesis using hl(1,2) up ids by blast
qed

lemma user_addition_sent:
  fixes c :: "('w, 'h) conn"
  assumes "services_ok E" and "conn_inv c" and "ldap c = Valid ld" and "n_read_requests c = 0"
    and "directory_type c \<noteq> LDAP_TYPE_ACTIVE_DIRECTORY" and "name \<noteq> ''''" and "list_all filled as"
  shows "sends (hl\<lparr>connection_ctx := c\<rparr>) (\<lambda>ld. ldap_add_ext E ld
      (Some (''cn='' @ name @ '',ou=users,'' @ base_dn (global_config hl))) (Some (mods_of LDAP_MOD_ADD as)))
    ADD_ON_READ (seen (ld_add_user E (With_Handle (hl\<lparr>connection_ctx := c\<rparr>)) (Some name) (Some as) None))"
proof -
  let ?h = "hl\<lparr>connection_ctx := c\<rparr>"
  have "can_send E ?h" using assms(2-4) services_memory [OF assms(1)] by (simp add: can_send_def)
  moreover have "user_container ?h = ''ou=users,'' @ base_dn (global_config hl)"
    using assms(5) by (cases "directory_type c") (simp_all add: user_container_def)
  ultimately show ?thesis
    using us.operations_send(1) [of E ?h name name None as "''cn''"] assms(6,7)
    by (simp add: ld_add_user_def missing_def)
qed

text \<open>
  C1: A session from its start to its first request, for a simple bind without TLS in a working environment:
  \<open>ld_init\<close> succeeds; after three ticks of the timer the bind and the search for the kind of directory are
  outstanding; when libldap has answered both, one round of the event loop leaves nothing outstanding and the
  kind of directory that the answer names; when it names none, three more ticks bring the session to RUN and
  remove the timer, and from then on adding a user sends an addition for \<open>cn=name,ou=users,base\<close>.
\<close>

theorem session_comes_up_and_serves:
  fixes E :: "('w, 'h) ext"
  assumes "services_ok E" and "descriptors_ok E" and "accepts_simple_binds E" and "accepts_searches E"
    and "username cfg = Some user" and "simple_bind cfg" and "\<not> use_sasl cfg" and "\<not> use_tls cfg"
  shows "\<exists>hl w' c1 m ld i j. ld_init E True (Some cfg) w = Some (Handle hl, w') \<and>
    ticks E ev 3 (connection_ctx hl) = Some (True, c1) \<and> in_state m LDAP_CONNECTION_STATE_DETECT_DIRECTORY c1 \<and>
    outstanding c1 = [(i, Some BIND_ON_READ), (j, Some DIRECTORY_PARSE_RESULT)] \<and> ldap c1 = Valid ld \<and>
    (\<forall>message. no_errors E ld \<and> (\<forall>w. fst (fst (ldap_result E ld i w)) = LDAP_RES_BIND) \<and>
        (\<forall>w. fst (ldap_result E ld j w) = (LDAP_RES_SEARCH_ENTRY, message)) \<longrightarrow>
      (\<exists>c2. connection_on_read (call_read_operation E) E c1 = Some c2 \<and> outstanding c2 = [] \<and>
         in_state m LDAP_CONNECTION_STATE_DETECT_DIRECTORY c2 \<and> directory_type c2 = answered message \<and>
         (answered message = LDAP_TYPE_UNKNOWN \<longrightarrow>
           (\<exists>c3. ticks E ev 3 c2 = Some (False, c3) \<and> in_state m LDAP_CONNECTION_STATE_RUN c3 \<and>
              (\<forall>name as. name \<noteq> '''' \<and> list_all filled as \<longrightarrow>
                 sends (hl\<lparr>connection_ctx := c3\<rparr>) (\<lambda>ld. ldap_add_ext E ld
                     (Some (''cn='' @ name @ '',ou=users,'' @ base_dn cfg)) (Some (mods_of LDAP_MOD_ADD as)))
                   ADD_ON_READ (seen (ld_add_user E (With_Handle (hl\<lparr>connection_ctx := c3\<rparr>)) (Some name) (Some as) None)))))))"
proof -
  obtain hl w' c1 m ld i j where up: "ld_init E True (Some cfg) w = Some (Handle hl, w')" "global_config hl = cfg"
      "ticks E ev 3 (connection_ctx hl) = Some (True, c1)" "in_state m LDAP_CONNECTION_STATE_DETECT_DIRECTORY c1"
      "outstanding c1 = [(i, Some BIND_ON_READ), (j, Some DIRECTORY_PARSE_RESULT)]" "ldap c1 = Valid ld"
    and round: "\<And>message. no_errors E ld \<and> (\<forall>w. fst (fst (ldap_result E ld i w)) = LDAP_RES_BIND) \<and>
        (\<forall>w. fst (ldap_result E ld j w) = (LDAP_RES_SEARCH_ENTRY, message)) \<Longrightarrow>
      \<exists>c2. connection_on_read (call_read_operation E) E c1 = Some c2 \<and>
        in_state m LDAP_CONNECTION_STATE_DETECT_DIRECTORY c2 \<and> knows_directory E m ld (answered message) c2"
    using session_detects [OF assms, of w ev] by blast
  have run: "\<exists>c3. ticks E ev 3 c2 = Some (False, c3) \<and> in_state m LDAP_CONNECTION_STATE_RUN c3 \<and>
      (\<forall>name as. name \<noteq> '''' \<and> list_all filled as \<longrightarrow>
         sends (hl\<lparr>connection_ctx := c3\<rparr>) (\<lambda>ld. ldap_add_ext E ld
             (Some (''cn='' @ name @ '',ou=users,'' @ base_dn cfg)) (Some (mods_of LDAP_MOD_ADD as)))
           ADD_ON_READ (seen (ld_add_user E (With_Handle (hl\<lparr>connection_ctx := c3\<rparr>)) (Some name) (Some as) None)))"
    if det: "in_state m LDAP_CONNECTION_STATE_DETECT_DIRECTORY c2" "knows_directory E m ld LDAP_TYPE_UNKNOWN c2" for c2
  proof -
    obtain c3 where c3: "ticks E ev 3 c2 = Some (False, c3)" "in_state m LDAP_CONNECTION_STATE_RUN c3" "conn_inv c3"
        "ldap c3 = Valid ld" "n_read_requests c3 = 0" "directory_type c3 = LDAP_TYPE_UNKNOWN"
      using ticks_unknown_directory [OF det(1), of E ev] det(2) by (auto simp: knows_directory_def)
    then show ?thesis using user_addition_sent [OF assms(1) c3(3-5), of _ _ hl] up(2) by auto
  qed
  have "\<exists>c2. connection_on_read (call_read_operation E) E c1 = Some c2 \<and> outstanding c2 = [] \<and>
       in_state m LDAP_CONNECTION_STATE_DETECT_DIRECTORY c2 \<and> directory_type c2 = answered message \<and>
       (answered message = LDAP_TYPE_UNKNOWN \<longrightarrow>
         (\<exists>c3. ticks E ev 3 c2 = Some (False, c3) \<and> in_state m LDAP_CONNECTION_STATE_RUN c3 \<and>
            (\<forall>name as. name \<noteq> '''' \<and> list_all filled as \<longrightarrow>
               sends (hl\<lparr>connection_ctx := c3\<rparr>) (\<lambda>ld. ldap_add_ext E ld
                   (Some (''cn='' @ name @ '',ou=users,'' @ base_dn cfg)) (Some (mods_of LDAP_MOD_ADD as)))
                 ADD_ON_READ (seen (ld_add_user E (With_Handle (hl\<lparr>connection_ctx := c3\<rparr>)) (Some name) (Some as) None)))))"
    if answers: "no_errors E ld \<and> (\<forall>w. fst (fst (ldap_result E ld i w)) = LDAP_RES_BIND) \<and>
        (\<forall>w. fst (ldap_result E ld j w) = (LDAP_RES_SEARCH_ENTRY, message))" for message
  proof -
    obtain c2 where c2: "connection_on_read (call_read_operation E) E c1 = Some c2"
        "in_state m LDAP_CONNECTION_STATE_DETECT_DIRECTORY c2" "knows_directory E m ld (answered message) c2"
      using round [OF answers] by blast
    then have "outstanding c2 = []" "directory_type c2 = answered message" by (simp_all add: knows_directory_def)
    moreover have "answered message = LDAP_TYPE_UNKNOWN \<Longrightarrow> knows_directory E m ld LDAP_TYPE_UNKNOWN c2" using c2(3) by simp
    ultimately show ?thesis using c2(1,2) run [OF c2(2)] by blast
  qed
  then show ?thesis using up by blast
qed

lemma session_comes_up_and_serves_witness:
  "\<exists>hl w' c1. ld_init demo_ext True (Some demo_ld_config) (world demo_conn) = Some (Handle hl, w') \<and>
     ticks demo_ext 0 3 (connection_ctx hl) = Some (True, c1)"
proof -
  have "accepts_simple_binds demo_ext" "accepts_searches demo_ext"
    by (simp_all add: accepts_simple_binds_def accepts_searches_def demo_send_def)
  then show ?thesis
    using session_comes_up_and_serves [of demo_ext demo_ld_config "''admin''" "world demo_conn" 0] demo_descriptors_ok
    by (simp add: demo_ld_config_def) blast
qed

text \<open>Adding a user with a name and attributes sends an addition for \<open>cn=name,ou=users,base\<close>.\<close>

definition adds_users :: "('w, 'h) ext \<Rightarrow> ld_config \<Rightarrow> ('w, 'h) ldhandle \<Rightarrow> bool" where
  "adds_users E cfg hl \<longleftrightarrow> (\<forall>name as. name \<noteq> '''' \<and> list_all filled as \<longrightarrow>
     sends hl (\<lambda>ld. ldap_add_ext E ld
         (Some (''cn='' @ name @ '',ou=users,'' @ base_dn cfg)) (Some (mods_of LDAP_MOD_ADD as)))
       ADD_ON_READ (seen (ld_add_user E (With_Handle hl) (Some name) (Some as) None)))"


definition root_dse :: "ldap_message list" where
  "root_dse = [\<lparr>message_id = 2, message_dn = Some '''', message_attributes = [(''objectClass'', [''top'', ''OpenLDAProotDSE''])]\<rparr>]"

definition demo_openldap :: "(demo_world, demo_table) ext" where
  "demo_openldap = scripted_server (\<lambda>m. if m = 1 then (LDAP_RES_BIND, []) else if m = 2 then (LDAP_RES_SEARCH_ENTRY, root_dse)
     else if m = 3 then scripted_answer 3 [''cn'', ''sn''] else scripted_answer m [''person''])"

lemma demo_openldap_ok:
  "services_ok demo_openldap" "descriptors_ok demo_openldap" "accepts_simple_binds demo_openldap"
  "accepts_searches demo_openldap" "glib_ok demo_openldap" "no_errors demo_openldap ld"
  by (simp_all add: demo_openldap_def) (simp add: descriptors_ok_def scripted_server_def)

lemma demo_openldap_ids:
  "bind_id demo_openldap ld i \<longleftrightarrow> i = 1"
  "search_id demo_openldap ld dn flt attr i \<longleftrightarrow> i = scripted_id (Some [attr])"
  by (simp_all add: demo_openldap_def)

lemma demo_openldap_answers:
  "fst (fst (ldap_result demo_openldap ld 1 w)) = LDAP_RES_BIND"
  "fst (ldap_result demo_openldap ld 2 w) = (LDAP_RES_SEARCH_ENTRY, root_dse)"
  "listed demo_openldap ld 3 [''cn'', ''sn'']" "listed demo_openldap ld 4 [''person'']"
proof -
  have "map c_str [''cn'', ''sn''] = [''cn'', ''sn'']" "map c_str [''person''] = [''person'']" by code_simp+
  then show "listed demo_openldap ld 3 [''cn'', ''sn'']" "listed demo_openldap ld 4 [''person'']"
    unfolding demo_openldap_def by (auto intro!: scripted_server_listed)
qed (simp_all add: demo_openldap_def)


end
